(* ===== verification/Prelude.thy ===== *)
theory Prelude
  imports Complex_Main "HOL-Library.Word"
begin

text \<open>
  Shared vocabulary of the development: the exceptions the Python code raises, the
  state-and-exception monad every routine that appends to a graph builder is written in
  (Python mutates the builder in place, so the state survives an exception), the pure
  exception monad for routines that only compute, Python's decimal rendering of integers
  and its conversion of strings to integers, and generic lemmas on lists used by several
  components.
\<close>

section \<open>Theorem collections\<close>

named_theorems monad_simps "equations that run a monadic program"
named_theorems emit_intros "rules that establish the emission contract of a graph-building program"
named_theorems res_iff "when a computation in the exception monad returns a given value"

section \<open>Exceptions\<close>

text \<open>
  The exception classes the modelled code raises.  \<open>UnsupportedOpError\<close> is a subclass of
  \<open>ValueError\<close> in the source; handlers that catch \<open>ValueError\<close> use \<open>is_value_error\<close>.
  Messages are not modelled.
\<close>

datatype exn =
    UnsupportedOpError
  | ValueError
  | KeyError
  | IndexError
  | TypeError
  | AssertionError
  | ZeroDivisionError
  | OverflowError
  | ConnectionError
  | StructError
  | AttributeError
  | RPCError
  | EOFError
  | BrokenPipeError

fun is_value_error :: "exn \<Rightarrow> bool" where
  "is_value_error UnsupportedOpError = True"
| "is_value_error ValueError = True"
| "is_value_error _ = False"

type_synonym 'a res = "exn + 'a"

definition bindE :: "'a res \<Rightarrow> ('a \<Rightarrow> 'b res) \<Rightarrow> 'b res" where
  "bindE r f = (case r of Inl e \<Rightarrow> Inl e | Inr x \<Rightarrow> f x)"

lemma bindE_simps [simp, monad_simps]:
  "bindE (Inr x) f = f x"
  "bindE (Inl e) f = Inl e"
  by (simp_all add: bindE_def)

lemma bindE_Inr_iff [res_iff]: "bindE r f = Inr y \<longleftrightarrow> (\<exists>x. r = Inr x \<and> f x = Inr y)"
  by (cases r) auto

lemma bindE_assoc: "bindE (bindE r f) g = bindE r (\<lambda>x. bindE (f x) g)"
  by (cases r) simp_all

lemma bindE_Inr_right [simp]: "bindE r Inr = r"
  by (cases r) simp_all

text \<open>A failing check: the exception when the condition holds.\<close>

definition refuse_if :: "bool \<Rightarrow> exn \<Rightarrow> unit res" where
  "refuse_if c e = (if c then Inl e else Inr ())"

lemma refuse_if_simps [simp, monad_simps]:
  "refuse_if True e = Inl e"
  "refuse_if False e = Inr ()"
  by (simp_all add: refuse_if_def)

lemma refuse_if_Inr_iff [res_iff]: "refuse_if c e = Inr u \<longleftrightarrow> \<not> c"
  by (simp add: refuse_if_def)

lemma refuse_if_Inl_iff: "refuse_if c e = Inl e' \<longleftrightarrow> c \<and> e' = e"
  by (auto simp: refuse_if_def)

fun mapE :: "('a \<Rightarrow> 'b res) \<Rightarrow> 'a list \<Rightarrow> 'b list res" where
  "mapE f [] = Inr []"
| "mapE f (x # xs) = bindE (f x) (\<lambda>y. bindE (mapE f xs) (\<lambda>ys. Inr (y # ys)))"

lemma mapE_Inr_iff [res_iff]: "mapE f xs = Inr ys \<longleftrightarrow> map f xs = map Inr ys"
proof (induction xs arbitrary: ys)
  case Nil
  then show ?case by auto
next
  case (Cons x xs)
  then show ?case by (cases ys) (auto simp: bindE_Inr_iff)
qed

lemma mapE_map_cong: "map f xs = map g xs \<Longrightarrow> mapE f xs = mapE g xs"
  by (induction xs) simp_all

lemma mapE_length: "mapE f xs = Inr ys \<Longrightarrow> length ys = length xs"
  by (metis mapE_Inr_iff length_map)

lemma mapE_nth: "mapE f xs = Inr ys \<Longrightarrow> i < length xs \<Longrightarrow> f (xs ! i) = Inr (ys ! i)"
  by (metis mapE_Inr_iff length_map nth_map)

lemma mapE_total: "(\<And>x. x \<in> set xs \<Longrightarrow> f x = Inr (g x)) \<Longrightarrow> mapE f xs = Inr (map g xs)"
  by (simp add: mapE_Inr_iff)

section \<open>Numpy's product of a shape\<close>

text \<open>\<open>int(np.prod(shape, dtype=np.int64))\<close>: entries must fit 64 bits, the product wraps around.\<close>

definition np_prod :: "int list \<Rightarrow> int res" where
  "np_prod shape =
     bindE (refuse_if (\<exists>d \<in> set shape. d < - (2 ^ 63) \<or> 2 ^ 63 \<le> d) OverflowError) (\<lambda>_.
     Inr (sint (prod_list (map word_of_int shape) :: 64 word)))"

lemma np_prod_exact:
  assumes "\<forall>d \<in> set sh. d < 2 ^ 63" and "prod_list sh < 2 ^ 63"
  shows "np_prod (map int sh) = Inr (int (prod_list sh))"
proof -
  have "prod_list (map word_of_int (map int sh)) = (word_of_int (int (prod_list sh)) :: 64 word)"
    by (induction sh) simp_all
  moreover have "sint (word_of_int (int (prod_list sh)) :: 64 word) = int (prod_list sh)"
    using assms(2) by (subst int_word_sint) simp
  moreover have "\<not> (\<exists>d \<in> set (map int sh). d < - (2 ^ 63) \<or> 2 ^ 63 \<le> d)"
    using assms(1) by auto
  ultimately show ?thesis by (simp only: np_prod_def refuse_if_simps bindE_simps)
qed

section \<open>State with exceptions\<close>

type_synonym ('s, 'a) st = "'s \<Rightarrow> 'a res \<times> 's"

definition ret :: "'a \<Rightarrow> ('s, 'a) st" where
  "ret x s = (Inr x, s)"

definition lift :: "'a res \<Rightarrow> ('s, 'a) st" where
  "lift r s = (r, s)"

definition bnd :: "('s, 'a) st \<Rightarrow> ('a \<Rightarrow> ('s, 'b) st) \<Rightarrow> ('s, 'b) st" where
  "bnd m f s = (case m s of (Inl e, s') \<Rightarrow> (Inl e, s') | (Inr x, s') \<Rightarrow> f x s')"

abbreviation raise :: "exn \<Rightarrow> ('s, 'a) st" where
  "raise e \<equiv> lift (Inl e)"

lemma ret_run [monad_simps]: "ret x s = (Inr x, s)"
  by (simp add: ret_def)

lemma lift_run [monad_simps]: "lift r s = (r, s)"
  by (simp add: lift_def)

lemma bnd_run [monad_simps]:
  "m s = (Inr x, s') \<Longrightarrow> bnd m f s = f x s'"
  "m s = (Inl e, s') \<Longrightarrow> bnd m f s = (Inl e, s')"
  by (simp_all add: bnd_def)

lemma bnd_ret [simp]: "bnd (ret x) f = f x"
  by (rule ext) (simp add: bnd_def ret_def)

lemma bnd_lift_Inr [simp]: "bnd (lift (Inr x)) f = f x"
  by (rule ext) (simp add: bnd_def lift_def)

lemma bnd_lift_Inl [simp]: "bnd (lift (Inl e)) f = lift (Inl e)"
  by (rule ext) (simp add: bnd_def lift_def)

lemma bnd_Inr_iff: "bnd m f s = (Inr y, s') \<longleftrightarrow> (\<exists>x s1. m s = (Inr x, s1) \<and> f x s1 = (Inr y, s'))"
  by (auto simp: bnd_def split: prod.splits sum.splits)

lemma bnd_ret_right [simp]: "bnd m ret = m"
  by (rule ext) (auto simp: bnd_def ret_def split: prod.splits sum.splits)

lemma bnd_assoc: "bnd (bnd m f) g = bnd m (\<lambda>x. bnd (f x) g)"
  by (rule ext) (auto simp: bnd_def split: prod.splits sum.splits)

text \<open>A loop over a list whose body may append to the state, collecting its results.\<close>

fun mapM :: "('a \<Rightarrow> ('s, 'b) st) \<Rightarrow> 'a list \<Rightarrow> ('s, 'b list) st" where
  "mapM f [] = ret []"
| "mapM f (x # xs) = bnd (f x) (\<lambda>y. bnd (mapM f xs) (\<lambda>ys. ret (y # ys)))"

text \<open>A loop over a list that threads an accumulator.\<close>

fun foldM :: "('b \<Rightarrow> 'a \<Rightarrow> ('s, 'b) st) \<Rightarrow> 'b \<Rightarrow> 'a list \<Rightarrow> ('s, 'b) st" where
  "foldM f acc [] = ret acc"
| "foldM f acc (x # xs) = bnd (f acc x) (\<lambda>acc'. foldM f acc' xs)"

lemma foldM_append: "foldM f acc (xs @ ys) = bnd (foldM f acc xs) (\<lambda>acc'. foldM f acc' ys)"
  by (induction xs arbitrary: acc) (simp_all add: bnd_assoc)

lemma mapM_append: "mapM f (xs @ ys) = bnd (mapM f xs) (\<lambda>as. bnd (mapM f ys) (\<lambda>bs. ret (as @ bs)))"
  by (induction xs) (simp_all add: bnd_assoc)

lemma mapM_length: "mapM f xs s = (Inr ys, s') \<Longrightarrow> length ys = length xs"
  by (induction xs arbitrary: s ys) (auto simp: bnd_def ret_run split: prod.splits sum.splits)

text \<open>A loop that has returned had run each prefix of its list, and the next element after it.\<close>

lemma mapM_prefix:
  assumes "mapM f xs s = (Inr ys, s')" and "i < length xs"
  obtains s1 s2 where "mapM f (take i xs) s = (Inr (take i ys), s1)" and "f (xs ! i) s1 = (Inr (ys ! i), s2)"
    and "mapM f (take (Suc i) xs) s = (Inr (take (Suc i) ys), s2)"
proof -
  have "mapM f (take i xs @ xs ! i # drop (Suc i) xs) s = (Inr ys, s')"
    using assms by (metis id_take_nth_drop)
  then obtain as s1 y s2 bs where a: "mapM f (take i xs) s = (Inr as, s1)" "f (xs ! i) s1 = (Inr y, s2)"
      and ys: "ys = as @ y # bs"
    unfolding mapM_append mapM.simps(2) bnd_Inr_iff ret_run by blast
  have "length as = i" using mapM_length [OF a(1)] assms(2) by simp
  then have e: "take i ys = as" "ys ! i = y" "take (Suc i) ys = as @ [y]"
    by (auto simp: ys nth_append)
  have "mapM f (take (Suc i) xs) s = (Inr (as @ [y]), s2)"
    using a assms(2) by (simp add: take_Suc_conv_app_nth mapM_append bnd_Inr_iff ret_run)
  with a show thesis by (rule that [unfolded e])
qed

section \<open>Python integers as text\<close>

definition digit_char :: "nat \<Rightarrow> char" where
  "digit_char d = char_of (48 + d)"

text \<open>\<open>str(n)\<close> for a nonnegative integer.\<close>

fun decimal :: "nat \<Rightarrow> string" where
  "decimal n = (if n < 10 then [digit_char n] else decimal (n div 10) @ [digit_char (n mod 10)])"

declare decimal.simps [simp del]

definition is_digit :: "char \<Rightarrow> bool" where
  "is_digit c \<longleftrightarrow> 48 \<le> (of_char c :: nat) \<and> (of_char c :: nat) \<le> 57"

definition digit_value :: "char \<Rightarrow> nat" where
  "digit_value c = of_char c - 48"

definition nat_of_digits :: "string \<Rightarrow> nat" where
  "nat_of_digits s = foldl (\<lambda>acc c. 10 * acc + digit_value c) 0 s"

lemma of_char_digit_char: "d < 10 \<Longrightarrow> (of_char (digit_char d) :: nat) = 48 + d"
  by (simp add: digit_char_def)

lemma is_digit_digit_char: "d < 10 \<Longrightarrow> is_digit (digit_char d)"
  by (simp add: is_digit_def of_char_digit_char)

lemma digit_value_digit_char: "d < 10 \<Longrightarrow> digit_value (digit_char d) = d"
  by (simp add: digit_value_def of_char_digit_char)

lemma decimal_digits: "\<forall>c \<in> set (decimal n). is_digit c"
proof (induction n rule: decimal.induct)
  case (1 n)
  then show ?case
    by (subst decimal.simps) (auto simp: is_digit_digit_char)
qed

lemma decimal_nonempty: "decimal n \<noteq> []"
  by (subst decimal.simps) simp

lemma nat_of_digits_snoc: "nat_of_digits (s @ [c]) = 10 * nat_of_digits s + digit_value c"
  by (simp add: nat_of_digits_def)

lemma nat_of_digits_decimal [simp]: "nat_of_digits (decimal n) = n"
proof (induction n rule: decimal.induct)
  case (1 n)
  show ?case
  proof (cases "n < 10")
    case True
    then show ?thesis
      by (subst decimal.simps) (simp add: nat_of_digits_def digit_value_digit_char)
  next
    case False
    with 1 show ?thesis
      by (subst decimal.simps) (simp add: nat_of_digits_snoc digit_value_digit_char)
  qed
qed

lemma decimal_inj: "decimal m = decimal n \<Longrightarrow> m = n"
  by (metis nat_of_digits_decimal)

text \<open>
  \<open>int(s)\<close> on a string: an optional sign and decimal digits, \<open>ValueError\<close> otherwise (the
  blanks and underscores Python also tolerates do not occur in tensor dimension names and
  are refused here).
\<close>

definition int_of_string :: "string \<Rightarrow> int res" where
  "int_of_string s =
     (let (neg, ds) = (case s of [] \<Rightarrow> (False, [])
                       | c # cs \<Rightarrow> if c = CHR ''-'' then (True, cs)
                                  else if c = CHR ''+'' then (False, cs) else (False, c # cs))
      in if ds \<noteq> [] \<and> list_all is_digit ds
         then Inr (if neg then - int (nat_of_digits ds) else int (nat_of_digits ds))
         else Inl ValueError)"

text \<open>\<open>str.lower()\<close> on ASCII text.\<close>

definition lower_char :: "char \<Rightarrow> char" where
  "lower_char c = (let n = (of_char c :: nat) in if 65 \<le> n \<and> n \<le> 90 then char_of (n + 32) else c)"

definition lower :: "string \<Rightarrow> string" where
  "lower s = map lower_char s"

section \<open>Lists\<close>

text \<open>Python's \<open>range(lo, hi)\<close> and \<open>range(lo, hi, step)\<close> with a positive step.\<close>

definition range_int :: "int \<Rightarrow> int \<Rightarrow> int list" where
  "range_int lo hi = map (\<lambda>k. lo + int k) [0..<nat (hi - lo)]"

definition range_step :: "int \<Rightarrow> int \<Rightarrow> int \<Rightarrow> int list" where
  "range_step lo hi step = map (\<lambda>k. lo + step * int k) [0..<nat ((hi - lo + step - 1) div step)]"

lemma length_range_int [simp]: "length (range_int lo hi) = nat (hi - lo)"
  by (simp add: range_int_def)

lemma set_range_int: "set (range_int lo hi) = {lo..<hi}"
proof -
  have "\<exists>k<nat (hi - lo). x = lo + int k" if "lo \<le> x" "x < hi" for x
    using that by (intro exI [of _ "nat (x - lo)"]) auto
  then show ?thesis
    by (fastforce simp: range_int_def image_iff)
qed

lemma range_int_nth: "i < nat (hi - lo) \<Longrightarrow> range_int lo hi ! i = lo + int i"
  by (simp add: range_int_def)

lemma range_step_one: "range_step lo hi 1 = range_int lo hi"
  by (simp add: range_step_def range_int_def)

text \<open>Python's list indexing with an index known to be nonnegative.\<close>

definition item_at :: "'a list \<Rightarrow> nat \<Rightarrow> 'a res" where
  "item_at xs i = (if i < length xs then Inr (xs ! i) else Inl IndexError)"

lemma item_at_Inr_iff [res_iff]: "item_at xs i = Inr y \<longleftrightarrow> i < length xs \<and> y = xs ! i"
  by (auto simp: item_at_def)

lemma item_at_simps [simp]:
  "item_at (x # xs) 0 = Inr x"
  "item_at (x # xs) (Suc i) = item_at xs i"
  "item_at [] i = Inl IndexError"
  by (simp_all add: item_at_def)

lemma item_at_numeral [simp]: "item_at (x # xs) (numeral k) = item_at xs (pred_numeral k)"
  by (simp add: numeral_eq_Suc)

text \<open>The first occurrence of an element, \<open>perm.index(i)\<close>.\<close>

fun index_of :: "'a \<Rightarrow> 'a list \<Rightarrow> nat res" where
  "index_of x [] = Inl ValueError"
| "index_of x (y # ys) = (if x = y then Inr 0 else bindE (index_of x ys) (\<lambda>k. Inr (Suc k)))"

lemma index_of_Inr: "index_of x ys = Inr k \<Longrightarrow> k < length ys \<and> ys ! k = x"
  by (induction ys arbitrary: k) (auto split: if_splits simp: bindE_Inr_iff)

lemma index_of_mem: "x \<in> set ys \<Longrightarrow> \<exists>k. index_of x ys = Inr k"
  by (induction ys) auto

lemma length_concat_replicate_const:
  "(\<And>x. x \<in> set xs \<Longrightarrow> length (f x) = n) \<Longrightarrow> length (concat (map f xs)) = length xs * n"
  by (induction xs) auto

lemma concat_map_nth:
  assumes "\<And>x. x \<in> set xs \<Longrightarrow> length (f x) = n" and "i < length xs" and "j < n"
  shows "concat (map f xs) ! (i * n + j) = f (xs ! i) ! j"
  using assms
proof (induction xs arbitrary: i)
  case Nil
  then show ?case by simp
next
  case (Cons x xs)
  show ?case
  proof (cases i)
    case 0
    with Cons.prems show ?thesis by (simp add: nth_append)
  next
    case (Suc i')
    with Cons have "concat (map f xs) ! (i' * n + j) = f (xs ! i') ! j" by simp
    with Cons.prems Suc show ?thesis by (simp add: nth_append)
  qed
qed

text \<open>\<open>k % n\<close> as a list position: Python's modulo by a length, which is nonnegative.\<close>

definition mod_len :: "int \<Rightarrow> nat \<Rightarrow> nat res" where
  "mod_len k n = (if n = 0 then Inl ZeroDivisionError else Inr (nat (k mod int n)))"

lemma mod_len_Inr_iff [res_iff]: "mod_len k n = Inr i \<longleftrightarrow> 0 < n \<and> i = nat (k mod int n)"
  by (auto simp: mod_len_def)

lemma mod_len_less: "mod_len k n = Inr i \<Longrightarrow> i < n"
  by (auto simp: mod_len_def split: if_splits) (simp add: nat_less_iff)

text \<open>\<open>xs[k] = v\<close> with Python's negative indices.\<close>

definition set_item :: "'a list \<Rightarrow> int \<Rightarrow> 'a \<Rightarrow> 'a list res" where
  "set_item xs k v =
     (let i = (if k < 0 then k + int (length xs) else k)
      in if 0 \<le> i \<and> i < int (length xs) then Inr (xs[nat i := v]) else Inl IndexError)"

text \<open>A pure loop that threads an accumulator.\<close>

fun foldE :: "('b \<Rightarrow> 'a \<Rightarrow> 'b res) \<Rightarrow> 'b \<Rightarrow> 'a list \<Rightarrow> 'b res" where
  "foldE f acc [] = Inr acc"
| "foldE f acc (x # xs) = bindE (f acc x) (\<lambda>acc'. foldE f acc' xs)"

lemma foldE_append: "foldE f acc (xs @ ys) = bindE (foldE f acc xs) (\<lambda>a. foldE f a ys)"
  by (induction xs arbitrary: acc) (simp_all add: bindE_assoc)

text \<open>An invariant of a pure loop.\<close>

lemma foldE_invariant:
  assumes "foldE f acc xs = Inr r" and "P acc"
    and "\<And>a x a'. x \<in> set xs \<Longrightarrow> P a \<Longrightarrow> f a x = Inr a' \<Longrightarrow> P a'"
  shows "P r"
  using assms
proof (induction xs arbitrary: acc)
  case Nil
  then show ?case by simp
next
  case (Cons x xs)
  from Cons.prems(1) obtain a where "f acc x = Inr a" "foldE f a xs = Inr r"
    by (auto simp: bindE_Inr_iff)
  with Cons show ?case by (metis list.set_intros)
qed

end
