(* ===== verification/Onnx.thy ===== *)
theory Onnx
  imports Prelude
begin

text \<open>
  The part of the ONNX protobuf data model that the Python modules read and build: nodes with
  their attributes, constant tensors (initializers), model-local functions, tensor shapes whose
  dimensions may be symbolic, and the Python conversions (\<open>int\<close>, \<open>float\<close>, \<open>bool\<close>) applied to
  attribute values.
\<close>

section \<open>Shapes\<close>

text \<open>A dimension is a size or the name of a dynamic axis (\<open>Union[int, str]\<close>).\<close>

datatype dim = DInt int | DSym string

type_synonym shape = "dim list"

fun is_int_dim :: "dim \<Rightarrow> bool" where
  "is_int_dim (DInt _) = True"
| "is_int_dim (DSym _) = False"

text \<open>\<open>int(d)\<close> on a shape entry.\<close>

fun dim_int :: "dim \<Rightarrow> int res" where
  "dim_int (DInt n) = Inr n"
| "dim_int (DSym s) = int_of_string s"

lemma mapE_dim_int [simp]: "mapE dim_int (map DInt ns) = Inr ns"
  by (induction ns) simp_all

lemma mapE_dim_int_static:
  assumes "\<forall>d \<in> set ds. is_int_dim d"
  shows "\<exists>ns. ds = map DInt ns"
  using assms
proof (induction ds)
  case Nil
  then show ?case by simp
next
  case (Cons d ds)
  then obtain ns where "ds = map DInt ns" by auto
  moreover from Cons.prems obtain n where "d = DInt n" by (cases d) auto
  ultimately show ?case by (auto intro: exI [of _ "n # ns"])
qed

section \<open>Attributes\<close>

text \<open>
  An attribute value as \<open>onnx.helper.get_attribute_value\<close> returns it.  A string attribute is the
  decoded text; subgraph attributes carry no content here because the modelled code only asks
  whether they are present.
\<close>

datatype attr_val =
    AInt int
  | AFloat real
  | AStr string
  | AInts "int list"
  | AFloats "real list"
  | AGraph
  | AGraphs nat

type_synonym attributes = "(string \<times> attr_val) list"

definition trunc_real :: "real \<Rightarrow> int" where
  "trunc_real r = (if 0 \<le> r then \<lfloor>r\<rfloor> else \<lceil>r\<rceil>)"

text \<open>\<open>int(v)\<close>, \<open>float(v)\<close>, \<open>bool(v)\<close> and \<open>[int(x) for x in v]\<close> on an attribute value.\<close>

fun attr_int :: "attr_val \<Rightarrow> int res" where
  "attr_int (AInt n) = Inr n"
| "attr_int (AFloat r) = Inr (trunc_real r)"
| "attr_int (AStr s) = int_of_string s"
| "attr_int _ = Inl TypeError"

fun attr_float :: "attr_val \<Rightarrow> real res" where
  "attr_float (AInt n) = Inr (of_int n)"
| "attr_float (AFloat r) = Inr r"
| "attr_float (AStr s) = Inl ValueError"
| "attr_float _ = Inl TypeError"

fun attr_bool :: "attr_val \<Rightarrow> bool" where
  "attr_bool (AInt n) = (n \<noteq> 0)"
| "attr_bool (AFloat r) = (r \<noteq> 0)"
| "attr_bool (AStr s) = (s \<noteq> [])"
| "attr_bool (AInts ns) = (ns \<noteq> [])"
| "attr_bool (AFloats rs) = (rs \<noteq> [])"
| "attr_bool AGraph = True"
| "attr_bool (AGraphs n) = (n \<noteq> 0)"

fun attr_ints :: "attr_val \<Rightarrow> int list res" where
  "attr_ints (AInts ns) = Inr ns"
| "attr_ints (AFloats rs) = Inr (map trunc_real rs)"
| "attr_ints (AStr s) = Inr (map of_char s)"
| "attr_ints _ = Inl TypeError"

section \<open>Nodes, tensors, functions\<close>

record node =
  op_type :: string
  domain :: string
  node_name :: string
  inputs :: "string list"
  outputs :: "string list"
  attributes :: attributes

text \<open>
  The payload of a constant tensor.  \<open>TInt\<close> covers every integer element type (numpy kinds
  \<open>i\<close> and \<open>u\<close>), with the flag telling whether it is int64; \<open>TUnreadable\<close> is a tensor
  \<open>onnx.numpy_helper.to_array\<close> raises on.
\<close>

datatype tensor_data =
    TFloat "real list"
  | TInt bool "int list"
  | TBool "bool list"
  | TUnreadable

record tensor =
  t_name :: string
  t_dims :: "int list"
  t_data :: tensor_data

record func =
  f_domain :: string
  f_name :: string
  f_inputs :: "string list"
  f_outputs :: "string list"
  f_body :: "node list"

text \<open>\<open>onnx.helper.make_node\<close>: no name, the given domain.\<close>

definition make_node :: "string \<Rightarrow> string list \<Rightarrow> string list \<Rightarrow> string \<Rightarrow> attributes \<Rightarrow> node" where
  "make_node ty ins outs dmn attrs =
     \<lparr>op_type = ty, domain = dmn, node_name = '''', inputs = ins, outputs = outs,
      attributes = attrs\<rparr>"

lemma make_node_sel [simp]:
  "op_type (make_node ty ins outs dmn attrs) = ty"
  "domain (make_node ty ins outs dmn attrs) = dmn"
  "node_name (make_node ty ins outs dmn attrs) = ''''"
  "inputs (make_node ty ins outs dmn attrs) = ins"
  "outputs (make_node ty ins outs dmn attrs) = outs"
  "attributes (make_node ty ins outs dmn attrs) = attrs"
  by (simp_all add: make_node_def)

text \<open>\<open>node.input[i]\<close> and \<open>node.output[i]\<close>.\<close>

abbreviation input_at :: "node \<Rightarrow> nat \<Rightarrow> string res" where
  "input_at nd i \<equiv> item_at (inputs nd) i"

abbreviation output_at :: "node \<Rightarrow> nat \<Rightarrow> string res" where
  "output_at nd i \<equiv> item_at (outputs nd) i"

text \<open>Element type codes of \<open>onnx.TensorProto\<close> the code names.\<close>

definition TP_FLOAT :: int where "TP_FLOAT = 1"
definition TP_INT32 :: int where "TP_INT32 = 6"
definition TP_INT64 :: int where "TP_INT64 = 7"

section \<open>Scoping of a node list\<close>

text \<open>The names a node list defines, and the real (nonempty) names a node reads.\<close>

definition reads :: "node \<Rightarrow> string set" where
  "reads n = set (inputs n) - {''''}"

definition defs :: "node list \<Rightarrow> string set" where
  "defs ns = (\<Union>n \<in> set ns. set (outputs n))"

lemma defs_simps [simp]:
  "defs [] = {}"
  "defs (n # ns) = set (outputs n) \<union> defs ns"
  "defs (xs @ ys) = defs xs \<union> defs ys"
  by (auto simp: defs_def)

text \<open>
  A node list is well scoped over the names \<open>K\<close> when it is in single-assignment form and every
  node reads only names of \<open>K\<close> or outputs of earlier nodes: the condition under which an ONNX
  graph is topologically ordered and valid.
\<close>

fun ssa :: "string set \<Rightarrow> node list \<Rightarrow> bool" where
  "ssa K [] = True"
| "ssa K (n # ns) = (reads n \<subseteq> K \<and> distinct (outputs n) \<and> set (outputs n) \<inter> K = {}
                     \<and> ssa (K \<union> set (outputs n)) ns)"

lemma ssa_append: "ssa K (xs @ ys) \<longleftrightarrow> ssa K xs \<and> ssa (K \<union> defs xs) ys"
  by (induction xs arbitrary: K) (auto simp: Un_assoc)

lemma ssa_widen: "ssa K ns \<Longrightarrow> X \<inter> defs ns = {} \<Longrightarrow> ssa (K \<union> X) ns"
proof (induction ns arbitrary: K)
  case Nil
  then show ?case by simp
next
  case (Cons n ns)
  have "K \<union> X \<union> set (outputs n) = K \<union> set (outputs n) \<union> X" by auto
  with Cons show ?case by auto
qed

lemma ssa_defs_disjoint: "ssa K ns \<Longrightarrow> defs ns \<inter> K = {}"
  by (induction ns arbitrary: K) auto

lemma ssa_reads: "ssa K ns \<Longrightarrow> n \<in> set ns \<Longrightarrow> reads n \<subseteq> K \<union> defs ns"
  by (induction ns arbitrary: K) fastforce+

lemma ssa_snoc:
  "ssa K (ns @ [n]) \<longleftrightarrow> ssa K ns \<and> reads n \<subseteq> K \<union> defs ns \<and> distinct (outputs n)
     \<and> set (outputs n) \<inter> (K \<union> defs ns) = {}"
  by (auto simp: ssa_append)

end
