(* ===== verification/Graph_Builder.thy ===== *)
theory Graph_Builder
  imports Onnx
begin

text \<open>
  \<open>onnxsim/qat_graph.py\<close>, class \<open>GraphBuilder\<close>: the accumulator of nodes, initializers and
  model-local functions that every gradient rule and optimizer appends to.  Each method is a
  program in the state-and-exception monad over the builder's record.  The second half proves
  that the names a builder mints never repeat.
\<close>

section \<open>State\<close>

text \<open>
  What the code takes from numpy and cannot be read here is a parameter: rounding a Python float
  to float32 (\<open>np.asarray(v, dtype=np.float32)\<close>) and \<open>np.broadcast_shapes\<close>.
\<close>

record ext =
  f32 :: "real \<Rightarrow> real"
  np_broadcast :: "shape \<Rightarrow> shape \<Rightarrow> shape res"

text \<open>A numpy array value: its shape and its elements in row-major order.\<close>

type_synonym arr = "int list \<times> real list"

abbreviation scalar :: "real \<Rightarrow> arr" where
  "scalar v \<equiv> ([], [v])"

record builder =
  b_nodes :: "node list"
  b_initializer :: "tensor list"
  b_functions :: "func list"
  b_function_ids :: "(string \<times> string) set"
  b_prefix :: string
  b_counter :: nat
  b_shared :: "arr \<rightharpoonup> string"

type_synonym 'a bst = "(builder, 'a) st"

definition new_builder :: "string \<Rightarrow> builder" where
  "new_builder prefix =
     \<lparr>b_nodes = [], b_initializer = [], b_functions = [], b_function_ids = {},
      b_prefix = prefix, b_counter = 0, b_shared = Map.empty\<rparr>"

section \<open>Operations\<close>

text \<open>\<open>f"{prefix}{hint}_{counter}"\<close>\<close>

definition minted :: "string \<Rightarrow> string \<Rightarrow> nat \<Rightarrow> string" where
  "minted prefix hint n = prefix @ hint @ ''_'' @ decimal n"

definition b_name :: "string \<Rightarrow> string bst" where
  "b_name hint b =
     (let n = Suc (b_counter b)
      in (Inr (minted (b_prefix b) hint n), b\<lparr>b_counter := n\<rparr>))"

definition add_initializer :: "tensor \<Rightarrow> unit bst" where
  "add_initializer t b = (Inr (), b\<lparr>b_initializer := b_initializer b @ [t]\<rparr>)"

definition add_node :: "node \<Rightarrow> unit bst" where
  "add_node n b = (Inr (), b\<lparr>b_nodes := b_nodes b @ [n]\<rparr>)"

definition to_f32 :: "ext \<Rightarrow> arr \<Rightarrow> arr" where
  "to_f32 E v = (fst v, map (f32 E) (snd v))"

text \<open>What \<open>const\<close> does with an array that is float32 already, which \<open>np.asarray\<close> passes through.\<close>

definition f32_const :: "arr \<Rightarrow> string \<Rightarrow> string bst" where
  "f32_const a hint =
     bnd (b_name hint) (\<lambda>name.
     bnd (add_initializer \<lparr>t_name = name, t_dims = fst a, t_data = TFloat (snd a)\<rparr>) (\<lambda>_.
     ret name))"

definition b_const :: "ext \<Rightarrow> arr \<Rightarrow> string \<Rightarrow> string bst" where
  "b_const E value hint = f32_const (to_f32 E value) hint"

definition b_shared_const :: "ext \<Rightarrow> arr \<Rightarrow> string \<Rightarrow> string bst" where
  "b_shared_const E value hint b =
     (let a = to_f32 E value
      in case b_shared b a of
           Some cached \<Rightarrow> (Inr cached, b)
         | None \<Rightarrow> bnd (f32_const a hint) (\<lambda>name b.
                    (Inr name, b\<lparr>b_shared := (b_shared b)(a \<mapsto> name)\<rparr>)) b)"

definition b_op_in :: "string \<Rightarrow> string list \<Rightarrow> string \<Rightarrow> string \<Rightarrow> attributes \<Rightarrow> string bst" where
  "b_op_in ty ins hint dmn attrs =
     bnd (b_name (if hint = '''' then lower ty else hint)) (\<lambda>out.
     bnd (add_node (make_node ty ins [out] dmn attrs)) (\<lambda>_.
     ret out))"

abbreviation b_op :: "string \<Rightarrow> string list \<Rightarrow> attributes \<Rightarrow> string bst" where
  "b_op ty ins attrs \<equiv> b_op_in ty ins '''' '''' attrs"

definition register_function :: "func \<Rightarrow> unit bst" where
  "register_function fn b =
     (let fid = (f_domain fn, f_name fn)
      in if fid \<in> b_function_ids b then (Inr (), b)
         else (Inr (), b\<lparr>b_function_ids := insert fid (b_function_ids b),
                         b_functions := b_functions b @ [fn]\<rparr>))"

definition b_call :: "func \<Rightarrow> string list \<Rightarrow> string list bst" where
  "b_call fn ins =
     bnd (register_function fn) (\<lambda>_.
     bnd (mapM (\<lambda>_. b_name (lower (f_name fn))) (f_outputs fn)) (\<lambda>outs.
     bnd (add_node (make_node (f_name fn) ins outs (f_domain fn) [])) (\<lambda>_.
     ret outs)))"

definition b_add :: "string \<Rightarrow> string \<Rightarrow> string bst" where
  "b_add x y = b_op ''Add'' [x, y] []"

definition b_sub :: "string \<Rightarrow> string \<Rightarrow> string bst" where
  "b_sub x y = b_op ''Sub'' [x, y] []"

definition b_mul :: "string \<Rightarrow> string \<Rightarrow> string bst" where
  "b_mul x y = b_op ''Mul'' [x, y] []"

definition b_div :: "string \<Rightarrow> string \<Rightarrow> string bst" where
  "b_div x y = b_op ''Div'' [x, y] []"

definition b_matmul :: "string \<Rightarrow> string \<Rightarrow> string bst" where
  "b_matmul x y = b_op ''MatMul'' [x, y] []"

definition b_transpose :: "string \<Rightarrow> int list \<Rightarrow> string bst" where
  "b_transpose x perm = b_op ''Transpose'' [x] [(''perm'', AInts perm)]"

definition b_transpose_all :: "string \<Rightarrow> string bst" where
  "b_transpose_all x = b_op ''Transpose'' [x] []"

definition b_sqrt :: "string \<Rightarrow> string bst" where
  "b_sqrt x = b_op ''Sqrt'' [x] []"

definition b_sigmoid :: "string \<Rightarrow> string bst" where
  "b_sigmoid x = b_op ''Sigmoid'' [x] []"

definition b_clip :: "ext \<Rightarrow> string \<Rightarrow> real \<Rightarrow> real \<Rightarrow> string bst" where
  "b_clip E x low high =
     bnd (b_const E (scalar low) ''c'') (\<lambda>lo.
     bnd (b_const E (scalar high) ''c'') (\<lambda>hi.
     b_op ''Clip'' [x, lo, hi] []))"

definition b_cast :: "string \<Rightarrow> int \<Rightarrow> string bst" where
  "b_cast x ty = b_op ''Cast'' [x] [(''to'', AInt ty)]"

definition b_greater_mask :: "ext \<Rightarrow> string \<Rightarrow> real \<Rightarrow> string bst" where
  "b_greater_mask E x threshold =
     bnd (b_const E (scalar threshold) ''c'') (\<lambda>c.
     bnd (b_op ''Greater'' [x, c] []) (\<lambda>gt.
     b_cast gt TP_FLOAT))"

definition b_less_mask :: "ext \<Rightarrow> string \<Rightarrow> real \<Rightarrow> string bst" where
  "b_less_mask E x threshold =
     bnd (b_const E (scalar threshold) ''c'') (\<lambda>c.
     bnd (b_op ''Less'' [x, c] []) (\<lambda>lt.
     b_cast lt TP_FLOAT))"

definition b_round_to_nearest :: "ext \<Rightarrow> string \<Rightarrow> string bst" where
  "b_round_to_nearest E x =
     bnd (b_op ''Abs'' [x] []) (\<lambda>ab.
     bnd (b_const E (scalar (1 / 2)) ''c'') (\<lambda>half.
     bnd (b_add ab half) (\<lambda>magnitude.
     bnd (b_cast magnitude TP_INT32) (\<lambda>truncated.
     bnd (b_op ''Sign'' [x] []) (\<lambda>sg.
     bnd (b_cast truncated TP_FLOAT) (\<lambda>whole.
     b_mul sg whole))))))"

definition b_mean_square :: "string \<Rightarrow> string bst" where
  "b_mean_square x =
     bnd (b_mul x x) (\<lambda>sq. b_op ''ReduceMean'' [sq] [(''keepdims'', AInt 0)])"

definition b_gather_rows :: "string \<Rightarrow> string \<Rightarrow> string option \<Rightarrow> string bst" where
  "b_gather_rows table index out =
     (case out of
        None \<Rightarrow> b_op_in ''Gather'' [table, index] ''rows'' '''' [(''axis'', AInt 0)]
      | Some name \<Rightarrow>
          bnd (add_node (make_node ''Gather'' [table, index] [name] '''' [(''axis'', AInt 0)])) (\<lambda>_.
          ret name))"

section \<open>Minted names\<close>

text \<open>
  The decimal suffix after the last underscore is a function of the counter alone, so two names
  minted at different counter values differ whatever their hints are.
\<close>

lemma takeWhile_rev_decimal:
  "takeWhile is_digit (rev (s @ ''_'' @ decimal n)) = rev (decimal n)"
proof -
  have "\<not> is_digit (CHR ''_'')" by (simp add: is_digit_def)
  then have "takeWhile is_digit (rev (decimal n) @ CHR ''_'' # rev s) = rev (decimal n)"
    using decimal_digits [of n] by (subst takeWhile_append2) auto
  then show ?thesis by simp
qed

lemma minted_counter_inj:
  assumes "minted p h m = minted p h' n"
  shows "m = n"
proof -
  from assms have "(p @ h) @ ''_'' @ decimal m = (p @ h') @ ''_'' @ decimal n"
    by (simp add: minted_def)
  then have "rev (decimal m) = rev (decimal n)"
    by (metis takeWhile_rev_decimal)
  then show ?thesis by (simp add: decimal_inj)
qed

lemma minted_nonempty: "minted p h n \<noteq> ''''"
  by (simp add: minted_def)

text \<open>The names a builder has bound: its initializers and its nodes' outputs.\<close>

definition inits :: "builder \<Rightarrow> string set" where
  "inits b = t_name ` set (b_initializer b)"

definition bound :: "builder \<Rightarrow> string set" where
  "bound b = inits b \<union> defs (b_nodes b)"

definition avail :: "string set \<Rightarrow> builder \<Rightarrow> string set" where
  "avail K b = K \<union> bound b"

lemma inits_update [simp]:
  "inits (b\<lparr>b_counter := c\<rparr>) = inits b"
  "inits (b\<lparr>b_nodes := ns\<rparr>) = inits b"
  "inits (b\<lparr>b_functions := fs\<rparr>) = inits b"
  "inits (b\<lparr>b_function_ids := is'\<rparr>) = inits b"
  "inits (b\<lparr>b_shared := sh\<rparr>) = inits b"
  "inits (b\<lparr>b_initializer := ts @ [t]\<rparr>) = insert (t_name t) (t_name ` set ts)"
  by (auto simp: inits_def)

lemma bound_update [simp]:
  "bound (b\<lparr>b_functions := fs\<rparr>) = bound b"
  "bound (b\<lparr>b_function_ids := ids\<rparr>) = bound b"
  "bound (b\<lparr>b_counter := c\<rparr>) = bound b"
  by (simp_all add: bound_def)

lemma avail_update [simp]:
  "avail K (b\<lparr>b_counter := c\<rparr>) = avail K b"
  "avail K (b\<lparr>b_functions := fs\<rparr>) = avail K b"
  "avail K (b\<lparr>b_function_ids := is'\<rparr>) = avail K b"
  "avail K (b\<lparr>b_shared := sh\<rparr>) = avail K b"
  "avail K (b\<lparr>b_nodes := b_nodes b @ [n]\<rparr>) = avail K b \<union> set (outputs n)"
  "avail K (b\<lparr>b_initializer := b_initializer b @ [t]\<rparr>) = avail K b \<union> {t_name t}"
  by (auto simp: avail_def bound_def inits_def)

text \<open>No name the builder may still mint is taken.\<close>

definition unminted :: "string set \<Rightarrow> builder \<Rightarrow> bool" where
  "unminted X b \<longleftrightarrow> (\<forall>h n. b_counter b < n \<longrightarrow> minted (b_prefix b) h n \<notin> X)"

lemma unminted_union [simp]: "unminted (X \<union> Y) b \<longleftrightarrow> unminted X b \<and> unminted Y b"
  by (auto simp: unminted_def)

lemma unminted_insert_minted:
  "n \<le> b_counter b \<Longrightarrow> unminted {minted (b_prefix b) h n} b"
  using minted_counter_inj by (fastforce simp: unminted_def)

lemma unminted_empty [simp]: "unminted {} b"
  by (simp add: unminted_def)

text \<open>
  The builder's invariant over the external names \<open>K\<close> (the tensors of the forward graph and the
  gradients the pass is seeded with).
\<close>

definition builder_wf :: "string set \<Rightarrow> builder \<Rightarrow> bool" where
  "builder_wf K b \<longleftrightarrow>
     distinct (map t_name (b_initializer b)) \<and>
     inits b \<inter> K = {} \<and>
     '''' \<notin> bound b \<and>
     ssa (K \<union> inits b) (b_nodes b) \<and>
     unminted (avail K b) b \<and>
     ran (b_shared b) \<subseteq> inits b \<and>
     b_function_ids b = (\<lambda>f. (f_domain f, f_name f)) ` set (b_functions b)"

lemma builder_wf_new: "unminted K (new_builder p) \<Longrightarrow> builder_wf K (new_builder p)"
  by (simp add: builder_wf_def new_builder_def inits_def avail_def bound_def unminted_def)

end
