(* ===== verification/Grad_Templates.thy ===== *)
theory Grad_Templates
  imports Onnx
begin

text \<open>
  \<open>onnxsim/graph_grad_templates_gen.py\<close>: the checked-in function bodies of the templated gradient
  rules, written here as the \<open>FunctionProto\<close> that \<open>onnx.parser.parse_function\<close> reads back from them.
\<close>

section \<open>Templates\<close>

definition tnode :: "string \<Rightarrow> string \<Rightarrow> string list \<Rightarrow> string \<Rightarrow> attributes \<Rightarrow> node" where
  "tnode nm ty ins out attrs = make_node ty ins [out] '''' attrs\<lparr>node_name := nm\<rparr>"

definition template :: "string \<Rightarrow> string list \<Rightarrow> string list \<Rightarrow> node list \<Rightarrow> func" where
  "template nm ins outs body =
     \<lparr>f_domain = ''onnxsim.grad'', f_name = nm, f_inputs = ins, f_outputs = outs, f_body = body\<rparr>"

definition GRAD_ADD :: func where
  "GRAD_ADD = template ''GradAdd'' [''g''] [''da'', ''db'']
     [tnode ''n0'' ''Identity'' [''g''] ''da'' [],
      tnode ''n1'' ''Identity'' [''g''] ''db'' []]"

definition GRAD_BATCH_NORMALIZATION :: func where
  "GRAD_BATCH_NORMALIZATION = template ''GradBatchNormalization'' [''g'', ''x'', ''mean_b'', ''var_b'', ''scale_b'', ''eps'', ''channel_axes'', ''one'', ''neg_half''] [''dx'', ''dscale'', ''dbias'', ''dmean'', ''dvar'']
     [tnode ''n0'' ''Sub'' [''x'', ''mean_b''] ''xc'' [],
      tnode ''n1'' ''Add'' [''var_b'', ''eps''] ''tmp'' [],
      tnode ''n2'' ''Sqrt'' [''tmp''] ''tmp_0'' [],
      tnode ''n3'' ''Div'' [''one'', ''tmp_0''] ''inv'' [],
      tnode ''n4'' ''Mul'' [''xc'', ''inv''] ''xhat'' [],
      tnode ''n5'' ''Mul'' [''g'', ''scale_b''] ''gs'' [],
      tnode ''n6'' ''Mul'' [''gs'', ''inv''] ''dx'' [],
      tnode ''n7'' ''Mul'' [''g'', ''xhat''] ''tmp_1'' [],
      tnode ''n8'' ''ReduceSum'' [''tmp_1'', ''channel_axes''] ''dscale'' [(''keepdims'', AInt 0)],
      tnode ''n9'' ''ReduceSum'' [''g'', ''channel_axes''] ''dbias'' [(''keepdims'', AInt 0)],
      tnode ''n10'' ''ReduceSum'' [''dx'', ''channel_axes''] ''tmp_2'' [(''keepdims'', AInt 0)],
      tnode ''n11'' ''Neg'' [''tmp_2''] ''dmean'' [],
      tnode ''n12'' ''Mul'' [''dx'', ''xhat''] ''tmp_3'' [],
      tnode ''n13'' ''Mul'' [''tmp_3'', ''inv''] ''tmp_4'' [],
      tnode ''n14'' ''ReduceSum'' [''tmp_4'', ''channel_axes''] ''tmp_5'' [(''keepdims'', AInt 0)],
      tnode ''n15'' ''Mul'' [''tmp_5'', ''neg_half''] ''dvar'' []]"

definition GRAD_NEG :: func where
  "GRAD_NEG = template ''GradNeg'' [''g''] [''dx'']
     [tnode ''n0'' ''Neg'' [''g''] ''dx'' []]"

definition GRAD_EXP :: func where
  "GRAD_EXP = template ''GradExp'' [''g'', ''y''] [''dx'']
     [tnode ''n0'' ''Mul'' [''g'', ''y''] ''dx'' []]"

definition GRAD_SQRT :: func where
  "GRAD_SQRT = template ''GradSqrt'' [''g'', ''y'', ''half''] [''dx'']
     [tnode ''n0'' ''Mul'' [''g'', ''half''] ''tmp'' [],
      tnode ''n1'' ''Div'' [''tmp'', ''y''] ''dx'' []]"

definition GRAD_LOG :: func where
  "GRAD_LOG = template ''GradLog'' [''g'', ''x''] [''dx'']
     [tnode ''n0'' ''Div'' [''g'', ''x''] ''dx'' []]"

definition GRAD_SIGMOID :: func where
  "GRAD_SIGMOID = template ''GradSigmoid'' [''g'', ''y'', ''one''] [''dx'']
     [tnode ''n0'' ''Sub'' [''one'', ''y''] ''tmp'' [],
      tnode ''n1'' ''Mul'' [''y'', ''tmp''] ''dy'' [],
      tnode ''n2'' ''Mul'' [''g'', ''dy''] ''dx'' []]"

definition GRAD_TANH :: func where
  "GRAD_TANH = template ''GradTanh'' [''g'', ''y'', ''one''] [''dx'']
     [tnode ''n0'' ''Mul'' [''y'', ''y''] ''tmp'' [],
      tnode ''n1'' ''Sub'' [''one'', ''tmp''] ''dy'' [],
      tnode ''n2'' ''Mul'' [''g'', ''dy''] ''dx'' []]"

definition GRAD_ERF :: func where
  "GRAD_ERF = template ''GradErf'' [''g'', ''x'', ''c''] [''dx'']
     [tnode ''n0'' ''Mul'' [''x'', ''x''] ''tmp'' [],
      tnode ''n1'' ''Neg'' [''tmp''] ''tmp_0'' [],
      tnode ''n2'' ''Exp'' [''tmp_0''] ''tmp_1'' [],
      tnode ''n3'' ''Mul'' [''c'', ''tmp_1''] ''dy'' [],
      tnode ''n4'' ''Mul'' [''g'', ''dy''] ''dx'' []]"

definition GRAD_MUL :: func where
  "GRAD_MUL = template ''GradMul'' [''g'', ''a'', ''b''] [''da'', ''db'']
     [tnode ''n0'' ''Mul'' [''g'', ''b''] ''da'' [],
      tnode ''n1'' ''Mul'' [''g'', ''a''] ''db'' []]"

definition GRAD_DIV :: func where
  "GRAD_DIV = template ''GradDiv'' [''g'', ''a'', ''b'', ''y''] [''da'', ''db'']
     [tnode ''n0'' ''Div'' [''g'', ''b''] ''da'' [],
      tnode ''n1'' ''Mul'' [''g'', ''y''] ''tmp'' [],
      tnode ''n2'' ''Div'' [''tmp'', ''b''] ''tmp_0'' [],
      tnode ''n3'' ''Neg'' [''tmp_0''] ''db'' []]"

definition TEMPLATES :: "func list" where
  "TEMPLATES = [GRAD_ADD, GRAD_BATCH_NORMALIZATION, GRAD_NEG, GRAD_EXP, GRAD_SQRT, GRAD_LOG,
     GRAD_SIGMOID, GRAD_TANH, GRAD_ERF, GRAD_MUL, GRAD_DIV]"

section \<open>Reading a template\<close>

lemma template_sel [simp]:
  "f_domain (template nm ins outs body) = ''onnxsim.grad''"
  "f_name (template nm ins outs body) = nm"
  "f_inputs (template nm ins outs body) = ins"
  "f_outputs (template nm ins outs body) = outs"
  "f_body (template nm ins outs body) = body"
  by (simp_all add: template_def)

lemma tnode_sel [simp]:
  "op_type (tnode nm ty ins out attrs) = ty"
  "domain (tnode nm ty ins out attrs) = ''''"
  "inputs (tnode nm ty ins out attrs) = ins"
  "outputs (tnode nm ty ins out attrs) = [out]"
  "attributes (tnode nm ty ins out attrs) = attrs"
  by (simp_all add: tnode_def)

lemmas templates = GRAD_ADD_def GRAD_BATCH_NORMALIZATION_def GRAD_NEG_def GRAD_EXP_def GRAD_SQRT_def
  GRAD_LOG_def GRAD_SIGMOID_def GRAD_TANH_def GRAD_ERF_def GRAD_MUL_def GRAD_DIV_def


text \<open>A template is determined by its name.\<close>

lemma TEMPLATES_names:
  "map f_name TEMPLATES = [''GradAdd'', ''GradBatchNormalization'', ''GradNeg'', ''GradExp'', ''GradSqrt'',
     ''GradLog'', ''GradSigmoid'', ''GradTanh'', ''GradErf'', ''GradMul'', ''GradDiv'']"
  by (simp add: TEMPLATES_def templates)

lemma TEMPLATES_by_name:
  assumes "f \<in> set TEMPLATES" "f' \<in> set TEMPLATES" "f_name f = f_name f'"
  shows "f = f'"
proof -
  have "distinct (map f_name TEMPLATES)" by (simp add: TEMPLATES_names)
  then have "inj_on f_name (set TEMPLATES)" by (simp add: distinct_map)
  with assms show ?thesis by (simp add: inj_on_def)
qed

end
