(* ===== verification/Emission.thy ===== *)
theory Emission
  imports Graph_Builder Grad_Templates
begin

text \<open>
  The emission contract: what every program that appends to a graph builder promises about the
  graph it leaves behind.  \<open>emit A K S m T\<close> says that, started on a well-formed builder in which
  the names \<open>S\<close> can be read, \<open>m\<close> keeps the builder well formed (fresh names, single assignment,
  every input defined before it is read), only ever appends, appends only operators of \<open>A\<close> or
  calls of registered functions whose bodies stay in \<open>A\<close>, and, when it returns, returns names
  (\<open>T\<close> of the result) that can be read afterwards.  The rules below are collected in
  \<open>emit_intros\<close>, so the contract of a gradient rule is proved by applying them.
\<close>

definition func_ok :: "string set \<Rightarrow> func \<Rightarrow> bool" where
  "func_ok A f \<longleftrightarrow>
     (\<forall>n \<in> set (f_body f). domain n = '''' \<and> op_type n \<in> A) \<and>
     distinct (f_inputs f) \<and> ssa (set (f_inputs f)) (f_body f) \<and>
     set (f_outputs f) \<subseteq> defs (f_body f) \<and>
     (f_domain f = ''onnxsim.grad'' \<longrightarrow> f \<in> set TEMPLATES)"

definition node_ok :: "string set \<Rightarrow> func set \<Rightarrow> node \<Rightarrow> bool" where
  "node_ok A F n \<longleftrightarrow>
     (domain n = '''' \<and> op_type n \<in> A) \<or> (\<exists>f \<in> F. domain n = f_domain f \<and> op_type n = f_name f)"

definition grows :: "string set \<Rightarrow> builder \<Rightarrow> builder \<Rightarrow> bool" where
  "grows A b b' \<longleftrightarrow>
     (\<exists>ns ts fs. b_nodes b' = b_nodes b @ ns \<and> b_initializer b' = b_initializer b @ ts \<and>
        b_functions b' = b_functions b @ fs \<and> b_prefix b' = b_prefix b \<and>
        b_counter b \<le> b_counter b' \<and>
        (\<forall>n \<in> set ns. node_ok A (set (b_functions b')) n) \<and> (\<forall>f \<in> set fs. func_ok A f))"

lemma node_ok_mono: "node_ok A F n \<Longrightarrow> F \<subseteq> G \<Longrightarrow> node_ok A G n"
  by (auto simp: node_ok_def)

lemma grows_refl [simp]: "grows A b b"
  by (simp add: grows_def)

lemma grows_trans:
  assumes "grows A b c" and "grows A c d"
  shows "grows A b d"
proof -
  obtain ns ts fs where 1: "b_nodes c = b_nodes b @ ns" "b_initializer c = b_initializer b @ ts"
      "b_functions c = b_functions b @ fs" "b_prefix c = b_prefix b" "b_counter b \<le> b_counter c"
      "\<forall>n \<in> set ns. node_ok A (set (b_functions c)) n" "\<forall>f \<in> set fs. func_ok A f"
    using assms(1) by (auto simp: grows_def)
  obtain ms js gs where 2: "b_nodes d = b_nodes c @ ms" "b_initializer d = b_initializer c @ js"
      "b_functions d = b_functions c @ gs" "b_prefix d = b_prefix c" "b_counter c \<le> b_counter d"
      "\<forall>n \<in> set ms. node_ok A (set (b_functions d)) n" "\<forall>f \<in> set gs. func_ok A f"
    using assms(2) by (auto simp: grows_def)
  have "\<forall>n \<in> set ns. node_ok A (set (b_functions d)) n"
    using 1(6) 2(3) node_ok_mono by fastforce
  with 1 2 show ?thesis
    unfolding grows_def by (intro exI [of _ "ns @ ms"] exI [of _ "ts @ js"] exI [of _ "fs @ gs"]) auto
qed

lemma grows_bound: "grows A b b' \<Longrightarrow> bound b \<subseteq> bound b'"
  by (auto simp: grows_def bound_def inits_def)

lemma grows_avail: "grows A b b' \<Longrightarrow> avail K b \<subseteq> avail K b'"
  using grows_bound by (fastforce simp: avail_def)

definition emit ::
  "string set \<Rightarrow> string set \<Rightarrow> string set \<Rightarrow> 'a bst \<Rightarrow> ('a \<Rightarrow> string set) \<Rightarrow> bool" where
  "emit A K S m T \<longleftrightarrow>
     (\<forall>b. builder_wf K b \<and> S \<subseteq> avail K b \<longrightarrow>
        (case m b of (r, b') \<Rightarrow>
           builder_wf K b' \<and> grows A b b' \<and> (\<forall>x. r = Inr x \<longrightarrow> T x \<subseteq> avail K b')))"

lemma emitI:
  "(\<And>b r b'. builder_wf K b \<Longrightarrow> S \<subseteq> avail K b \<Longrightarrow> m b = (r, b') \<Longrightarrow>
      builder_wf K b' \<and> grows A b b' \<and> (\<forall>x. r = Inr x \<longrightarrow> T x \<subseteq> avail K b')) \<Longrightarrow> emit A K S m T"
  unfolding emit_def by (simp split: prod.splits) blast

lemma emitD:
  assumes "emit A K S m T" and "builder_wf K b" and "S \<subseteq> avail K b" and "m b = (r, b')"
  shows "builder_wf K b'" and "grows A b b'" and "r = Inr x \<Longrightarrow> T x \<subseteq> avail K b'"
  using assms unfolding emit_def by (force split: prod.splits)+

subsection \<open>Structural rules\<close>

lemma emit_ret [emit_intros]: "T x \<subseteq> S \<Longrightarrow> emit A K S (ret x) T"
  by (rule emitI) (auto simp: ret_run)

lemma emit_lift [emit_intros]: "(\<And>x. r = Inr x \<Longrightarrow> T x \<subseteq> S) \<Longrightarrow> emit A K S (lift r) T"
  by (rule emitI) (auto simp: lift_run)

lemma emit_bnd:
  assumes m: "emit A K S m T" and f: "\<And>x. emit A K (S \<union> T x) (f x) U"
  shows "emit A K S (bnd m f) U"
proof (rule emitI)
  fix b r b'
  assume wf: "builder_wf K b" and S: "S \<subseteq> avail K b" and run: "bnd m f b = (r, b')"
  obtain r1 b1 where m1: "m b = (r1, b1)" by (cases "m b")
  note s1 = emitD [OF m wf S m1]
  show "builder_wf K b' \<and> grows A b b' \<and> (\<forall>x. r = Inr x \<longrightarrow> U x \<subseteq> avail K b')"
  proof (cases r1)
    case (Inl e)
    with run m1 s1 show ?thesis by (auto simp: bnd_def)
  next
    case (Inr x)
    with run m1 have fx: "f x b1 = (r, b')" by (simp add: bnd_def)
    have "S \<union> T x \<subseteq> avail K b1"
      using S s1(3) [OF Inr] grows_avail [OF s1(2)] by blast
    from emitD [OF f s1(1) this fx] s1(2) show ?thesis
      by (blast intro: grows_trans)
  qed
qed

text \<open>Sequencing after a program that returns one tensor name.\<close>

lemmas emit_bnd_name = emit_bnd [where T = "\<lambda>x :: string. {x}"]

lemma emit_weaken: "emit A K S m T \<Longrightarrow> S \<subseteq> S' \<Longrightarrow> (\<And>x. U x \<subseteq> T x) \<Longrightarrow> emit A K S' m U"
  unfolding emit_def by (fastforce split: prod.splits)

text \<open>A program that only computes (shape lookups, geometry checks) emits nothing.\<close>

lemma emit_lift_bnd [emit_intros]:
  "(\<And>x. r = Inr x \<Longrightarrow> emit A K S (f x) U) \<Longrightarrow> emit A K S (bnd (lift r) f) U"
  by (cases r) (auto intro: emit_lift)

lemma emit_if [emit_intros]:
  "(c \<Longrightarrow> emit A K S m T) \<Longrightarrow> (\<not> c \<Longrightarrow> emit A K S m' T) \<Longrightarrow> emit A K S (if c then m else m') T"
  by simp

lemma emit_option [emit_intros]:
  "(x = None \<Longrightarrow> emit A K S m T) \<Longrightarrow> (\<And>y. x = Some y \<Longrightarrow> emit A K S (f y) T) \<Longrightarrow>
     emit A K S (case x of None \<Rightarrow> m | Some y \<Rightarrow> f y) T"
  by (cases x) auto

lemma emit_prod [emit_intros]:
  "(\<And>y z. x = (y, z) \<Longrightarrow> emit A K S (f y z) T) \<Longrightarrow> emit A K S (case x of (y, z) \<Rightarrow> f y z) T"
  by (cases x) auto

lemma emit_list [emit_intros]:
  "(xs = [] \<Longrightarrow> emit A K S m T) \<Longrightarrow> (\<And>y ys. xs = y # ys \<Longrightarrow> emit A K S (f y ys) T) \<Longrightarrow>
     emit A K S (case xs of [] \<Rightarrow> m | y # ys \<Rightarrow> f y ys) T"
  by (cases xs) auto

lemma emit_Let [emit_intros]: "emit A K S (f v) T \<Longrightarrow> emit A K S (let x = v in f x) T"
  by simp

lemma emit_mapM:
  assumes "\<And>x. x \<in> set xs \<Longrightarrow> emit A K S (f x) T"
  shows "emit A K S (mapM f xs) (\<lambda>ys. \<Union>y \<in> set ys. T y)"
  using assms
proof (induction xs)
  case Nil
  then show ?case by (auto intro: emit_ret)
next
  case (Cons x xs)
  have "emit A K (S \<union> T y) (mapM f xs) (\<lambda>ys. \<Union>y \<in> set ys. T y)" for y
    using Cons by (auto intro: emit_weaken [of A K S])
  with Cons.prems show ?case
    by (auto intro!: emit_bnd emit_ret)
qed

text \<open>A loop whose accumulator holds names: the invariant is that they can be read.\<close>

lemma emit_foldM:
  assumes "\<And>acc x. x \<in> set xs \<Longrightarrow> emit A K (S \<union> T acc) (f acc x) T" and "T acc \<subseteq> S"
  shows "emit A K S (foldM f acc xs) T"
proof -
  have "emit A K (S \<union> T acc) (foldM f acc xs) T"
    using assms(1)
  proof (induction xs arbitrary: acc)
    case Nil
    then show ?case by (auto intro: emit_ret)
  next
    case (Cons x xs)
    have "emit A K (S \<union> T acc \<union> T acc') (foldM f acc' xs) T" for acc'
      using Cons by (intro emit_weaken [OF Cons.IH]) auto
    with Cons.prems show ?case by (auto intro: emit_bnd)
  qed
  then show ?thesis using assms(2) by (simp add: Un_absorb2)
qed

subsection \<open>The primitive operations\<close>

lemma b_name_run:
  "b_name h b = (Inr (minted (b_prefix b) h (Suc (b_counter b))), b\<lparr>b_counter := Suc (b_counter b)\<rparr>)"
  by (simp add: b_name_def Let_def)

lemma unminted_mono: "unminted X b \<Longrightarrow> b_prefix b' = b_prefix b \<Longrightarrow> b_counter b \<le> b_counter b' \<Longrightarrow> unminted X b'"
  by (auto simp: unminted_def)

lemma fresh_minted:
  assumes "unminted X b" shows "minted (b_prefix b) h (Suc (b_counter b)) \<notin> X"
  using assms by (auto simp: unminted_def)

lemma builder_wf_add_initializer:
  assumes wf: "builder_wf K b" and t: "t_name t \<notin> avail K b" "t_name t \<noteq> ''''"
    and b1: "b_nodes b1 = b_nodes b" "b_initializer b1 = b_initializer b" "b_prefix b1 = b_prefix b"
      "b_counter b \<le> b_counter b1" "b_shared b1 = b_shared b" "unminted {t_name t} b1"
      "b_functions b1 = b_functions b" "b_function_ids b1 = b_function_ids b"
  shows "builder_wf K (b1\<lparr>b_initializer := b_initializer b1 @ [t]\<rparr>)" (is "builder_wf K ?b'")
proof -
  have same: "inits b1 = inits b" "avail K b1 = avail K b"
    by (simp_all add: inits_def avail_def bound_def b1)
  have "unminted (avail K b) b1"
    using wf b1 by (auto simp: builder_wf_def intro: unminted_mono)
  with b1(6) same have "unminted (avail K ?b') b1"
    by (simp add: unminted_def)
  then have "unminted (avail K ?b') ?b'"
    by (rule unminted_mono) simp_all
  moreover have "ssa (K \<union> inits ?b') (b_nodes ?b')"
    using wf t ssa_widen [of "K \<union> inits b" "b_nodes b" "{t_name t}"]
    by (simp add: builder_wf_def inits_def avail_def bound_def b1)
  moreover have "'''' \<notin> bound ?b'"
    using wf t(2) by (auto simp: builder_wf_def inits_def bound_def b1)
  ultimately show ?thesis
    using wf t by (auto simp: builder_wf_def inits_def avail_def bound_def b1)
qed

lemma emit_const [emit_intros]: "emit A K S (b_const E v h) (\<lambda>x. {x})"
proof (rule emitI)
  fix b r b'
  assume wf: "builder_wf K b" and run: "b_const E v h b = (r, b')"
  define x where "x = minted (b_prefix b) h (Suc (b_counter b))"
  define t where "t = \<lparr>t_name = x, t_dims = fst (to_f32 E v), t_data = TFloat (snd (to_f32 E v))\<rparr>"
  let ?b1 = "b\<lparr>b_counter := Suc (b_counter b)\<rparr>"
  from run have r: "r = Inr x" and b': "b' = ?b1\<lparr>b_initializer := b_initializer ?b1 @ [t]\<rparr>"
    by (auto simp: b_const_def f32_const_def bnd_def b_name_run add_initializer_def x_def t_def Let_def ret_run)
  have "x \<notin> avail K b"
    using wf fresh_minted by (auto simp: builder_wf_def x_def)
  moreover have "unminted {x} ?b1" "x \<noteq> ''''"
    using unminted_insert_minted [of "Suc (b_counter b)" ?b1 h] by (simp_all add: x_def minted_nonempty)
  ultimately have "builder_wf K b'"
    unfolding b' by (intro builder_wf_add_initializer [OF wf]) (auto simp: t_def)
  moreover have "x \<in> avail K b'"
    by (auto simp: b' avail_def bound_def inits_def t_def)
  ultimately show "builder_wf K b' \<and> grows A b b' \<and> (\<forall>y. r = Inr y \<longrightarrow> {y} \<subseteq> avail K b')"
    using r by (auto simp: grows_def b')
qed

lemma builder_wf_add_node:
  assumes wf: "builder_wf K b" and reads: "reads n \<subseteq> avail K b"
    and outs: "distinct (outputs n)" "set (outputs n) \<inter> avail K b = {}" "'''' \<notin> set (outputs n)"
    and b1: "b_nodes b1 = b_nodes b" "b_initializer b1 = b_initializer b" "b_prefix b1 = b_prefix b"
      "b_counter b \<le> b_counter b1" "b_shared b1 = b_shared b" "unminted (set (outputs n)) b1"
      "b_function_ids b1 = (\<lambda>f. (f_domain f, f_name f)) ` set (b_functions b1)"
  shows "builder_wf K (b1\<lparr>b_nodes := b_nodes b1 @ [n]\<rparr>)"
proof -
  have "unminted (avail K b) b1"
    using wf b1 by (auto simp: builder_wf_def intro: unminted_mono)
  moreover have "avail K (b1\<lparr>b_nodes := b_nodes b1 @ [n]\<rparr>) = avail K b \<union> set (outputs n)"
    by (auto simp: avail_def bound_def inits_def b1)
  ultimately have "unminted (avail K (b1\<lparr>b_nodes := b_nodes b1 @ [n]\<rparr>)) (b1\<lparr>b_nodes := b_nodes b1 @ [n]\<rparr>)"
    using b1(6) by (simp add: unminted_def)
  moreover have "'''' \<notin> bound (b1\<lparr>b_nodes := b_nodes b1 @ [n]\<rparr>)"
    using wf outs(3) by (auto simp: builder_wf_def inits_def bound_def b1)
  ultimately show ?thesis
    using wf reads outs b1 by (simp add: builder_wf_def inits_def ssa_snoc avail_def bound_def Un_assoc)
qed

lemma emit_op_in [emit_intros]:
  assumes "set ins - {''''} \<subseteq> S" and "ty \<in> A" and "dmn = ''''"
  shows "emit A K S (b_op_in ty ins h dmn attrs) (\<lambda>x. {x})"
proof (rule emitI)
  fix b r b'
  assume wf: "builder_wf K b" and S: "S \<subseteq> avail K b" and run: "b_op_in ty ins h dmn attrs b = (r, b')"
  define h' where "h' = (if h = '''' then lower ty else h)"
  define x where "x = minted (b_prefix b) h' (Suc (b_counter b))"
  define n where "n = make_node ty ins [x] dmn attrs"
  let ?b1 = "b\<lparr>b_counter := Suc (b_counter b)\<rparr>"
  have r: "r = Inr x" and b': "b' = ?b1\<lparr>b_nodes := b_nodes ?b1 @ [n]\<rparr>"
    using run by (auto simp: b_op_in_def bnd_def b_name_run add_node_def x_def n_def h'_def ret_run)
  have "x \<notin> avail K b"
    using wf fresh_minted by (auto simp: builder_wf_def x_def)
  moreover have "unminted {x} ?b1" "x \<noteq> ''''"
    using unminted_insert_minted [of "Suc (b_counter b)" ?b1 h'] by (simp_all add: x_def minted_nonempty)
  moreover have "reads n \<subseteq> avail K b"
    using assms(1) S by (auto simp: n_def reads_def)
  ultimately have "builder_wf K b'"
    unfolding b' using wf by (intro builder_wf_add_node) (auto simp: n_def builder_wf_def)
  moreover have "grows A b b'"
    using assms(2,3) by (auto simp: grows_def b' node_ok_def n_def)
  moreover have "x \<in> avail K b'"
    by (simp add: b' avail_def bound_def n_def)
  ultimately show "builder_wf K b' \<and> grows A b b' \<and> (\<forall>y. r = Inr y \<longrightarrow> {y} \<subseteq> avail K b')"
    using r by simp
qed

subsection \<open>Calls of model-local functions\<close>

lemma mapM_b_name_run:
  assumes "mapM (\<lambda>_. b_name h) xs b = (r, b')"
  shows "\<exists>outs. r = Inr outs \<and> length outs = length xs \<and>
      b' = b\<lparr>b_counter := b_counter b + length xs\<rparr> \<and>
      outs = map (minted (b_prefix b) h) [Suc (b_counter b)..<Suc (b_counter b + length xs)]"
  using assms
proof (induction xs arbitrary: b r b')
  case Nil
  then show ?case by (simp add: ret_run)
next
  case (Cons x xs)
  let ?b1 = "b\<lparr>b_counter := Suc (b_counter b)\<rparr>"
  obtain r2 b2 where r2: "mapM (\<lambda>_. b_name h) xs ?b1 = (r2, b2)" by fastforce
  from Cons.IH [OF r2] Cons.prems r2 show ?case
    by (auto simp: bnd_def b_name_run [of h b] ret_run upt_conv_Cons simp del: upt_Suc)
qed

lemma register_function_run:
  assumes "builder_wf K b" and "register_function fn b = (r, b1)" and "func_ok A fn"
  shows "r = Inr ()" and "builder_wf K b1" and "grows A b b1" and "avail K b1 = avail K b"
    and "\<exists>f \<in> set (b_functions b1). f_domain f = f_domain fn \<and> f_name f = f_name fn"
    and "b_nodes b1 = b_nodes b" and "b_counter b1 = b_counter b" and "b_prefix b1 = b_prefix b"
proof -
  let ?fid = "(f_domain fn, f_name fn)"
  have ids: "b_function_ids b = (\<lambda>f. (f_domain f, f_name f)) ` set (b_functions b)"
    using assms(1) by (simp add: builder_wf_def)
  have run: "r = Inr () \<and> b1 = (if ?fid \<in> b_function_ids b then b
      else b\<lparr>b_function_ids := insert ?fid (b_function_ids b), b_functions := b_functions b @ [fn]\<rparr>)"
    using assms(2) by (simp add: register_function_def Let_def split: if_splits)
  from run ids show "r = Inr ()" "b_nodes b1 = b_nodes b" "b_counter b1 = b_counter b"
    "b_prefix b1 = b_prefix b" "avail K b1 = avail K b"
    "\<exists>f \<in> set (b_functions b1). f_domain f = f_domain fn \<and> f_name f = f_name fn"
    by (auto simp: image_iff)
  show "builder_wf K b1"
    using assms(1) run by (simp add: builder_wf_def unminted_def)
  show "grows A b b1"
    using run assms(3) by (simp add: grows_def)
qed

lemma emit_call [emit_intros]:
  assumes "set ins - {''''} \<subseteq> S" and fn: "func_ok A fn"
  shows "emit A K S (b_call fn ins) set"
proof (rule emitI)
  fix b r b'
  assume wf: "builder_wf K b" and S: "S \<subseteq> avail K b" and run: "b_call fn ins b = (r, b')"
  obtain r1 b1 where 1: "register_function fn b = (r1, b1)" by fastforce
  note R = register_function_run [OF wf 1 fn]
  obtain r2 b2 where 2: "mapM (\<lambda>_. b_name (lower (f_name fn))) (f_outputs fn) b1 = (r2, b2)" by fastforce
  from mapM_b_name_run [OF 2] obtain outs where outs: "r2 = Inr outs"
      "b2 = b1\<lparr>b_counter := b_counter b1 + length (f_outputs fn)\<rparr>"
      "outs = map (minted (b_prefix b1) (lower (f_name fn)))
                [Suc (b_counter b1)..<Suc (b_counter b1 + length (f_outputs fn))]"
    by blast
  define n where "n = make_node (f_name fn) ins outs (f_domain fn) []"
  have r: "r = Inr outs" and b': "b' = b2\<lparr>b_nodes := b_nodes b2 @ [n]\<rparr>"
    using run 1 2 R(1) outs(1) by (auto simp: b_call_def bnd_def add_node_def n_def ret_run)
  have "distinct outs"
    unfolding outs(3) by (auto simp: distinct_map inj_on_def dest: minted_counter_inj)
  moreover have "minted (b_prefix b1) h k \<notin> avail K b1" if "b_counter b1 < k" for h k
    using R(2) that by (simp add: builder_wf_def unminted_def)
  then have "\<forall>x \<in> set outs. x \<notin> avail K b1"
    unfolding outs(3) by (simp del: upt_Suc)
  then have "set outs \<inter> avail K b1 = {}"
    by blast
  moreover have "'''' \<notin> set outs"
    unfolding outs(3) by (auto simp: minted_nonempty [symmetric])
  moreover have "unminted (set outs) b2"
    unfolding outs(2,3) by (auto simp: unminted_def dest: minted_counter_inj)
  moreover have "reads n \<subseteq> avail K b1"
    using assms(1) S R(4) by (auto simp: n_def reads_def)
  ultimately have "builder_wf K b'"
    unfolding b' using R(2) by (intro builder_wf_add_node [of K b1]) (auto simp: n_def outs(2) builder_wf_def)
  moreover have "grows A b1 b'"
    using R(5) unfolding grows_def b' node_ok_def n_def outs(2) by simp metis
  moreover have "set outs \<subseteq> avail K b'"
    by (auto simp: b' avail_def bound_def n_def)
  ultimately show "builder_wf K b' \<and> grows A b b' \<and> (\<forall>y. r = Inr y \<longrightarrow> set y \<subseteq> avail K b')"
    using R(3) r by (auto intro: grows_trans)
qed

end
