(* ===== verification/Backward_Context.thy ===== *)
theory Backward_Context
  imports Emission
begin

text \<open>
  \<open>onnxsim/graph_grad.py\<close>, class \<open>_Backward\<close>: the build-time context every gradient rule reads
  (static shapes, the forward constants) and the helpers that append to the builder on a rule's
  behalf, above all \<open>reduce_to\<close>, which undoes a numpy-style broadcast.
\<close>

section \<open>The context\<close>

record ctx =
  c_ext :: ext
  c_shapes :: "string \<rightharpoonup> shape"
  c_inits :: "string \<rightharpoonup> tensor"

text \<open>The first initializer of a name wins, as \<open>setdefault\<close> does.\<close>

definition new_ctx :: "ext \<Rightarrow> builder \<Rightarrow> (string \<rightharpoonup> shape) \<Rightarrow> ctx" where
  "new_ctx E b shapes =
     \<lparr>c_ext = E, c_shapes = shapes,
      c_inits = map_of (map (\<lambda>t. (t_name t, t)) (b_initializer b))\<rparr>"

text \<open>
  The shape of a tensor of the slice.  The source caches the normalised tuple; the shape table
  is never written during a pass, so the cache only ever returns what a fresh lookup would.
\<close>

definition ctx_shape :: "ctx \<Rightarrow> string \<Rightarrow> shape res" where
  "ctx_shape c name = (case c_shapes c name of None \<Rightarrow> Inl ValueError | Some s \<Rightarrow> Inr s)"

definition in_int64 :: "int \<Rightarrow> bool" where
  "in_int64 n \<longleftrightarrow> - (2 ^ 63) \<le> n \<and> n < 2 ^ 63"

text \<open>\<open>np.asarray(values, dtype=np.int64)\<close>\<close>

definition as_int64 :: "dim list \<Rightarrow> int list res" where
  "as_int64 values =
     bindE (mapE dim_int values) (\<lambda>ns.
     bindE (refuse_if (\<exists>n \<in> set ns. \<not> in_int64 n) OverflowError) (\<lambda>_. Inr ns))"

definition int64_const :: "dim list \<Rightarrow> string \<Rightarrow> string bst" where
  "int64_const values hint =
     bnd (lift (as_int64 values)) (\<lambda>arr.
     bnd (b_name hint) (\<lambda>name.
     bnd (add_initializer \<lparr>t_name = name, t_dims = [int (length arr)], t_data = TInt True arr\<rparr>) (\<lambda>_.
     ret name)))"

abbreviation ints :: "int list \<Rightarrow> dim list" where
  "ints ns \<equiv> map DInt ns"

abbreviation nats :: "nat list \<Rightarrow> dim list" where
  "nats ns \<equiv> map (\<lambda>n. DInt (int n)) ns"

text \<open>\<open>_prod\<close>: the number of elements of a shape.\<close>

fun prod_dims :: "shape \<Rightarrow> int res" where
  "prod_dims [] = Inr 1"
| "prod_dims (d # ds) = bindE (dim_int d) (\<lambda>n. bindE (prod_dims ds) (\<lambda>p. Inr (n * p)))"

lemma prod_dims_ints [simp]: "prod_dims (ints ns) = Inr (prod_list ns)"
  by (induction ns) simp_all

section \<open>reduce_to\<close>

text \<open>
  The loop over \<open>enumerate(target_shape)\<close>: the axes (counted in the gradient) the operand has
  as size one and the gradient does not.
\<close>

fun stretched_axes :: "nat \<Rightarrow> shape \<Rightarrow> shape \<Rightarrow> nat list res" where
  "stretched_axes k [] gs = Inr []"
| "stretched_axes k (d # ds) [] = Inl IndexError"
| "stretched_axes k (d # ds) (g # gs) =
     (if d = g then stretched_axes (Suc k) ds gs
      else if d = DInt 1 then bindE (stretched_axes (Suc k) ds gs) (\<lambda>axes. Inr (k # axes))
      else Inl ValueError)"

definition summed_shape :: "nat list \<Rightarrow> shape \<Rightarrow> shape" where
  "summed_shape axes gs =
     map (\<lambda>i. if i \<in> set axes then DInt 1 else gs ! i) [0..<length gs]"

definition reduce_to :: "string \<Rightarrow> shape \<Rightarrow> shape \<Rightarrow> string bst" where
  "reduce_to grad grad_shape target_shape =
     (if grad_shape = target_shape then ret grad
      else if length grad_shape < length target_shape then raise ValueError
      else let offset = length grad_shape - length target_shape
      in bnd (lift (stretched_axes offset target_shape (drop offset grad_shape))) (\<lambda>inner.
         let axes = [0..<offset] @ inner
         in bnd (if axes \<noteq> []
                 then bnd (int64_const (nats axes) ''axes'') (\<lambda>ax.
                      b_op_in ''ReduceSum'' [grad, ax] ''unbcast'' '''' [(''keepdims'', AInt 1)])
                 else ret grad) (\<lambda>out.
            if summed_shape axes grad_shape \<noteq> target_shape
            then bnd (int64_const target_shape ''shape'') (\<lambda>sh.
                 b_op_in ''Reshape'' [out, sh] ''unbcast'' '''' [])
            else ret out)))"

definition transpose_last_two :: "string \<Rightarrow> shape \<Rightarrow> string bst" where
  "transpose_last_two name shape =
     (let rank = int (length shape)
      in b_transpose name (range_int 0 (rank - 2) @ [rank - 1, rank - 2]))"

definition mask_greater :: "string \<Rightarrow> string \<Rightarrow> string bst" where
  "mask_greater x limit =
     bnd (b_op ''Greater'' [x, limit] []) (\<lambda>gt. b_cast gt TP_FLOAT)"

definition mask_less :: "string \<Rightarrow> string \<Rightarrow> string bst" where
  "mask_less x limit =
     bnd (b_op ''Less'' [x, limit] []) (\<lambda>lt. b_cast lt TP_FLOAT)"

section \<open>The operators a backward pass may emit\<close>

definition BACKWARD_OPS :: "string set" where
  "BACKWARD_OPS =
     {''Add'', ''Cast'', ''Div'', ''Exp'', ''Gather'', ''Greater'', ''Identity'', ''Less'',
      ''MatMul'', ''Mul'', ''Neg'', ''ReduceMean'', ''ReduceSum'', ''Reshape'', ''Sqrt'',
      ''Sub'', ''Transpose''}"

text \<open>Every gradient rule is held to the emission contract over this set.\<close>

abbreviation emits :: "string set \<Rightarrow> string set \<Rightarrow> 'a bst \<Rightarrow> ('a \<Rightarrow> string set) \<Rightarrow> bool" where
  "emits \<equiv> emit BACKWARD_OPS"

lemma emit_int64 [emit_intros]: "emit A K S (int64_const v h) (\<lambda>x. {x})"
proof (rule emitI)
  fix b r b'
  assume wf: "builder_wf K b" and run: "int64_const v h b = (r, b')"
  show "builder_wf K b' \<and> grows A b b' \<and> (\<forall>y. r = Inr y \<longrightarrow> {y} \<subseteq> avail K b')"
  proof (cases "as_int64 v")
    case (Inl e)
    with run wf show ?thesis by (auto simp: int64_const_def lift_run)
  next
    case (Inr arr)
    define x where "x = minted (b_prefix b) h (Suc (b_counter b))"
    define t where "t = \<lparr>t_name = x, t_dims = [int (length arr)], t_data = TInt True arr\<rparr>"
    let ?b1 = "b\<lparr>b_counter := Suc (b_counter b)\<rparr>"
    from run Inr have r: "r = Inr x" and b': "b' = ?b1\<lparr>b_initializer := b_initializer ?b1 @ [t]\<rparr>"
      by (auto simp: int64_const_def bnd_def b_name_run add_initializer_def x_def t_def ret_run)
    have "x \<notin> avail K b"
      using wf fresh_minted by (auto simp: builder_wf_def x_def)
    moreover have "unminted {x} ?b1" "x \<noteq> ''''"
      using unminted_insert_minted [of "Suc (b_counter b)" ?b1 h] by (simp_all add: x_def minted_nonempty)
    ultimately have "builder_wf K b'"
      unfolding b' by (intro builder_wf_add_initializer [OF wf]) (auto simp: t_def)
    moreover have "x \<in> avail K b'"
      by (auto simp: b' avail_def bound_def inits_def t_def)
    ultimately show ?thesis
      using r by (auto simp: grows_def b')
  qed
qed

lemma BACKWARD_OPS_members [simp]:
  "''Add'' \<in> BACKWARD_OPS" "''Cast'' \<in> BACKWARD_OPS" "''Div'' \<in> BACKWARD_OPS"
  "''Exp'' \<in> BACKWARD_OPS" "''Gather'' \<in> BACKWARD_OPS" "''Greater'' \<in> BACKWARD_OPS"
  "''Identity'' \<in> BACKWARD_OPS" "''Less'' \<in> BACKWARD_OPS" "''MatMul'' \<in> BACKWARD_OPS"
  "''Mul'' \<in> BACKWARD_OPS" "''Neg'' \<in> BACKWARD_OPS" "''ReduceMean'' \<in> BACKWARD_OPS"
  "''ReduceSum'' \<in> BACKWARD_OPS" "''Reshape'' \<in> BACKWARD_OPS" "''Sqrt'' \<in> BACKWARD_OPS"
  "''Sub'' \<in> BACKWARD_OPS" "''Transpose'' \<in> BACKWARD_OPS"
  by (simp_all add: BACKWARD_OPS_def)

subsection \<open>Contracts of the builder's methods\<close>

text \<open>
  The contract of a composed program: sequencing with the pure steps first, so that a failed
  shape lookup or geometry check is never taken for an emission.
\<close>

lemma emit_binary [emit_intros]:
  "{x, y} - {''''} \<subseteq> S \<Longrightarrow> ''Add'' \<in> A \<Longrightarrow> emit A K S (b_add x y) (\<lambda>z. {z})"
  "{x, y} - {''''} \<subseteq> S \<Longrightarrow> ''Sub'' \<in> A \<Longrightarrow> emit A K S (b_sub x y) (\<lambda>z. {z})"
  "{x, y} - {''''} \<subseteq> S \<Longrightarrow> ''Mul'' \<in> A \<Longrightarrow> emit A K S (b_mul x y) (\<lambda>z. {z})"
  "{x, y} - {''''} \<subseteq> S \<Longrightarrow> ''Div'' \<in> A \<Longrightarrow> emit A K S (b_div x y) (\<lambda>z. {z})"
  "{x, y} - {''''} \<subseteq> S \<Longrightarrow> ''MatMul'' \<in> A \<Longrightarrow> emit A K S (b_matmul x y) (\<lambda>z. {z})"
  unfolding b_add_def b_sub_def b_mul_def b_div_def b_matmul_def
  by (rule emit_op_in; simp)+

lemma emit_unary [emit_intros]:
  "{x} - {''''} \<subseteq> S \<Longrightarrow> ''Transpose'' \<in> A \<Longrightarrow> emit A K S (b_transpose x perm) (\<lambda>z. {z})"
  "{x} - {''''} \<subseteq> S \<Longrightarrow> ''Cast'' \<in> A \<Longrightarrow> emit A K S (b_cast x ty) (\<lambda>z. {z})"
  "{x} - {''''} \<subseteq> S \<Longrightarrow> ''Sqrt'' \<in> A \<Longrightarrow> emit A K S (b_sqrt x) (\<lambda>z. {z})"
  unfolding b_transpose_def b_cast_def b_sqrt_def
  by (rule emit_op_in; simp)+

lemma emit_greater_mask [emit_intros]:
  "{x} - {''''} \<subseteq> S \<Longrightarrow> emits K S (b_greater_mask E x t) (\<lambda>z. {z})"
  unfolding b_greater_mask_def
  by (rule emit_lift_bnd emit_bnd emit_intros | (auto; fail)[1])+

lemma emit_mask_greater [emit_intros]:
  "{x, y} - {''''} \<subseteq> S \<Longrightarrow> emits K S (mask_greater x y) (\<lambda>z. {z})"
  unfolding mask_greater_def
  by (rule emit_lift_bnd emit_bnd emit_intros | (auto; fail)[1])+

lemma emit_mask_less [emit_intros]:
  "{x, y} - {''''} \<subseteq> S \<Longrightarrow> emits K S (mask_less x y) (\<lambda>z. {z})"
  unfolding mask_less_def
  by (rule emit_lift_bnd emit_bnd emit_intros | (auto; fail)[1])+

lemma emit_transpose_last_two [emit_intros]:
  "{x} - {''''} \<subseteq> S \<Longrightarrow> emits K S (transpose_last_two x sh) (\<lambda>z. {z})"
  unfolding transpose_last_two_def Let_def
  by (rule emit_unary) auto

lemma emit_reduce_to [emit_intros]:
  assumes "x \<in> S"
  shows "emits K S (reduce_to x gs ts) (\<lambda>z. {z})"
  unfolding reduce_to_def Let_def using assms
  by - (rule emit_lift_bnd emit_bnd emit_intros | (auto; fail)[1])+

end
