(* ===== verification/Rules_Pointwise.thy ===== *)
theory Rules_Pointwise
  imports Backward_Context
begin

text \<open>
  The elementwise gradient rules of \<open>onnxsim/graph_grad.py\<close>: the hand-written reference rules,
  the checked-in function templates of \<open>onnxsim/graph_grad_templates_gen.py\<close>, the templated rules
  that call them, and the activations with an attribute or a mask.  Every rule is proved to meet
  the emission contract.
\<close>

section \<open>Rules\<close>

text \<open>
  A rule takes the context, the forward node and the gradient of its output, and returns one
  optional gradient per node input.
\<close>

type_synonym rule = "ctx \<Rightarrow> node \<Rightarrow> string \<Rightarrow> string option list bst"
type_synonym multi_rule = "ctx \<Rightarrow> node \<Rightarrow> string option list \<Rightarrow> string option list bst"

text \<open>The names among a rule's results.\<close>

definition somes :: "'a option list \<Rightarrow> 'a set" where
  "somes xs = {x. Some x \<in> set xs}"

lemma somes_simps [simp]:
  "somes [] = {}"
  "somes (Some x # xs) = insert x (somes xs)"
  "somes (None # xs) = somes xs"
  "somes (xs @ ys) = somes xs \<union> somes ys"
  "somes (replicate n None) = {}"
  "somes (map Some zs) = set zs"
  by (auto simp: somes_def)

text \<open>What a rule may read: real inputs and outputs of the forward node, and the gradient.\<close>

definition rule_reads :: "node \<Rightarrow> string set \<Rightarrow> string set" where
  "rule_reads nd gs = (set (inputs nd) \<union> set (outputs nd) \<union> gs) - {''''}"

lemma rule_reads_intros [intro]:
  "item_at (inputs nd) i = Inr x \<Longrightarrow> x \<noteq> '''' \<Longrightarrow> x \<in> rule_reads nd gs"
  "item_at (outputs nd) i = Inr x \<Longrightarrow> x \<noteq> '''' \<Longrightarrow> x \<in> rule_reads nd gs"
  "x \<in> set (inputs nd) \<Longrightarrow> x \<noteq> '''' \<Longrightarrow> x \<in> rule_reads nd gs"
  "g \<noteq> '''' \<Longrightarrow> g \<in> gs \<Longrightarrow> g \<in> rule_reads nd gs"
  by (auto simp: rule_reads_def item_at_def split: if_splits)

text \<open>
  The contract of a rule: started with the node's tensors and the incoming gradient readable, it
  meets the emission contract over the backward operator set and returns readable names.
\<close>

definition rule_contract :: "rule \<Rightarrow> bool" where
  "rule_contract rl \<longleftrightarrow>
     (\<forall>C nd g K. g \<noteq> '''' \<longrightarrow> emits K (rule_reads nd {g}) (rl C nd g) somes)"

lemma rule_contractI:
  "(\<And>C nd g K. g \<noteq> '''' \<Longrightarrow> emits K (rule_reads nd {g}) (rl C nd g) somes) \<Longrightarrow> rule_contract rl"
  by (simp add: rule_contract_def)

lemma rule_contractD:
  "rule_contract rl \<Longrightarrow> g \<noteq> '''' \<Longrightarrow> emits K (rule_reads nd {g}) (rl C nd g) somes"
  by (simp add: rule_contract_def)

text \<open>Sequence unpacking, \<open>a, b = xs\<close>.\<close>

fun unpack1 :: "'a list \<Rightarrow> 'a res" where
  "unpack1 [a] = Inr a"
| "unpack1 _ = Inl ValueError"

fun unpack2 :: "'a list \<Rightarrow> ('a \<times> 'a) res" where
  "unpack2 [a, b] = Inr (a, b)"
| "unpack2 _ = Inl ValueError"

fun unpack3 :: "'a list \<Rightarrow> ('a \<times> 'a \<times> 'a) res" where
  "unpack3 [a, b, c] = Inr (a, b, c)"
| "unpack3 _ = Inl ValueError"

fun unpack5 :: "'a list \<Rightarrow> ('a \<times> 'a \<times> 'a \<times> 'a \<times> 'a) res" where
  "unpack5 [a, b, c, d, e] = Inr (a, b, c, d, e)"
| "unpack5 _ = Inl ValueError"

lemma unpack_Inr_iff [simp, res_iff]:
  "unpack1 xs = Inr x \<longleftrightarrow> xs = [x]"
  "unpack2 xs = Inr y \<longleftrightarrow> xs = [fst y, snd y]"
  "unpack3 xs = Inr z \<longleftrightarrow> xs = [fst z, fst (snd z), snd (snd z)]"
  "unpack5 xs = Inr w \<longleftrightarrow>
     xs = [fst w, fst (snd w), fst (snd (snd w)), fst (snd (snd (snd w))), snd (snd (snd (snd w)))]"
proof -
  show "unpack1 xs = Inr x \<longleftrightarrow> xs = [x]" by (cases xs rule: unpack1.cases) auto
  show "unpack2 xs = Inr y \<longleftrightarrow> xs = [fst y, snd y]" by (cases xs rule: unpack2.cases) auto
  show "unpack3 xs = Inr z \<longleftrightarrow> xs = [fst z, fst (snd z), snd (snd z)]"
    by (cases xs rule: unpack3.cases) auto
  show "unpack5 xs = Inr w \<longleftrightarrow>
     xs = [fst w, fst (snd w), fst (snd (snd w)), fst (snd (snd (snd w))), snd (snd (snd (snd w)))]"
    by (cases xs rule: unpack5.cases) auto
qed

abbreviation in_shape :: "ctx \<Rightarrow> node \<Rightarrow> nat \<Rightarrow> shape res" where
  "in_shape C nd i \<equiv> bindE (input_at nd i) (ctx_shape C)"

abbreviation out_shape :: "ctx \<Rightarrow> node \<Rightarrow> shape res" where
  "out_shape C nd \<equiv> bindE (output_at nd 0) (ctx_shape C)"

definition attr_get :: "node \<Rightarrow> string \<Rightarrow> attr_val option" where
  "attr_get nd key = map_of (attributes nd) key"

text \<open>\<open>_attr(node, name, default)\<close>\<close>

definition attr_or :: "node \<Rightarrow> string \<Rightarrow> attr_val \<Rightarrow> attr_val" where
  "attr_or nd key d = (case attr_get nd key of None \<Rightarrow> d | Some v \<Rightarrow> v)"

section \<open>Hand-written rules\<close>

definition grad_add :: rule where
  "grad_add C nd g =
     bnd (lift (out_shape C nd)) (\<lambda>out.
     bnd (lift (in_shape C nd 0)) (\<lambda>sa.
     bnd (reduce_to g out sa) (\<lambda>da.
     bnd (lift (in_shape C nd 1)) (\<lambda>sb.
     bnd (reduce_to g out sb) (\<lambda>db.
     ret [Some da, Some db])))))"

definition grad_sub :: rule where
  "grad_sub C nd g =
     bnd (lift (out_shape C nd)) (\<lambda>out.
     bnd (lift (in_shape C nd 1)) (\<lambda>sb.
     bnd (reduce_to g out sb) (\<lambda>gb.
     bnd (lift (in_shape C nd 0)) (\<lambda>sa.
     bnd (reduce_to g out sa) (\<lambda>da.
     bnd (b_op ''Neg'' [gb] []) (\<lambda>db.
     ret [Some da, Some db]))))))"

definition grad_mul :: rule where
  "grad_mul C nd g =
     bnd (lift (input_at nd 0)) (\<lambda>a.
     bnd (lift (input_at nd 1)) (\<lambda>b.
     bnd (lift (out_shape C nd)) (\<lambda>out.
     bnd (b_mul g b) (\<lambda>gb.
     bnd (lift (ctx_shape C a)) (\<lambda>sa.
     bnd (reduce_to gb out sa) (\<lambda>da.
     bnd (b_mul g a) (\<lambda>ga.
     bnd (lift (ctx_shape C b)) (\<lambda>sb.
     bnd (reduce_to ga out sb) (\<lambda>db.
     ret [Some da, Some db])))))))))"

definition grad_div :: rule where
  "grad_div C nd g =
     bnd (lift (input_at nd 0)) (\<lambda>a.
     bnd (lift (input_at nd 1)) (\<lambda>b.
     bnd (lift (output_at nd 0)) (\<lambda>y.
     bnd (lift (ctx_shape C y)) (\<lambda>out.
     bnd (b_mul g y) (\<lambda>gy.
     bnd (b_div gy b) (\<lambda>q.
     bnd (b_op ''Neg'' [q] []) (\<lambda>gb.
     bnd (b_div g b) (\<lambda>ga.
     bnd (lift (ctx_shape C a)) (\<lambda>sa.
     bnd (reduce_to ga out sa) (\<lambda>da.
     bnd (lift (ctx_shape C b)) (\<lambda>sb.
     bnd (reduce_to gb out sb) (\<lambda>db.
     ret [Some da, Some db]))))))))))))"

definition grad_neg :: rule where
  "grad_neg C nd g = bnd (b_op ''Neg'' [g] []) (\<lambda>dx. ret [Some dx])"

definition grad_identity :: rule where
  "grad_identity C nd g = ret [Some g]"

definition grad_relu :: rule where
  "grad_relu C nd g =
     bnd (lift (input_at nd 0)) (\<lambda>x.
     bnd (b_greater_mask (c_ext C) x 0) (\<lambda>mask.
     bnd (b_mul g mask) (\<lambda>dx.
     ret [Some dx])))"

definition grad_prelu_scalar :: rule where
  "grad_prelu_scalar C nd g =
     (case inputs nd of
        [x, slope] \<Rightarrow>
          if x = '''' \<or> slope = '''' then raise UnsupportedOpError
          else
            bnd (lift (ctx_shape C x)) (\<lambda>x_shape.
            bnd (lift (ctx_shape C slope)) (\<lambda>slope_shape.
            bnd (lift (out_shape C nd)) (\<lambda>y_shape.
            bnd (lift (refuse_if (y_shape \<noteq> x_shape) UnsupportedOpError)) (\<lambda>_.
            bnd (lift (refuse_if (\<exists>d \<in> set slope_shape. d \<noteq> DInt 1) UnsupportedOpError)) (\<lambda>_.
            bnd (b_const (c_ext C) (scalar 0) ''prelu_zero'') (\<lambda>zero.
            bnd (b_op ''Less'' [x, zero] []) (\<lambda>negative.
            bnd (b_cast negative TP_FLOAT) (\<lambda>negative_mask.
            bnd (b_const (c_ext C) (scalar 1) ''prelu_one'') (\<lambda>one.
            bnd (b_sub one negative_mask) (\<lambda>nonnegative_mask.
            bnd (b_mul negative_mask slope) (\<lambda>ns.
            bnd (b_add nonnegative_mask ns) (\<lambda>dx_factor.
            bnd (b_mul g dx_factor) (\<lambda>dx.
            bnd (b_mul g x) (\<lambda>gx.
            bnd (b_mul gx negative_mask) (\<lambda>dslope_full.
            bnd (reduce_to dslope_full y_shape slope_shape) (\<lambda>dslope.
            ret [Some dx, Some dslope]))))))))))))))))
      | _ \<Rightarrow> raise UnsupportedOpError)"

text \<open>The check \<open>len(node.input) != 1 or not node.input[0]\<close>.\<close>

definition single_input :: "node \<Rightarrow> string res" where
  "single_input nd =
     (case inputs nd of [x] \<Rightarrow> (if x = '''' then Inl UnsupportedOpError else Inr x)
      | _ \<Rightarrow> Inl UnsupportedOpError)"

text \<open>The check that \<open>alpha\<close> is a plain number (a real is always finite).\<close>

fun number_attr :: "attr_val \<Rightarrow> real res" where
  "number_attr (AInt n) = Inr (of_int n)"
| "number_attr (AFloat r) = Inr r"
| "number_attr _ = Inl UnsupportedOpError"

definition grad_leaky_relu :: rule where
  "grad_leaky_relu C nd g =
     bnd (lift (single_input nd)) (\<lambda>x.
     bnd (lift (number_attr (attr_or nd ''alpha'' (AFloat (1 / 100))))) (\<lambda>alpha.
     bnd (b_const (c_ext C) (scalar 0) ''leaky_zero'') (\<lambda>zero.
     bnd (b_op ''Greater'' [x, zero] []) (\<lambda>gt.
     bnd (b_cast gt TP_FLOAT) (\<lambda>positive.
     bnd (b_const (c_ext C) (scalar 1) ''leaky_one'') (\<lambda>one.
     bnd (b_sub one positive) (\<lambda>nonpositive.
     bnd (b_const (c_ext C) (scalar alpha) ''leaky_alpha'') (\<lambda>al.
     bnd (b_mul al nonpositive) (\<lambda>slope.
     bnd (b_add positive slope) (\<lambda>derivative.
     bnd (b_mul g derivative) (\<lambda>dx.
     ret [Some dx])))))))))))"

definition grad_elu :: rule where
  "grad_elu C nd g =
     bnd (lift (single_input nd)) (\<lambda>x.
     bnd (lift (number_attr (attr_or nd ''alpha'' (AFloat 1)))) (\<lambda>alpha.
     bnd (b_const (c_ext C) (scalar 0) ''elu_zero'') (\<lambda>zero.
     bnd (b_op ''Less'' [x, zero] []) (\<lambda>negative.
     bnd (b_cast negative TP_FLOAT) (\<lambda>negative_mask.
     bnd (b_const (c_ext C) (scalar 1) ''elu_one'') (\<lambda>one.
     bnd (b_sub one negative_mask) (\<lambda>nonnegative_mask.
     bnd (lift (output_at nd 0)) (\<lambda>y.
     bnd (b_const (c_ext C) (scalar alpha) ''elu_alpha'') (\<lambda>al.
     bnd (b_add y al) (\<lambda>negative_derivative.
     bnd (b_mul negative_mask negative_derivative) (\<lambda>nd'.
     bnd (b_add nonnegative_mask nd') (\<lambda>derivative.
     bnd (b_mul g derivative) (\<lambda>dx.
     ret [Some dx])))))))))))))"

definition grad_softplus :: rule where
  "grad_softplus C nd g =
     bnd (lift (single_input nd)) (\<lambda>x.
     bnd (b_op ''Neg'' [x] []) (\<lambda>neg_x.
     bnd (b_op ''Exp'' [neg_x] []) (\<lambda>exp_neg_x.
     bnd (b_const (c_ext C) (scalar 1) ''softplus_one'') (\<lambda>one.
     bnd (b_add one exp_neg_x) (\<lambda>denominator.
     bnd (b_div g denominator) (\<lambda>dx.
     ret [Some dx]))))))"

definition grad_sigmoid :: rule where
  "grad_sigmoid C nd g =
     bnd (lift (output_at nd 0)) (\<lambda>y.
     bnd (b_const (c_ext C) (scalar 1) ''c'') (\<lambda>one.
     bnd (b_sub one y) (\<lambda>om.
     bnd (b_mul y om) (\<lambda>dy.
     bnd (b_mul g dy) (\<lambda>dx.
     ret [Some dx])))))"

definition grad_tanh :: rule where
  "grad_tanh C nd g =
     bnd (lift (output_at nd 0)) (\<lambda>y.
     bnd (b_const (c_ext C) (scalar 1) ''c'') (\<lambda>one.
     bnd (b_mul y y) (\<lambda>yy.
     bnd (b_sub one yy) (\<lambda>dy.
     bnd (b_mul g dy) (\<lambda>dx.
     ret [Some dx])))))"

definition two_over_sqrt_pi :: real where
  "two_over_sqrt_pi = 2 / sqrt pi"

definition grad_erf :: rule where
  "grad_erf C nd g =
     bnd (lift (input_at nd 0)) (\<lambda>x.
     bnd (b_const (c_ext C) (scalar two_over_sqrt_pi) ''c'') (\<lambda>c.
     bnd (b_mul x x) (\<lambda>xx.
     bnd (b_op ''Neg'' [xx] []) (\<lambda>nxx.
     bnd (b_op ''Exp'' [nxx] []) (\<lambda>e.
     bnd (b_mul c e) (\<lambda>dy.
     bnd (b_mul g dy) (\<lambda>dx.
     ret [Some dx])))))))"

definition grad_exp :: rule where
  "grad_exp C nd g =
     bnd (lift (output_at nd 0)) (\<lambda>y. bnd (b_mul g y) (\<lambda>dx. ret [Some dx]))"

definition grad_sqrt :: rule where
  "grad_sqrt C nd g =
     bnd (b_const (c_ext C) (scalar (1 / 2)) ''c'') (\<lambda>half.
     bnd (b_mul g half) (\<lambda>gh.
     bnd (lift (output_at nd 0)) (\<lambda>y.
     bnd (b_div gh y) (\<lambda>dx.
     ret [Some dx]))))"

definition grad_log :: rule where
  "grad_log C nd g =
     bnd (lift (input_at nd 0)) (\<lambda>x. bnd (b_div g x) (\<lambda>dx. ret [Some dx]))"

definition grad_clip :: rule where
  "grad_clip C nd g =
     bnd (lift (input_at nd 0)) (\<lambda>x.
     let rest = replicate (length (inputs nd) - 1) None in
     bnd (if 1 < length (inputs nd) \<and> inputs nd ! 1 \<noteq> ''''
          then bnd (mask_greater x (inputs nd ! 1)) (\<lambda>m. ret (Some m)) else ret None) (\<lambda>lower_mask.
     bnd (if 2 < length (inputs nd) \<and> inputs nd ! 2 \<noteq> ''''
          then bnd (mask_less x (inputs nd ! 2)) (\<lambda>upper.
               case lower_mask of None \<Rightarrow> ret (Some upper)
               | Some m \<Rightarrow> bnd (b_mul m upper) (\<lambda>m'. ret (Some m')))
          else ret lower_mask) (\<lambda>mask.
     case mask of None \<Rightarrow> ret (Some g # rest)
     | Some m \<Rightarrow> bnd (b_mul g m) (\<lambda>dx. ret (Some dx # rest)))))"

definition grad_where :: rule where
  "grad_where C nd g =
     bnd (lift (unpack3 (inputs nd))) (\<lambda>(cond, x, z).
     bnd (lift (out_shape C nd)) (\<lambda>out.
     bnd (b_cast cond TP_FLOAT) (\<lambda>mask.
     bnd (b_const (c_ext C) (scalar 1) ''c'') (\<lambda>one.
     bnd (b_sub one mask) (\<lambda>not_mask.
     bnd (b_mul g mask) (\<lambda>gx.
     bnd (lift (ctx_shape C x)) (\<lambda>sx.
     bnd (reduce_to gx out sx) (\<lambda>dx.
     bnd (b_mul g not_mask) (\<lambda>gz.
     bnd (lift (ctx_shape C z)) (\<lambda>sz.
     bnd (reduce_to gz out sz) (\<lambda>dz.
     ret [None, Some dx, Some dz])))))))))))"

definition grad_is_nan :: rule where
  "grad_is_nan C nd g = ret [None]"

definition grad_quantize_linear :: rule where
  "grad_quantize_linear C nd g = ret (Some g # replicate (length (inputs nd) - 1) None)"

definition grad_dequantize_linear :: rule where
  "grad_dequantize_linear C nd g = ret (Some g # replicate (length (inputs nd) - 1) None)"

section \<open>Contracts\<close>

lemma rule_reads_sub [intro]:
  "set xs \<subseteq> set (inputs nd) \<union> set (outputs nd) \<union> gs \<Longrightarrow> set xs - {''''} \<subseteq> rule_reads nd gs"
  by (auto simp: rule_reads_def)

lemma single_input_Inr [simp]: "single_input nd = Inr x \<longleftrightarrow> inputs nd = [x] \<and> x \<noteq> ''''"
  by (auto simp: single_input_def split: list.splits if_splits)

lemma item_at_mem: "item_at xs i = Inr x \<Longrightarrow> x \<in> set xs"
  by (auto simp: item_at_Inr_iff)

lemmas reads_simps = rule_reads_def item_at_Inr_iff

lemma contract_grad_add: "rule_contract grad_add"
  unfolding grad_add_def Let_def
  by (rule rule_contractI) (rule emit_lift_bnd emit_bnd emit_intros | (auto simp: reads_simps; fail)[1])+

lemma contract_grad_sub: "rule_contract grad_sub"
  unfolding grad_sub_def Let_def
  by (rule rule_contractI) (rule emit_lift_bnd emit_bnd emit_intros | (auto simp: reads_simps; fail)[1])+

lemma contract_grad_mul: "rule_contract grad_mul"
  unfolding grad_mul_def Let_def
  by (rule rule_contractI) (rule emit_lift_bnd emit_bnd emit_intros | (auto simp: reads_simps; fail)[1])+

lemma contract_grad_div: "rule_contract grad_div"
  unfolding grad_div_def Let_def
  by (rule rule_contractI) (rule emit_lift_bnd emit_bnd emit_intros | (auto simp: reads_simps; fail)[1])+

lemma contract_grad_neg: "rule_contract grad_neg"
  unfolding grad_neg_def Let_def
  by (rule rule_contractI) (rule emit_lift_bnd emit_bnd emit_intros | (auto simp: reads_simps; fail)[1])+

lemma contract_grad_identity: "rule_contract grad_identity"
  unfolding grad_identity_def Let_def
  by (rule rule_contractI) (rule emit_lift_bnd emit_bnd emit_intros | (auto simp: reads_simps; fail)[1])+

lemma contract_grad_relu: "rule_contract grad_relu"
  unfolding grad_relu_def Let_def
  by (rule rule_contractI) (rule emit_lift_bnd emit_bnd emit_intros | (auto simp: reads_simps; fail)[1])+

lemma contract_grad_prelu_scalar: "rule_contract grad_prelu_scalar"
  unfolding grad_prelu_scalar_def Let_def
  by (rule rule_contractI) (rule emit_lift_bnd emit_bnd emit_intros | (auto simp: reads_simps; fail)[1])+

lemma contract_grad_leaky_relu: "rule_contract grad_leaky_relu"
  unfolding grad_leaky_relu_def Let_def
  by (rule rule_contractI) (rule emit_lift_bnd emit_bnd emit_intros | (auto simp: reads_simps; fail)[1])+

lemma contract_grad_elu: "rule_contract grad_elu"
  unfolding grad_elu_def Let_def
  by (rule rule_contractI) (rule emit_lift_bnd emit_bnd emit_intros | (auto simp: reads_simps; fail)[1])+

lemma contract_grad_softplus: "rule_contract grad_softplus"
  unfolding grad_softplus_def Let_def
  by (rule rule_contractI) (rule emit_lift_bnd emit_bnd emit_intros | (auto simp: reads_simps; fail)[1])+

lemma contract_grad_sigmoid: "rule_contract grad_sigmoid"
  unfolding grad_sigmoid_def Let_def
  by (rule rule_contractI) (rule emit_lift_bnd emit_bnd emit_intros | (auto simp: reads_simps; fail)[1])+

lemma contract_grad_tanh: "rule_contract grad_tanh"
  unfolding grad_tanh_def Let_def
  by (rule rule_contractI) (rule emit_lift_bnd emit_bnd emit_intros | (auto simp: reads_simps; fail)[1])+

lemma contract_grad_erf: "rule_contract grad_erf"
  unfolding grad_erf_def Let_def
  by (rule rule_contractI) (rule emit_lift_bnd emit_bnd emit_intros | (auto simp: reads_simps; fail)[1])+

lemma contract_grad_exp: "rule_contract grad_exp"
  unfolding grad_exp_def Let_def
  by (rule rule_contractI) (rule emit_lift_bnd emit_bnd emit_intros | (auto simp: reads_simps; fail)[1])+

lemma contract_grad_sqrt: "rule_contract grad_sqrt"
  unfolding grad_sqrt_def Let_def
  by (rule rule_contractI) (rule emit_lift_bnd emit_bnd emit_intros | (auto simp: reads_simps; fail)[1])+

lemma contract_grad_log: "rule_contract grad_log"
  unfolding grad_log_def Let_def
  by (rule rule_contractI) (rule emit_lift_bnd emit_bnd emit_intros | (auto simp: reads_simps; fail)[1])+

lemma contract_grad_clip: "rule_contract grad_clip"
proof (rule rule_contractI)
  fix C nd and g :: string and K
  assume g: "g \<noteq> ''''"
  note bnd_mask = emit_bnd [where T = set_option]
  show "emits K (rule_reads nd {g}) (grad_clip C nd g) somes"
    unfolding grad_clip_def Let_def using g
    by - (rule emit_lift_bnd bnd_mask | rule emit_if emit_option emit_ret emit_mask_greater
            emit_mask_less emit_bnd emit_binary | (auto simp: reads_simps; fail)[1])+
qed

lemma contract_grad_where: "rule_contract grad_where"
  unfolding grad_where_def Let_def
  by (rule rule_contractI) (rule emit_lift_bnd emit_bnd emit_intros | (auto simp: reads_simps; fail)[1])+

lemma contract_grad_is_nan: "rule_contract grad_is_nan"
  unfolding grad_is_nan_def Let_def
  by (rule rule_contractI) (rule emit_lift_bnd emit_bnd emit_intros | (auto simp: reads_simps; fail)[1])+

lemma contract_grad_quantize_linear: "rule_contract grad_quantize_linear"
  unfolding grad_quantize_linear_def Let_def
  by (rule rule_contractI) (rule emit_lift_bnd emit_bnd emit_intros | (auto simp: reads_simps; fail)[1])+

lemma contract_grad_dequantize_linear: "rule_contract grad_dequantize_linear"
  unfolding grad_dequantize_linear_def Let_def
  by (rule rule_contractI) (rule emit_lift_bnd emit_bnd emit_intros | (auto simp: reads_simps; fail)[1])+

end
