(* ===== verification/Rules_Shape.thy ===== *)
theory Rules_Shape
  imports Rules_Pointwise
begin

text \<open>
  The gradient rules of \<open>onnxsim/graph_grad.py\<close> for operators that move elements without
  computing on them: \<open>Transpose\<close>, \<open>Reshape\<close>, \<open>Expand\<close>, \<open>Slice\<close>, \<open>Pad\<close>, \<open>Squeeze\<close>/\<open>Unsqueeze\<close>,
  \<open>Gather\<close>, \<open>DepthToSpace\<close>, \<open>Concat\<close>, and the two multi-output rules \<open>Split\<close> and
  inference-mode \<open>Dropout\<close>.  Each computes from static shapes and constant initializers, refuses
  what it does not support, and appends nodes.
\<close>

section \<open>Transpose and Reshape\<close>

text \<open>\<open>inverse[axis] = position\<close> over \<open>enumerate(axes)\<close>, from a list of \<open>rank\<close> zeros.\<close>

definition inverse_perm :: "nat \<Rightarrow> int list \<Rightarrow> int list res" where
  "inverse_perm rank axes =
     foldE (\<lambda>inv (position, axis). set_item inv axis (int position))
       (replicate rank 0) (enumerate 0 axes)"

definition grad_transpose :: rule where
  "grad_transpose C nd g =
     bnd (lift (in_shape C nd 0)) (\<lambda>sh.
     let rank = length sh in
     bnd (lift (case attr_get nd ''perm'' of
                  None \<Rightarrow> Inr (map int (rev [0..<rank]))
                | Some v \<Rightarrow> attr_ints v)) (\<lambda>axes.
     bnd (lift (inverse_perm rank axes)) (\<lambda>inverse.
     bnd (b_transpose g inverse) (\<lambda>dx.
     ret [Some dx]))))"

definition grad_reshape :: rule where
  "grad_reshape C nd g =
     bnd (lift (in_shape C nd 0)) (\<lambda>shape.
     bnd (int64_const shape ''shape'') (\<lambda>sh.
     bnd (b_op ''Reshape'' [g, sh] []) (\<lambda>dx.
     ret [Some dx, None])))"

definition grad_squeeze_or_unsqueeze :: rule where
  "grad_squeeze_or_unsqueeze C nd g =
     bnd (lift (in_shape C nd 0)) (\<lambda>shape.
     bnd (int64_const shape ''shape'') (\<lambda>sh.
     bnd (b_op ''Reshape'' [g, sh] []) (\<lambda>dx.
     ret (Some dx # replicate (length (inputs nd) - 1) None))))"

section \<open>Constant parameters\<close>

text \<open>
  \<open>_constant_ints\<close>: an integer parameter must be a readable constant of an integer type.  Reading
  a tensor is \<open>onnx.numpy_helper.to_array\<close>; \<open>TUnreadable\<close> is the tensor it raises on.
\<close>

definition constant_ints :: "ctx \<Rightarrow> string \<Rightarrow> int list res" where
  "constant_ints C name =
     (case c_inits C name of
        None \<Rightarrow> Inl UnsupportedOpError
      | Some t \<Rightarrow> (case t_data t of TInt _ ns \<Rightarrow> Inr ns | _ \<Rightarrow> Inl UnsupportedOpError))"

text \<open>\<open>any(not isinstance(d, int) for d in shape)\<close> refused, then every \<open>int(d)\<close>.\<close>

definition static_dims :: "shape \<Rightarrow> int list res" where
  "static_dims sh =
     bindE (refuse_if (\<exists>d \<in> set sh. \<not> is_int_dim d) UnsupportedOpError) (\<lambda>_. mapE dim_int sh)"

lemma static_dims_Inr: "static_dims sh = Inr ns \<longleftrightarrow> sh = ints ns"
proof
  assume a: "static_dims sh = Inr ns"
  then have "\<forall>d \<in> set sh. is_int_dim d" by (auto simp: static_dims_def refuse_if_def split: if_splits)
  with a mapE_dim_int_static [of sh] show "sh = ints ns"
    by (auto simp: static_dims_def refuse_if_def split: if_splits)
next
  assume "sh = ints ns"
  moreover have "\<forall>d \<in> set (ints ns). is_int_dim d" by auto
  ultimately show "static_dims sh = Inr ns" by (auto simp: static_dims_def refuse_if_def)
qed

section \<open>Expand\<close>

text \<open>\<open>(1,) * (rank - len(s)) + s\<close>\<close>

definition left_ones :: "nat \<Rightarrow> int list \<Rightarrow> int list" where
  "left_ones rank s = replicate (rank - length s) 1 @ s"

fun expand_dims :: "int list \<Rightarrow> int list \<Rightarrow> int list res" where
  "expand_dims (x # xs) (t # ts) =
     (if x \<noteq> t \<and> x \<noteq> 1 \<and> t \<noteq> 1 then Inl UnsupportedOpError
      else bindE (expand_dims xs ts) (\<lambda>rest. Inr ((if x = 1 then t else x) # rest)))"
| "expand_dims _ _ = Inr []"

definition expand_shape :: "int list \<Rightarrow> int list \<Rightarrow> int list res" where
  "expand_shape xs ts =
     (let rank = max (length xs) (length ts) in expand_dims (left_ones rank xs) (left_ones rank ts))"

text \<open>The initializer of that name in the builder, which \<open>assert\<close>s it is there.\<close>

definition builder_initializer :: "string \<Rightarrow> tensor bst" where
  "builder_initializer name b =
     (case find (\<lambda>t. t_name t = name) (b_initializer b) of
        None \<Rightarrow> (Inl AssertionError, b) | Some t \<Rightarrow> (Inr t, b))"

fun is_int64_data :: "tensor_data \<Rightarrow> bool" where
  "is_int64_data (TInt wide _) = wide"
| "is_int64_data _ = False"

definition grad_expand :: rule where
  "grad_expand C nd g =
     bnd (lift (refuse_if (length (inputs nd) \<noteq> 2 \<or> inputs nd ! 0 = '''' \<or> inputs nd ! 1 = '''')
                  UnsupportedOpError)) (\<lambda>_.
     bnd (lift (unpack2 (inputs nd))) (\<lambda>(x, shape_name).
     bnd (lift (constant_ints C shape_name)) (\<lambda>target_shape.
     bnd (builder_initializer shape_name) (\<lambda>t.
     bnd (lift (refuse_if (t_dims t \<noteq> [int (length target_shape)]) UnsupportedOpError)) (\<lambda>_.
     bnd (lift (refuse_if (\<not> is_int64_data (t_data t)) UnsupportedOpError)) (\<lambda>_.
     bnd (lift (refuse_if (\<exists>d \<in> set target_shape. d < 0) UnsupportedOpError)) (\<lambda>_.
     bnd (lift (ctx_shape C x)) (\<lambda>x_shape.
     bnd (lift (out_shape C nd)) (\<lambda>y_shape.
     bnd (lift (static_dims (x_shape @ y_shape))) (\<lambda>dims.
     bnd (lift (expand_shape (take (length x_shape) dims) target_shape)) (\<lambda>expected.
     bnd (lift (refuse_if (ints expected \<noteq> y_shape) UnsupportedOpError)) (\<lambda>_.
     bnd (reduce_to g y_shape x_shape) (\<lambda>dx.
     ret [Some dx, None])))))))))))))"

section \<open>Slice\<close>

text \<open>Clipping to \<open>[0, size]\<close> after translating a negative bound.\<close>

definition clip_bound :: "int \<Rightarrow> int \<Rightarrow> int" where
  "clip_bound n k = max 0 (min n (if k < 0 then k + n else k))"

type_synonym slice_spec = "int \<times> int \<times> int"

fun slice_specs ::
  "int list \<Rightarrow> (int \<times> int \<times> int \<times> int) list \<Rightarrow> (nat \<rightharpoonup> slice_spec) \<Rightarrow> (nat \<rightharpoonup> slice_spec) res" where
  "slice_specs dims [] specs = Inr specs"
| "slice_specs dims ((start, stop, axis, step) # rest) specs =
     (let rank = int (length dims);
          axis' = (if axis < 0 then axis + rank else axis)
      in if axis' < 0 \<or> rank \<le> axis' \<or> specs (nat axis') \<noteq> None then Inl UnsupportedOpError
         else if step \<le> 0 then Inl UnsupportedOpError
         else let n = dims ! nat axis'
              in slice_specs dims rest
                   (specs(nat axis' \<mapsto> (clip_bound n start, clip_bound n stop, step))))"

definition slice_indices :: "(nat \<rightharpoonup> slice_spec) \<Rightarrow> nat \<Rightarrow> int \<Rightarrow> int list" where
  "slice_indices specs axis d =
     (case specs axis of None \<Rightarrow> range_step 0 d 1
      | Some (start, stop, step) \<Rightarrow> range_step start stop step)"

text \<open>A 0/1 matrix with a one at column \<open>indices[l]\<close> of row \<open>l\<close>; \<open>np.zeros\<close> refuses a negative size.\<close>

definition selector :: "int list \<Rightarrow> int \<Rightarrow> arr res" where
  "selector indices width =
     (if width < 0 then Inl ValueError
      else Inr ([int (length indices), width],
                concat (map (\<lambda>i. map (\<lambda>j. if j = i then 1 else 0) (range_int 0 width)) indices)))"

text \<open>The permutation that moves an axis last, and its inverse.\<close>

definition move_last :: "nat \<Rightarrow> nat \<Rightarrow> int list" where
  "move_last rank axis = map int (filter (\<lambda>i. i \<noteq> axis) [0..<rank] @ [axis])"

definition move_back :: "nat \<Rightarrow> nat \<Rightarrow> int list res" where
  "move_back rank axis =
     bindE (mapE (\<lambda>i. index_of (int i) (move_last rank axis)) [0..<rank]) (\<lambda>ks. Inr (map int ks))"

text \<open>\<open>[int(v) for v in _attr(node, name, default)]\<close>\<close>

definition ints_attr :: "node \<Rightarrow> string \<Rightarrow> int list \<Rightarrow> int list res" where
  "ints_attr nd key d = attr_ints (attr_or nd key (AInts d))"

definition real_input :: "node \<Rightarrow> nat \<Rightarrow> bool" where
  "real_input nd i \<longleftrightarrow> i < length (inputs nd) \<and> inputs nd ! i \<noteq> ''''"

definition slice_params :: "ctx \<Rightarrow> node \<Rightarrow> (int list \<times> int list \<times> int list \<times> int list) res" where
  "slice_params C nd =
     (if \<not> real_input nd 1 \<or> \<not> real_input nd 2 \<or> length (inputs nd) < 3 then
        bindE (ints_attr nd ''starts'' []) (\<lambda>starts.
        bindE (ints_attr nd ''ends'' []) (\<lambda>ends.
        bindE (ints_attr nd ''axes'' (map int [0..<length starts])) (\<lambda>axes.
        bindE (ints_attr nd ''steps'' (replicate (length starts) 1)) (\<lambda>steps.
        Inr (starts, ends, axes, steps)))))
      else
        bindE (constant_ints C (inputs nd ! 1)) (\<lambda>starts.
        bindE (constant_ints C (inputs nd ! 2)) (\<lambda>ends.
        bindE (if real_input nd 3 then constant_ints C (inputs nd ! 3)
               else Inr (map int [0..<length starts])) (\<lambda>axes.
        bindE (if real_input nd 4 then constant_ints C (inputs nd ! 4)
               else Inr (replicate (length starts) 1)) (\<lambda>steps.
        Inr (starts, ends, axes, steps))))))"

text \<open>One iteration of the loop that embeds the gradient along an axis.\<close>

definition slice_step :: "ext \<Rightarrow> nat \<Rightarrow> (nat \<rightharpoonup> slice_spec) \<Rightarrow> string \<Rightarrow> nat \<times> int \<Rightarrow> string bst" where
  "slice_step E rank specs out ad =
     (case ad of (axis, d) \<Rightarrow>
      let indices = slice_indices specs axis d in
      if int (length indices) = d then ret out
      else
        bnd (lift (move_back rank axis)) (\<lambda>inv_perm.
        bnd (if axis \<noteq> rank - 1 then b_transpose out (move_last rank axis) else ret out) (\<lambda>moved.
        bnd (lift (selector indices d)) (\<lambda>sel.
        bnd (b_const E sel ''slice_vjp'') (\<lambda>c.
        bnd (b_matmul moved c) (\<lambda>m.
        if axis \<noteq> rank - 1 then b_transpose m inv_perm else ret m))))))"

definition grad_slice :: rule where
  "grad_slice C nd g =
     bnd (lift (in_shape C nd 0)) (\<lambda>in_sh.
     let rank = length in_sh in
     bnd (lift (refuse_if (rank = 0) UnsupportedOpError)) (\<lambda>_.
     bnd (lift (slice_params C nd)) (\<lambda>(starts, ends, axes, steps).
     bnd (lift (refuse_if (\<not> (length starts = length ends \<and> length ends = length axes
                              \<and> length axes = length steps)) UnsupportedOpError)) (\<lambda>_.
     bnd (lift (static_dims in_sh)) (\<lambda>dims.
     bnd (lift (slice_specs dims (zip starts (zip ends (zip axes steps))) Map.empty)) (\<lambda>specs.
     bnd (lift (out_shape C nd)) (\<lambda>expected.
     bnd (lift (refuse_if
            (ints (map (\<lambda>(axis, d). int (length (slice_indices specs axis d))) (enumerate 0 dims))
               \<noteq> expected) UnsupportedOpError)) (\<lambda>_.
     bnd (foldM (slice_step (c_ext C) rank specs) g (enumerate 0 dims)) (\<lambda>out.
     ret (Some out # replicate (length (inputs nd) - 1) None))))))))))"

section \<open>Pad\<close>

text \<open>\<open>to_array(t).size\<close>\<close>

definition tensor_size :: "tensor \<Rightarrow> nat res" where
  "tensor_size t =
     (case t_data t of TFloat xs \<Rightarrow> Inr (length xs) | TInt _ xs \<Rightarrow> Inr (length xs)
      | TBool xs \<Rightarrow> Inr (length xs) | TUnreadable \<Rightarrow> Inl ValueError)"

definition pad_value_ok :: "ctx \<Rightarrow> node \<Rightarrow> unit res" where
  "pad_value_ok C nd =
     (if real_input nd 2 then
        (case c_inits C (inputs nd ! 2) of
           None \<Rightarrow> Inl UnsupportedOpError
         | Some t \<Rightarrow> bindE (tensor_size t) (\<lambda>n. refuse_if (n \<noteq> 1) UnsupportedOpError))
      else Inr ())"

definition pad_step :: "string \<Rightarrow> nat \<times> int \<times> int \<times> int \<Rightarrow> string bst" where
  "pad_step out spec =
     (case spec of (axis, d, before, after) \<Rightarrow>
        if before = 0 \<and> after = 0 then ret out
        else bnd (int64_const (ints (range_int before (before + d))) ''pad_vjp_idx'') (\<lambda>idx.
             b_op ''Gather'' [out, idx] [(''axis'', AInt (int axis))]))"

definition grad_pad :: rule where
  "grad_pad C nd g =
     bnd (lift (refuse_if (attr_or nd ''mode'' (AStr ''constant'') \<noteq> AStr ''constant'')
            UnsupportedOpError)) (\<lambda>_.
     bnd (lift (refuse_if (\<not> real_input nd 1) UnsupportedOpError)) (\<lambda>_.
     bnd (lift (constant_ints C (inputs nd ! 1))) (\<lambda>pads.
     bnd (lift (in_shape C nd 0)) (\<lambda>in_sh.
     bnd (lift (static_dims in_sh)) (\<lambda>dims.
     let rank = length dims in
     bnd (lift (refuse_if (length pads \<noteq> 2 * rank) UnsupportedOpError)) (\<lambda>_.
     let begins = take rank pads; ends = drop rank pads in
     bnd (lift (refuse_if (\<exists>p \<in> set pads. p < 0) UnsupportedOpError)) (\<lambda>_.
     bnd (lift (pad_value_ok C nd)) (\<lambda>_.
     bnd (lift (out_shape C nd)) (\<lambda>out_sh.
     bnd (lift (refuse_if
            (ints (map (\<lambda>(d, before, after). d + before + after) (zip dims (zip begins ends))) \<noteq> out_sh)
            UnsupportedOpError)) (\<lambda>_.
     bnd (foldM pad_step g (enumerate 0 (zip dims (zip begins ends)))) (\<lambda>out.
     ret (Some out # replicate (length (inputs nd) - 1) None))))))))))))"

section \<open>Gather\<close>

definition arange :: "int \<Rightarrow> arr" where
  "arange count = ([max 0 count], map of_int (range_int 0 count))"

definition grad_gather :: rule where
  "grad_gather C nd g =
     bnd (lift (input_at nd 0)) (\<lambda>data.
     bnd (lift (input_at nd 1)) (\<lambda>indices.
     bnd (lift (ctx_shape C data)) (\<lambda>data_shape.
     bnd (lift (ctx_shape C indices)) (\<lambda>idx_shape.
     bnd (lift (refuse_if (1 < length idx_shape) UnsupportedOpError)) (\<lambda>_.
     bnd (lift (attr_int (attr_or nd ''axis'' (AInt 0)))) (\<lambda>axis_attr.
     bnd (lift (mod_len axis_attr (length data_shape))) (\<lambda>axis.
     bnd (lift (dim_int (data_shape ! axis))) (\<lambda>count.
     bnd (lift (prod_dims (take axis data_shape))) (\<lambda>pre.
     bnd (lift (prod_dims (drop (axis + 1) data_shape))) (\<lambda>post.
     bnd (lift (prod_dims idx_shape)) (\<lambda>len.
     bnd (int64_const (ints [len]) ''shape'') (\<lambda>flat_shape.
     bnd (b_op ''Reshape'' [indices, flat_shape] []) (\<lambda>flat_idx.
     bnd (b_cast flat_idx TP_FLOAT) (\<lambda>idx_f.
     bnd (b_const (c_ext C) (scalar 0) ''c'') (\<lambda>zero.
     bnd (mask_less idx_f zero) (\<lambda>is_negative.
     bnd (b_const (c_ext C) (scalar (of_int count)) ''c'') (\<lambda>cnt.
     bnd (b_mul is_negative cnt) (\<lambda>wrap.
     bnd (b_add idx_f wrap) (\<lambda>idx_resolved.
     bnd (int64_const (ints [len, 1]) ''shape'') (\<lambda>col_shape.
     bnd (b_op ''Reshape'' [idx_resolved, col_shape] []) (\<lambda>idx_col.
     bnd (b_const (c_ext C) (arange count) ''arange'') (\<lambda>ar.
     bnd (int64_const (ints [1, count]) ''shape'') (\<lambda>row_shape.
     bnd (b_op ''Reshape'' [ar, row_shape] []) (\<lambda>arange_row.
     bnd (b_const (c_ext C) (scalar 1) ''c'') (\<lambda>one_g.
     bnd (mask_greater idx_col arange_row) (\<lambda>gt.
     bnd (b_sub one_g gt) (\<lambda>not_greater.
     bnd (b_const (c_ext C) (scalar 1) ''c'') (\<lambda>one_l.
     bnd (mask_less idx_col arange_row) (\<lambda>lt.
     bnd (b_sub one_l lt) (\<lambda>not_less.
     bnd (b_mul not_greater not_less) (\<lambda>onehot.
     bnd (b_transpose onehot [1, 0]) (\<lambda>onehot_t.
     bnd (int64_const (ints [1, count, len]) ''shape'') (\<lambda>batch_shape.
     bnd (b_op ''Reshape'' [onehot_t, batch_shape] []) (\<lambda>onehot_batched.
     bnd (int64_const (ints [pre, len, post]) ''shape'') (\<lambda>dy_shape.
     bnd (b_op ''Reshape'' [g, dy_shape] []) (\<lambda>dy_flat.
     bnd (b_matmul onehot_batched dy_flat) (\<lambda>ddata_flat.
     bnd (int64_const data_shape ''shape'') (\<lambda>sh.
     bnd (b_op ''Reshape'' [ddata_flat, sh] []) (\<lambda>ddata.
     ret [Some ddata, None])))))))))))))))))))))))))))))))))))))))"

section \<open>DepthToSpace\<close>

definition depth_to_space_layout :: "bool \<Rightarrow> int \<Rightarrow> int list \<Rightarrow> (int list \<times> nat list) res" where
  "depth_to_space_layout crd bs dims =
     (case dims of
        [n, c, h, w] \<Rightarrow>
          if bs = 0 then Inl ZeroDivisionError
          else if crd then Inr ([n, c div (bs * bs), bs, bs, h, w], [0, 1, 4, 2, 5, 3])
          else Inr ([n, bs, bs, c div (bs * bs), h, w], [0, 3, 4, 1, 5, 2])
      | _ \<Rightarrow> Inl UnsupportedOpError)"

definition grad_depth_to_space :: rule where
  "grad_depth_to_space C nd g =
     bnd (lift (in_shape C nd 0)) (\<lambda>shape.
     bnd (lift (refuse_if (length shape \<noteq> 4) UnsupportedOpError)) (\<lambda>_.
     bnd (lift (static_dims shape)) (\<lambda>dims.
     bnd (lift (attr_int (attr_or nd ''blocksize'' (AInt 0)))) (\<lambda>bs.
     bnd (lift (depth_to_space_layout (attr_or nd ''mode'' (AStr ''DCR'') = AStr ''CRD'') bs dims))
       (\<lambda>(tmp_shape, perm).
     bnd (lift (inverse_perm 6 (map int perm))) (\<lambda>inverse.
     bnd (int64_const (ints (map (\<lambda>p. tmp_shape ! p) perm)) ''shape'') (\<lambda>transposed_shape.
     bnd (b_op ''Reshape'' [g, transposed_shape] []) (\<lambda>g_t.
     bnd (b_transpose g_t inverse) (\<lambda>g_tmp.
     bnd (int64_const (ints dims) ''shape'') (\<lambda>sh.
     bnd (b_op ''Reshape'' [g_tmp, sh] []) (\<lambda>dx.
     ret [Some dx])))))))))))"

section \<open>Concat\<close>

fun static_width :: "dim \<Rightarrow> int res" where
  "static_width (DInt n) = Inr n"
| "static_width (DSym _) = Inl UnsupportedOpError"

definition concat_step ::
  "ctx \<Rightarrow> nat \<Rightarrow> string \<Rightarrow> string option list \<times> int \<Rightarrow> string \<Rightarrow> (string option list \<times> int) bst" where
  "concat_step C axis g acc inp =
     (case acc of (grads, offset) \<Rightarrow>
      bnd (lift (ctx_shape C inp)) (\<lambda>shape.
      bnd (lift (item_at shape axis)) (\<lambda>w.
      bnd (lift (static_width w)) (\<lambda>width.
      bnd (int64_const (ints (range_int offset (offset + width))) ''idx'') (\<lambda>idx.
      bnd (b_op ''Gather'' [g, idx] [(''axis'', AInt (int axis))]) (\<lambda>dx.
      ret (grads @ [Some dx], offset + width)))))))"

definition grad_concat :: rule where
  "grad_concat C nd g =
     bnd (lift (out_shape C nd)) (\<lambda>out_sh.
     bnd (lift (attr_int (attr_or nd ''axis'' (AInt 0)))) (\<lambda>axis_attr.
     bnd (lift (mod_len axis_attr (length out_sh))) (\<lambda>axis.
     bnd (foldM (concat_step C axis g) ([], 0) (inputs nd)) (\<lambda>acc.
     ret (fst acc)))))"

section \<open>Multi-output rules\<close>

definition split_axis :: "node \<Rightarrow> nat \<Rightarrow> nat res" where
  "split_axis nd rank =
     bindE (attr_int (attr_or nd ''axis'' (AInt 0))) (\<lambda>a.
     let axis = (if a < 0 then a + int rank else a) in
     if axis < 0 \<or> int rank \<le> axis then Inl UnsupportedOpError else Inr (nat axis))"

definition split_size :: "ctx \<Rightarrow> nat \<Rightarrow> nat \<Rightarrow> string \<Rightarrow> int res" where
  "split_size C rank axis out_name =
     bindE (ctx_shape C out_name) (\<lambda>out_sh.
     bindE (refuse_if (length out_sh \<noteq> rank) UnsupportedOpError) (\<lambda>_.
     dim_int (out_sh ! axis)))"

definition split_step ::
  "ext \<Rightarrow> bool \<Rightarrow> int list \<Rightarrow> int \<Rightarrow> string option \<times> int \<Rightarrow> string option \<times> int
     \<Rightarrow> (string option \<times> int) bst" where
  "split_step E identity_perm perm width acc g_size =
     (case (acc, g_size) of ((sm, offset), (g, sz)) \<Rightarrow>
      case g of None \<Rightarrow> ret (sm, offset + sz)
      | Some g' \<Rightarrow>
        bnd (if identity_perm then ret g' else b_transpose g' perm) (\<lambda>g_t.
        bnd (lift (refuse_if (sz < 0) ValueError)) (\<lambda>_.
        bnd (lift (selector (range_int offset (offset + sz)) width)) (\<lambda>sel.
        bnd (b_const E sel ''split_sel'') (\<lambda>c.
        bnd (b_matmul g_t c) (\<lambda>t.
        bnd (case sm of None \<Rightarrow> ret t | Some a \<Rightarrow> b_add a t) (\<lambda>a'.
        ret (Some a', offset + sz))))))))"

definition grad_split :: multi_rule where
  "grad_split C nd gs =
     bnd (lift (in_shape C nd 0)) (\<lambda>in_sh.
     let rank = length in_sh in
     bnd (lift (split_axis nd rank)) (\<lambda>axis.
     if \<forall>g \<in> set gs. g = None then ret (replicate (length (inputs nd)) None)
     else
       bnd (lift (dim_int (in_sh ! axis))) (\<lambda>width.
       bnd (lift (mapE (split_size C rank axis) (outputs nd))) (\<lambda>out_sizes.
       bnd (lift (refuse_if (sum_list out_sizes \<noteq> width) UnsupportedOpError)) (\<lambda>_.
       let perm = move_last rank axis; identity_perm = (perm = map int [0..<rank]) in
       bnd (lift (move_back rank axis)) (\<lambda>inv_perm.
       bnd (foldM (split_step (c_ext C) identity_perm perm width) (None, 0) (zip gs out_sizes)) (\<lambda>acc.
       case fst acc of
         None \<Rightarrow> raise AssertionError
       | Some a \<Rightarrow>
           bnd (if identity_perm then ret a else b_transpose a inv_perm) (\<lambda>dx.
           ret (Some dx # replicate (length (inputs nd) - 1) None)))))))))"

definition dropout_training_ok :: "ctx \<Rightarrow> node \<Rightarrow> unit res" where
  "dropout_training_ok C nd =
     (if real_input nd 2 then
        (case c_inits C (inputs nd ! 2) of
           None \<Rightarrow> Inl UnsupportedOpError
         | Some t \<Rightarrow> (case t_data t of
             TBool [v] \<Rightarrow> refuse_if v UnsupportedOpError
           | _ \<Rightarrow> Inl UnsupportedOpError))
      else Inr ())"

definition grad_inference_dropout :: multi_rule where
  "grad_inference_dropout C nd gs =
     bnd (lift (dropout_training_ok C nd)) (\<lambda>_.
     bnd (lift (item_at gs 0)) (\<lambda>g.
     ret (g # replicate (length (inputs nd) - 1) None)))"

section \<open>Contracts\<close>

text \<open>A multi-output rule's contract: every output that carries a gradient may be read.\<close>

definition multi_contract :: "multi_rule \<Rightarrow> bool" where
  "multi_contract rl \<longleftrightarrow>
     (\<forall>C nd gs K. '''' \<notin> somes gs \<longrightarrow> emits K (rule_reads nd (somes gs)) (rl C nd gs) somes)"

lemma multi_contractI:
  "(\<And>C nd gs K. '''' \<notin> somes gs \<Longrightarrow> emits K (rule_reads nd (somes gs)) (rl C nd gs) somes) \<Longrightarrow>
     multi_contract rl"
  by (simp add: multi_contract_def)

lemma multi_contractD:
  "multi_contract rl \<Longrightarrow> '''' \<notin> somes gs \<Longrightarrow> emits K (rule_reads nd (somes gs)) (rl C nd gs) somes"
  by (simp add: multi_contract_def)

lemma emit_builder_initializer: "emit A K S (builder_initializer x) (\<lambda>_. {})"
  by (rule emitI) (auto simp: builder_initializer_def split: option.splits)

lemma contract_grad_transpose: "rule_contract grad_transpose"
  unfolding grad_transpose_def Let_def
  by (rule rule_contractI) (rule emit_lift_bnd emit_bnd emit_intros | (auto simp: reads_simps; fail)[1])+

lemma contract_grad_reshape: "rule_contract grad_reshape"
  unfolding grad_reshape_def Let_def
  by (rule rule_contractI) (rule emit_lift_bnd emit_bnd emit_intros | (auto simp: reads_simps; fail)[1])+

lemma contract_grad_squeeze_or_unsqueeze: "rule_contract grad_squeeze_or_unsqueeze"
  unfolding grad_squeeze_or_unsqueeze_def Let_def
  by (rule rule_contractI) (rule emit_lift_bnd emit_bnd emit_intros | (auto simp: reads_simps; fail)[1])+

lemma contract_grad_gather: "rule_contract grad_gather"
  unfolding grad_gather_def Let_def
  by (rule rule_contractI) (rule emit_lift_bnd emit_bnd emit_intros | (auto simp: reads_simps; fail)[1])+

lemma contract_grad_depth_to_space: "rule_contract grad_depth_to_space"
  unfolding grad_depth_to_space_def Let_def
  by (rule rule_contractI) (rule emit_lift_bnd emit_bnd emit_intros | (auto simp: reads_simps; fail)[1])+

lemma contract_grad_expand: "rule_contract grad_expand"
  unfolding grad_expand_def
  by (rule rule_contractI)
    (rule emit_lift_bnd emit_bnd emit_builder_initializer emit_intros | (auto simp: reads_simps; fail)[1])+

lemma emit_slice_step: "out \<in> S \<Longrightarrow> emits K S (slice_step E rank specs out ad) (\<lambda>x. {x})"
  unfolding slice_step_def Let_def
  by (rule emit_lift_bnd emit_bnd emit_intros | (auto; fail)[1])+

lemma contract_grad_slice: "rule_contract grad_slice"
  unfolding grad_slice_def Let_def
  by (rule rule_contractI)
    (rule emit_lift_bnd emit_bnd emit_intros emit_foldM emit_slice_step | (auto simp: reads_simps; fail)[1])+

lemma emit_pad_step: "out \<in> S \<Longrightarrow> emits K S (pad_step out spec) (\<lambda>x. {x})"
  unfolding pad_step_def
  by (rule emit_lift_bnd emit_bnd emit_intros | (auto; fail)[1])+

lemma contract_grad_pad: "rule_contract grad_pad"
  unfolding grad_pad_def Let_def
  by (rule rule_contractI)
    (rule emit_lift_bnd emit_bnd emit_intros emit_foldM emit_pad_step | (auto simp: reads_simps; fail)[1])+

lemma emit_concat_step:
  "g \<in> S \<Longrightarrow> somes (fst acc) \<subseteq> S \<Longrightarrow>
     emits K S (concat_step C axis g acc inp) (\<lambda>r. somes (fst r))"
  unfolding concat_step_def
  by (rule emit_lift_bnd emit_bnd emit_intros | (auto; fail)[1])+

lemma contract_grad_concat: "rule_contract grad_concat"
  unfolding grad_concat_def
  by (rule rule_contractI)
    (rule emit_lift_bnd emit_bnd emit_intros emit_foldM emit_concat_step | (auto simp: reads_simps; fail)[1])+

lemma emit_split_step:
  "set_option (fst acc) \<subseteq> S \<Longrightarrow> set_option (fst gz) \<subseteq> S \<Longrightarrow>
     emits K S (split_step E idp perm width acc gz) (\<lambda>r. set_option (fst r))"
  unfolding split_step_def
  by (rule emit_lift_bnd emit_bnd_name emit_bnd emit_intros | (auto; fail)[1])+

lemma contract_grad_split: "multi_contract grad_split"
  unfolding grad_split_def Let_def
  by (rule multi_contractI)
    (rule emit_lift_bnd emit_bnd_name emit_bnd emit_intros emit_foldM emit_split_step | (auto simp: reads_simps somes_def dest: set_zip_leftD; fail)[1])+

lemma contract_grad_inference_dropout: "multi_contract grad_inference_dropout"
  unfolding grad_inference_dropout_def
  by (rule multi_contractI)
    (rule emit_lift_bnd emit_bnd_name emit_bnd emit_intros | (auto simp: reads_simps somes_def; fail)[1])+

end
