(* ===== verification/Index_Geometry.thy ===== *)
theory Index_Geometry
  imports Rules_Shape
begin

text \<open>
  The constant index tables of \<open>onnxsim/graph_grad.py\<close> behind the convolution and pooling rules:
  row-major coordinates (\<open>_unflatten\<close>), the im2col table (which input element each kern tap of
  each output position reads) and the col2im table (which output position wrote a given input
  element through a given tap).  The lemmas show that both tables only hold legal indices, that
  each is the inverse of the other, and that gathering through col2im is the adjoint of gathering
  through im2col, which is why the convolution rule needs no scatter.
\<close>

section \<open>Row-major coordinates\<close>

text \<open>The loop over \<open>reversed(range(len(dims)))\<close>, on the reversed dimensions.\<close>

fun unflatten_rev :: "int \<Rightarrow> int list \<Rightarrow> int list" where
  "unflatten_rev index [] = []"
| "unflatten_rev index (d # ds) = index mod d # unflatten_rev (index div d) ds"

definition unflatten :: "int \<Rightarrow> int list \<Rightarrow> int list" where
  "unflatten index dims = rev (unflatten_rev index (rev dims))"

text \<open>The accumulation \<open>flat = flat * dims[axis] + pos\<close>.\<close>

definition flatten :: "int list \<Rightarrow> int list \<Rightarrow> int" where
  "flatten dims coords = foldl (\<lambda>flat (d, p). flat * d + p) 0 (zip dims coords)"

definition in_box :: "int list \<Rightarrow> int list \<Rightarrow> bool" where
  "in_box dims coords \<longleftrightarrow> list_all2 (\<lambda>d p. 0 \<le> p \<and> p < d) dims coords"

lemma length_unflatten_rev [simp]: "length (unflatten_rev index ds) = length ds"
  by (induction ds arbitrary: index) auto

lemma length_unflatten [simp]: "length (unflatten index ds) = length ds"
  by (simp add: unflatten_def)

lemma unflatten_snoc: "unflatten index (ds @ [d]) = unflatten (index div d) ds @ [index mod d]"
  by (simp add: unflatten_def)

lemma unflatten_Nil [simp]: "unflatten index [] = []"
  by (simp add: unflatten_def)

lemma flatten_Nil [simp]: "flatten [] ps = 0" "flatten ds [] = 0"
  by (simp_all add: flatten_def)

lemma flatten_snoc:
  "length ds = length ps \<Longrightarrow> flatten (ds @ [d]) (ps @ [p]) = flatten ds ps * d + p"
  by (simp add: flatten_def)

lemma in_box_snoc:
  "length ds = length ps \<Longrightarrow> in_box (ds @ [d]) (ps @ [p]) \<longleftrightarrow> in_box ds ps \<and> 0 \<le> p \<and> p < d"
  by (auto simp: in_box_def list_all2_append)

lemma in_box_length: "in_box ds ps \<Longrightarrow> length ps = length ds"
  by (simp add: in_box_def list_all2_lengthD)

lemma in_box_Nil [simp]: "in_box [] ps \<longleftrightarrow> ps = []"
  by (simp add: in_box_def)

text \<open>Flattening is a bijection between the box and the flat range.\<close>

lemma flatten_bounds: "in_box ds ps \<Longrightarrow> 0 \<le> flatten ds ps \<and> flatten ds ps < prod_list ds"
proof (induction ds arbitrary: ps rule: rev_induct)
  case Nil
  then show ?case by simp
next
  case (snoc d ds)
  then obtain ps' p where ps: "ps = ps' @ [p]" "length ps' = length ds"
    by (metis in_box_length length_append_singleton length_Suc_conv_rev)
  with snoc.prems have p: "0 \<le> p" "p < d" and "in_box ds ps'"
    by (auto simp: in_box_snoc)
  with snoc.IH have b: "0 \<le> flatten ds ps'" "flatten ds ps' + 1 \<le> prod_list ds" by fastforce+
  have "flatten ds ps' * d + p < (flatten ds ps' + 1) * d" using p by (simp add: distrib_right)
  also have "\<dots> \<le> prod_list ds * d" using b p by (intro mult_right_mono) auto
  finally show ?case using ps p b by (simp add: flatten_snoc mult.commute)
qed

lemma unflatten_flatten: "in_box ds ps \<Longrightarrow> unflatten (flatten ds ps) ds = ps"
proof (induction ds arbitrary: ps rule: rev_induct)
  case Nil
  then show ?case by simp
next
  case (snoc d ds)
  then obtain ps' p where ps: "ps = ps' @ [p]" "length ps' = length ds"
    by (metis in_box_length length_append_singleton length_Suc_conv_rev)
  with snoc.prems have "0 \<le> p" "p < d" "in_box ds ps'" by (auto simp: in_box_snoc)
  with snoc.IH ps show ?case by (simp add: flatten_snoc unflatten_snoc)
qed

lemma div_less_prod:
  fixes d :: int
  assumes "0 < d" and "index < d * n" shows "index div d < n"
proof (rule ccontr)
  assume "\<not> index div d < n"
  then have "d * n \<le> d * (index div d)" using assms(1) by simp
  also have "\<dots> \<le> index" using assms(1) by (simp add: minus_mod_eq_mult_div [symmetric])
  finally show False using assms(2) by simp
qed

lemma in_box_unflatten:
  "0 \<le> index \<Longrightarrow> index < prod_list ds \<Longrightarrow> \<forall>d \<in> set ds. 0 < d \<Longrightarrow> in_box ds (unflatten index ds)"
proof (induction ds arbitrary: index rule: rev_induct)
  case Nil
  then show ?case by simp
next
  case (snoc d ds)
  then have "0 < d" by simp
  with snoc.prems have "0 \<le> index div d" "index div d < prod_list ds"
    by (auto simp: pos_imp_zdiv_nonneg_iff mult.commute intro: div_less_prod)
  with snoc \<open>0 < d\<close> show ?case by (simp add: unflatten_snoc in_box_snoc)
qed

lemma flatten_unflatten:
  "0 \<le> index \<Longrightarrow> index < prod_list ds \<Longrightarrow> \<forall>d \<in> set ds. 0 < d \<Longrightarrow> flatten ds (unflatten index ds) = index"
proof (induction ds arbitrary: index rule: rev_induct)
  case Nil
  then show ?case by simp
next
  case (snoc d ds)
  then have "0 < d" by simp
  with snoc.prems have "0 \<le> index div d" "index div d < prod_list ds"
    by (auto simp: pos_imp_zdiv_nonneg_iff mult.commute intro: div_less_prod)
  with snoc \<open>0 < d\<close> show ?case by (simp add: unflatten_snoc flatten_snoc)
qed

section \<open>The two tables\<close>

text \<open>
  Along one axis: the input position that tap \<open>t\<close> of output position \<open>o\<close> reads, and the output
  position whose tap \<open>t\<close> reads input position \<open>p\<close> (meaningful when the division is exact).
\<close>

record window =
  w_strides :: "int list"
  w_dilations :: "int list"
  w_pads :: "int list"

definition read_positions :: "window \<Rightarrow> int list \<Rightarrow> int list \<Rightarrow> int list" where
  "read_positions w taps pos =
     map (\<lambda>(t, o', s, d, p). t * d + o' * s - p)
       (zip taps (zip pos (zip (w_strides w) (zip (w_dilations w) (w_pads w)))))"

definition shifted_positions :: "window \<Rightarrow> int list \<Rightarrow> int list \<Rightarrow> int list" where
  "shifted_positions w taps pos =
     map (\<lambda>(t, i, s, d, p). i + p - t * d)
       (zip taps (zip pos (zip (w_strides w) (zip (w_dilations w) (w_pads w)))))"

definition write_positions :: "window \<Rightarrow> int list \<Rightarrow> int list \<Rightarrow> int list" where
  "write_positions w taps pos =
     map (\<lambda>(sh, s). sh div s) (zip (shifted_positions w taps pos) (w_strides w))"

definition divisible :: "window \<Rightarrow> int list \<Rightarrow> int list \<Rightarrow> bool" where
  "divisible w taps pos =
     list_all2 (\<lambda>sh s. sh mod s = 0) (shifted_positions w taps pos) (w_strides w)"

definition im2col_entry :: "int list \<Rightarrow> int list \<Rightarrow> int list \<Rightarrow> window \<Rightarrow> int \<Rightarrow> int \<Rightarrow> int \<times> bool" where
  "im2col_entry in_dims out_dims kern w t o' =
     (let pos = read_positions w (unflatten t kern) (unflatten o' out_dims);
          valid = in_box in_dims pos
      in (if valid then flatten in_dims pos else 0, valid))"

definition col2im_entry :: "int list \<Rightarrow> int list \<Rightarrow> int list \<Rightarrow> window \<Rightarrow> int \<Rightarrow> int \<Rightarrow> int \<times> bool" where
  "col2im_entry in_dims out_dims kern w t i =
     (let taps = unflatten t kern; pos = unflatten i in_dims;
          out = write_positions w taps pos;
          valid = (divisible w taps pos \<and> in_box out_dims out)
      in (if valid then flatten out_dims out else 0, valid))"

text \<open>The tables, flattened in tap-major order, with their 0/1 masks.\<close>

definition pairs :: "int \<Rightarrow> int \<Rightarrow> (int \<times> int) list" where
  "pairs taps n = concat (map (\<lambda>t. map (\<lambda>k. (t, k)) (range_int 0 n)) (range_int 0 taps))"

definition im2col_indices ::
  "int list \<Rightarrow> int list \<Rightarrow> int list \<Rightarrow> window \<Rightarrow> int list \<times> real list" where
  "im2col_indices in_dims out_dims kern w =
     (let entries = map (\<lambda>(t, k). im2col_entry in_dims out_dims kern w t k)
                      (pairs (prod_list kern) (prod_list out_dims))
      in (map fst entries, map (\<lambda>e. of_bool (snd e)) entries))"

definition col2im_indices ::
  "int list \<Rightarrow> int list \<Rightarrow> int list \<Rightarrow> window \<Rightarrow> int \<Rightarrow> int list \<times> real list" where
  "col2im_indices in_dims out_dims kern w tap_offset =
     (let entries = map (\<lambda>(t, k). (t, col2im_entry in_dims out_dims kern w t k))
                      (pairs (prod_list kern) (prod_list in_dims))
      in (map (\<lambda>(t, e). fst e + t * tap_offset) entries, map (\<lambda>(t, e). of_bool (snd e)) entries))"

section \<open>Shape of the tables\<close>

definition window_ok :: "window \<Rightarrow> nat \<Rightarrow> bool" where
  "window_ok w n \<longleftrightarrow> length (w_strides w) = n \<and> length (w_dilations w) = n \<and> length (w_pads w) = n \<and>
     (\<forall>s \<in> set (w_strides w). 1 \<le> s)"

lemma pairs_nth:
  assumes "0 \<le> t" "t < taps" "0 \<le> k" "k < n"
  shows "pairs taps n ! nat (t * n + k) = (t, k)"
proof -
  have "nat (t * n + k) = nat t * nat n + nat k"
    using assms by (simp add: nat_add_distrib nat_mult_distrib)
  moreover have "pairs taps n ! (nat t * nat n + nat k) =
      map (\<lambda>k. (range_int 0 taps ! nat t, k)) (range_int 0 n) ! nat k"
    unfolding pairs_def using assms by (intro concat_map_nth) auto
  ultimately show ?thesis
    using assms by (simp add: range_int_nth)
qed

lemma length_pairs [simp]: "length (pairs taps n) = nat taps * nat n"
  unfolding pairs_def by (subst length_concat_replicate_const [where n = "nat n"]) auto

lemma set_pairs: "set (pairs taps n) = {0..<taps} \<times> {0..<n}"
  by (auto simp: pairs_def set_range_int)

lemma im2col_length:
  "length (fst (im2col_indices in_dims out_dims kern w)) = nat (prod_list kern) * nat (prod_list out_dims)"
  "length (snd (im2col_indices in_dims out_dims kern w)) = nat (prod_list kern) * nat (prod_list out_dims)"
  by (simp_all add: im2col_indices_def Let_def)

lemma col2im_length:
  "length (fst (col2im_indices in_dims out_dims kern w off)) = nat (prod_list kern) * nat (prod_list in_dims)"
  "length (snd (col2im_indices in_dims out_dims kern w off)) = nat (prod_list kern) * nat (prod_list in_dims)"
  by (simp_all add: col2im_indices_def Let_def)

lemma im2col_nth:
  assumes "0 \<le> t" "t < prod_list kern" "0 \<le> k" "k < prod_list out_dims"
  shows "fst (im2col_indices in_dims out_dims kern w) ! nat (t * prod_list out_dims + k) =
           fst (im2col_entry in_dims out_dims kern w t k)"
    and "snd (im2col_indices in_dims out_dims kern w) ! nat (t * prod_list out_dims + k) =
           of_bool (snd (im2col_entry in_dims out_dims kern w t k))"
proof -
  have "t * prod_list out_dims + k < (t + 1) * prod_list out_dims"
    using assms by (simp add: distrib_right)
  also have "\<dots> \<le> prod_list kern * prod_list out_dims"
    using assms by (intro mult_right_mono) auto
  finally have "nat (t * prod_list out_dims + k) < nat (prod_list kern) * nat (prod_list out_dims)"
    using assms by (simp flip: nat_mult_distrib) 
  then show "fst (im2col_indices in_dims out_dims kern w) ! nat (t * prod_list out_dims + k) =
           fst (im2col_entry in_dims out_dims kern w t k)"
    and "snd (im2col_indices in_dims out_dims kern w) ! nat (t * prod_list out_dims + k) =
           of_bool (snd (im2col_entry in_dims out_dims kern w t k))"
    using assms by (simp_all add: im2col_indices_def Let_def pairs_nth)
qed

section \<open>The tables are inverse to each other\<close>

lemma axis_inverse:
  fixes s :: int
  assumes "1 \<le> s"
  shows "t * d + k * s - q = i \<longleftrightarrow> (i + q - t * d) mod s = 0 \<and> (i + q - t * d) div s = k"
proof
  assume "t * d + k * s - q = i"
  then have "i + q - t * d = k * s" by simp
  with assms show "(i + q - t * d) mod s = 0 \<and> (i + q - t * d) div s = k" by simp
next
  assume a: "(i + q - t * d) mod s = 0 \<and> (i + q - t * d) div s = k"
  then have "k * s = i + q - t * d" by auto
  then show "t * d + k * s - q = i" by simp
qed

lemma length_positions [simp]:
  "window_ok w n \<Longrightarrow> length taps = n \<Longrightarrow> length pos = n \<Longrightarrow> length (read_positions w taps pos) = n"
  "window_ok w n \<Longrightarrow> length taps = n \<Longrightarrow> length pos = n \<Longrightarrow> length (shifted_positions w taps pos) = n"
  "window_ok w n \<Longrightarrow> length taps = n \<Longrightarrow> length pos = n \<Longrightarrow> length (write_positions w taps pos) = n"
  by (simp_all add: window_ok_def read_positions_def shifted_positions_def write_positions_def)

lemma positions_nth:
  assumes "window_ok w n" and "length taps = n" "length pos = n" and "a < n"
  shows "read_positions w taps pos ! a =
           taps ! a * w_dilations w ! a + pos ! a * w_strides w ! a - w_pads w ! a"
    and "shifted_positions w taps pos ! a = pos ! a + w_pads w ! a - taps ! a * w_dilations w ! a"
    and "write_positions w taps pos ! a =
           (pos ! a + w_pads w ! a - taps ! a * w_dilations w ! a) div w_strides w ! a"
  using assms
  by (simp_all add: window_ok_def read_positions_def shifted_positions_def write_positions_def)

lemma list_eq_upto: "length xs = n \<Longrightarrow> length ys = n \<Longrightarrow> xs = ys \<longleftrightarrow> (\<forall>a<n. xs ! a = ys ! a)"
  by (auto intro: nth_equalityI)

lemma divisible_iff:
  assumes "window_ok w n" and "length taps = n" "length pos = n"
  shows "divisible w taps pos \<longleftrightarrow>
    (\<forall>a<n. (pos ! a + w_pads w ! a - taps ! a * w_dilations w ! a) mod w_strides w ! a = 0)"
proof -
  have "length (w_strides w) = n" using assms by (simp add: window_ok_def)
  then show ?thesis
    unfolding divisible_def list_all2_conv_all_nth
    using positions_nth(2) [OF assms] length_positions(2) [OF assms] by simp
qed

lemma read_iff_write:
  assumes w: "window_ok w n" and len: "length taps = n" "length outs = n" "length ins = n"
  shows "read_positions w taps outs = ins \<longleftrightarrow>
           divisible w taps ins \<and> write_positions w taps ins = outs"
proof -
  have stride: "1 \<le> w_strides w ! a" if "a < n" for a
    using w that by (auto simp: window_ok_def)
  have "read_positions w taps outs = ins \<longleftrightarrow>
      (\<forall>a<n. taps ! a * w_dilations w ! a + outs ! a * w_strides w ! a - w_pads w ! a = ins ! a)"
    using positions_nth(1) [OF w len(1,2)]
    by (simp add: list_eq_upto [OF length_positions(1) [OF w len(1,2)] len(3)])
  also have "\<dots> \<longleftrightarrow> (\<forall>a<n. (ins ! a + w_pads w ! a - taps ! a * w_dilations w ! a) mod w_strides w ! a = 0)
      \<and> (\<forall>a<n. (ins ! a + w_pads w ! a - taps ! a * w_dilations w ! a) div w_strides w ! a = outs ! a)"
    using axis_inverse [OF stride] by blast
  also have "\<dots> \<longleftrightarrow> divisible w taps ins \<and> write_positions w taps ins = outs"
    unfolding divisible_iff [OF w len(1,3)]
      list_eq_upto [OF length_positions(3) [OF w len(1,3)] len(2)]
    using positions_nth(3) [OF w len(1,3)] by simp
  finally show ?thesis .
qed

text \<open>A box of positive sides with a number of axes.\<close>

definition box_dims :: "int list \<Rightarrow> nat \<Rightarrow> bool" where
  "box_dims ds n \<longleftrightarrow> length ds = n \<and> (\<forall>d \<in> set ds. 0 < d)"

lemma flat_iff:
  assumes "box_dims ds n" and "0 \<le> k" "k < prod_list ds"
  shows "in_box ds ps \<and> flatten ds ps = k \<longleftrightarrow> ps = unflatten k ds"
  using assms unflatten_flatten flatten_unflatten in_box_unflatten by (auto simp: box_dims_def)

lemma entry_inverse:
  assumes w: "window_ok w n" and dims: "box_dims in_dims n" "box_dims out_dims n" "length kern = n"
    and k: "0 \<le> k" "k < prod_list out_dims" and i: "0 \<le> i" "i < prod_list in_dims"
  shows "im2col_entry in_dims out_dims kern w t k = (i, True) \<longleftrightarrow>
           col2im_entry in_dims out_dims kern w t i = (k, True)"
proof -
  let ?T = "unflatten t kern" and ?O = "unflatten k out_dims" and ?I = "unflatten i in_dims"
  have lens: "length ?T = n" "length ?O = n" "length ?I = n"
    using dims by (simp_all add: box_dims_def)
  have "im2col_entry in_dims out_dims kern w t k = (i, True) \<longleftrightarrow> read_positions w ?T ?O = ?I"
    using flat_iff [OF dims(1) i, of "read_positions w ?T ?O"] by (auto simp: im2col_entry_def Let_def)
  also have "\<dots> \<longleftrightarrow> divisible w ?T ?I \<and> write_positions w ?T ?I = ?O"
    by (rule read_iff_write [OF w lens(1,2,3)])
  also have "\<dots> \<longleftrightarrow> col2im_entry in_dims out_dims kern w t i = (k, True)"
    using flat_iff [OF dims(2) k, of "write_positions w ?T ?I"] by (auto simp: col2im_entry_def Let_def)
  finally show ?thesis .
qed

lemma im2col_entry_bounds:
  assumes "box_dims in_dims n"
  shows "0 \<le> fst (im2col_entry in_dims out_dims kern w t k) \<and>
         fst (im2col_entry in_dims out_dims kern w t k) < prod_list in_dims"
proof -
  have "0 < prod_list in_dims"
    using assms unfolding box_dims_def by (induction in_dims arbitrary: n) auto
  then show ?thesis
    using flatten_bounds by (auto simp: im2col_entry_def Let_def)
qed

lemma col2im_entry_bounds:
  assumes "box_dims out_dims n"
  shows "0 \<le> fst (col2im_entry in_dims out_dims kern w t i) \<and>
         fst (col2im_entry in_dims out_dims kern w t i) < prod_list out_dims"
proof -
  have "0 < prod_list out_dims"
    using assms unfolding box_dims_def by (induction out_dims arbitrary: n) auto
  then show ?thesis
    using flatten_bounds by (auto simp: col2im_entry_def Let_def)
qed

text \<open>
  Gathering through im2col and gathering through col2im are adjoint, tap by tap: pairing the
  gathered \<open>x\<close> with \<open>c\<close> over the output positions equals pairing \<open>x\<close> with the gathered \<open>c\<close> over the
  input positions.
\<close>

lemma tap_adjoint:
  fixes x :: "int \<Rightarrow> real" and c :: "int \<Rightarrow> real" and t :: int
  assumes w: "window_ok w n" and dims: "box_dims in_dims n" "box_dims out_dims n" "length kern = n"
  defines "f \<equiv> im2col_entry in_dims out_dims kern w t" and "b \<equiv> col2im_entry in_dims out_dims kern w t"
  shows "(\<Sum>k\<in>{0..<prod_list out_dims}. c k * (of_bool (snd (f k)) * x (fst (f k)))) =
         (\<Sum>i\<in>{0..<prod_list in_dims}. x i * (of_bool (snd (b i)) * c (fst (b i))))"
proof -
  let ?O = "{0..<prod_list out_dims}" and ?I = "{0..<prod_list in_dims}"
  have fk: "c k * (of_bool (snd (f k)) * x (fst (f k))) =
      (\<Sum>i\<in>?I. if f k = (i, True) then c k * x i else 0)" if "k \<in> ?O" for k
  proof (cases "snd (f k)")
    case True
    have "fst (f k) \<in> ?I" using im2col_entry_bounds [OF dims(1)] by (auto simp: f_def)
    moreover have "f k = (i, True) \<longleftrightarrow> fst (f k) = i" for i using True by (cases "f k") auto
    ultimately show ?thesis using True by simp
  next
    case False
    then have "f k \<noteq> (i, True)" for i by auto
    with False show ?thesis by simp
  qed
  have bi: "x i * (of_bool (snd (b i)) * c (fst (b i))) =
      (\<Sum>k\<in>?O. if b i = (k, True) then c k * x i else 0)" if "i \<in> ?I" for i
  proof (cases "snd (b i)")
    case True
    have "fst (b i) \<in> ?O" using col2im_entry_bounds [OF dims(2)] by (auto simp: b_def)
    moreover have "b i = (k, True) \<longleftrightarrow> fst (b i) = k" for k using True by (cases "b i") auto
    ultimately show ?thesis using True by simp
  next
    case False
    then have "b i \<noteq> (k, True)" for k by auto
    with False show ?thesis by simp
  qed
  have "f k = (i, True) \<longleftrightarrow> b i = (k, True)" if "k \<in> ?O" "i \<in> ?I" for k i
    unfolding f_def b_def using that by (intro entry_inverse [OF w dims]) auto
  then have "(\<Sum>k\<in>?O. \<Sum>i\<in>?I. if f k = (i, True) then c k * x i else 0) =
      (\<Sum>k\<in>?O. \<Sum>i\<in>?I. if b i = (k, True) then c k * x i else 0)"
    by (intro sum.cong refl) simp
  also have "\<dots> = (\<Sum>i\<in>?I. \<Sum>k\<in>?O. if b i = (k, True) then c k * x i else 0)"
    by (rule sum.swap)
  finally show ?thesis using fk bi by simp
qed

lemma col2im_nth:
  assumes "0 \<le> t" "t < prod_list kern" "0 \<le> k" "k < prod_list in_dims"
  shows "fst (col2im_indices in_dims out_dims kern w off) ! nat (t * prod_list in_dims + k) =
           fst (col2im_entry in_dims out_dims kern w t k) + t * off"
    and "snd (col2im_indices in_dims out_dims kern w off) ! nat (t * prod_list in_dims + k) =
           of_bool (snd (col2im_entry in_dims out_dims kern w t k))"
proof -
  have "t * prod_list in_dims + k < (t + 1) * prod_list in_dims"
    using assms by (simp add: distrib_right)
  also have "\<dots> \<le> prod_list kern * prod_list in_dims"
    using assms by (intro mult_right_mono) auto
  finally have "nat (t * prod_list in_dims + k) < nat (prod_list kern) * nat (prod_list in_dims)"
    using assms by (simp flip: nat_mult_distrib)
  then show "fst (col2im_indices in_dims out_dims kern w off) ! nat (t * prod_list in_dims + k) =
           fst (col2im_entry in_dims out_dims kern w t k) + t * off"
    and "snd (col2im_indices in_dims out_dims kern w off) ! nat (t * prod_list in_dims + k) =
           of_bool (snd (col2im_entry in_dims out_dims kern w t k))"
    using assms by (simp_all add: col2im_indices_def Let_def pairs_nth)
qed

section \<open>Properties of the tables\<close>

lemma flat_pair_bounds:
  fixes t :: int
  assumes "j < nat taps * nat n"
  shows "\<exists>t k. 0 \<le> t \<and> t < taps \<and> 0 \<le> k \<and> k < n \<and> j = nat (t * n + k)"
proof -
  from assms have pos: "0 < taps" "0 < n" by (auto intro: ccontr)
  then have "int j < taps * n" using assms by (simp flip: nat_mult_distrib add: nat_less_iff zless_nat_eq_int_zless)
  then have "int j div n < taps" using pos by (intro div_less_prod) (simp_all add: mult.commute)
  moreover have "int j = int j div n * n + int j mod n" by simp
  ultimately show ?thesis
    using pos by (intro exI [of _ "int j div n"] exI [of _ "int j mod n"])
      (simp add: pos_imp_zdiv_nonneg_iff)
qed

text \<open>
  C6.  The two index tables are inverse to each other: output position \<open>k\<close> reads input element \<open>i\<close>
  through tap \<open>t\<close> (the im2col table points there with mask 1) exactly when input element \<open>i\<close> was
  written by output position \<open>k\<close> through tap \<open>t\<close> (the col2im table points back with mask 1).
\<close>

theorem im2col_col2im_inverse:
  assumes "window_ok w n" "box_dims in_dims n" "box_dims out_dims n" "length kern = n"
    and "0 \<le> t" "t < prod_list kern" "0 \<le> k" "k < prod_list out_dims" "0 \<le> i" "i < prod_list in_dims"
  shows "(fst (im2col_indices in_dims out_dims kern w) ! nat (t * prod_list out_dims + k) = i \<and>
          snd (im2col_indices in_dims out_dims kern w) ! nat (t * prod_list out_dims + k) = 1) \<longleftrightarrow>
         (fst (col2im_indices in_dims out_dims kern w 0) ! nat (t * prod_list in_dims + i) = k \<and>
          snd (col2im_indices in_dims out_dims kern w 0) ! nat (t * prod_list in_dims + i) = 1)"
proof -
  have "(fst e = x \<and> of_bool (snd e) = (1 :: real)) \<longleftrightarrow> e = (x, True)" for e :: "int \<times> bool" and x
    by (cases e) auto
  then show ?thesis
    using im2col_nth [OF assms(5-8), of in_dims w] col2im_nth [OF assms(5,6,9,10), of out_dims w 0]
      entry_inverse [OF assms(1-4,7-10), of t] by simp
qed

theorem im2col_col2im_inverse_witness:
  "(fst (im2col_indices [4] [2] [3] \<lparr>w_strides = [2], w_dilations = [1], w_pads = [1]\<rparr>) ! nat (2 * prod_list [2] + 1) = 3 \<and>
    snd (im2col_indices [4] [2] [3] \<lparr>w_strides = [2], w_dilations = [1], w_pads = [1]\<rparr>) ! nat (2 * prod_list [2] + 1) = 1) \<longleftrightarrow>
   (fst (col2im_indices [4] [2] [3] \<lparr>w_strides = [2], w_dilations = [1], w_pads = [1]\<rparr> 0) ! nat (2 * prod_list [4] + 3) = 1 \<and>
    snd (col2im_indices [4] [2] [3] \<lparr>w_strides = [2], w_dilations = [1], w_pads = [1]\<rparr> 0) ! nat (2 * prod_list [4] + 3) = 1)"
  by (rule im2col_col2im_inverse [where n = 1]) (simp_all add: window_ok_def box_dims_def)

text \<open>
  C8.  Every entry of both tables is a legal index, so no gather the rules emit reads out of range:
  im2col entries index the input, and col2im entries, offset by \<open>tap_offset\<close> per tap as the
  max-pooling rule uses them, stay inside their own tap's block.
\<close>

theorem index_tables_in_range:
  assumes "box_dims in_dims n" "box_dims out_dims n"
  shows "(\<forall>i \<in> set (fst (im2col_indices in_dims out_dims kern w)). 0 \<le> i \<and> i < prod_list in_dims) \<and>
         (\<forall>j < length (fst (col2im_indices in_dims out_dims kern w off)).
            let t = int j div prod_list in_dims; i = fst (col2im_indices in_dims out_dims kern w off) ! j
            in t * off \<le> i \<and> i < t * off + prod_list out_dims)"
proof (intro conjI ballI allI impI)
  fix i
  assume "i \<in> set (fst (im2col_indices in_dims out_dims kern w))"
  then obtain t k where "i = fst (im2col_entry in_dims out_dims kern w t k)"
    by (auto simp: im2col_indices_def Let_def)
  with im2col_entry_bounds [OF assms(1)] show "0 \<le> i" "i < prod_list in_dims" by auto
next
  fix j
  assume "j < length (fst (col2im_indices in_dims out_dims kern w off))"
  then have "j < nat (prod_list kern) * nat (prod_list in_dims)" by (simp only: col2im_length)
  from flat_pair_bounds [OF this]
  obtain t k where tk: "0 \<le> t" "t < prod_list kern" "0 \<le> k" "k < prod_list in_dims"
      and j: "j = nat (t * prod_list in_dims + k)"
    by blast
  have "0 \<le> t * prod_list in_dims" using tk by simp
  then have "int j div prod_list in_dims = t" using tk by (simp add: j)
  then show "let t = int j div prod_list in_dims; i = fst (col2im_indices in_dims out_dims kern w off) ! j
      in t * off \<le> i \<and> i < t * off + prod_list out_dims"
    using col2im_nth(1) [OF tk, of out_dims w off] col2im_entry_bounds [OF assms(2), of in_dims kern w t k]
    by (simp add: j Let_def)
qed

theorem index_tables_in_range_witness:
  "set (fst (im2col_indices [4] [2] [3] \<lparr>w_strides = [2], w_dilations = [1], w_pads = [1]\<rparr>)) \<subseteq> {0..<4} \<and>
   list_all (\<lambda>j. let t = int j div 4; i = fst (col2im_indices [4] [2] [3] \<lparr>w_strides = [2], w_dilations = [1], w_pads = [1]\<rparr> 2) ! j
      in t * 2 \<le> i \<and> i < t * 2 + 2)
     [0..<length (fst (col2im_indices [4] [2] [3] \<lparr>w_strides = [2], w_dilations = [1], w_pads = [1]\<rparr> 2))]"
  using index_tables_in_range [of "[4]" 1 "[2]" "[3]" "\<lparr>w_strides = [2], w_dilations = [1], w_pads = [1]\<rparr>" 2]
  by (auto simp: box_dims_def list_all_iff Let_def)

text \<open>
  C7.  Gathering through col2im is the adjoint of gathering through im2col: pairing any \<open>c\<close> (one
  value per tap and output position) with the masked im2col gather of \<open>x\<close> gives the same number as
  pairing \<open>x\<close> with the sum over the taps of the masked col2im gather of \<open>c\<close>.  This is what lets the
  convolution and pooling rules scatter with a gather.
\<close>

theorem col2im_adjoint:
  fixes x :: "int \<Rightarrow> real" and c :: "int \<Rightarrow> int \<Rightarrow> real"
  assumes "window_ok w n" "box_dims in_dims n" "box_dims out_dims n" "length kern = n"
  shows "(\<Sum>t\<in>{0..<prod_list kern}. \<Sum>k\<in>{0..<prod_list out_dims}.
            c t k * (snd (im2col_indices in_dims out_dims kern w) ! nat (t * prod_list out_dims + k) *
                     x (fst (im2col_indices in_dims out_dims kern w) ! nat (t * prod_list out_dims + k)))) =
         (\<Sum>i\<in>{0..<prod_list in_dims}. x i * (\<Sum>t\<in>{0..<prod_list kern}.
            snd (col2im_indices in_dims out_dims kern w 0) ! nat (t * prod_list in_dims + i) *
            c t (fst (col2im_indices in_dims out_dims kern w 0) ! nat (t * prod_list in_dims + i))))"
proof -
  let ?f = "im2col_entry in_dims out_dims kern w" and ?b = "col2im_entry in_dims out_dims kern w"
  let ?T = "{0..<prod_list kern}" and ?O = "{0..<prod_list out_dims}" and ?I = "{0..<prod_list in_dims}"
  have "(\<Sum>t\<in>?T. \<Sum>k\<in>?O. c t k * (of_bool (snd (?f t k)) * x (fst (?f t k)))) =
      (\<Sum>t\<in>?T. \<Sum>i\<in>?I. x i * (of_bool (snd (?b t i)) * c t (fst (?b t i))))"
    by (intro sum.cong refl tap_adjoint [OF assms])
  also have "\<dots> = (\<Sum>i\<in>?I. x i * (\<Sum>t\<in>?T. of_bool (snd (?b t i)) * c t (fst (?b t i))))"
    by (subst sum.swap) (simp only: sum_distrib_left)
  finally show ?thesis
    by (simp add: im2col_nth col2im_nth)
qed

theorem col2im_adjoint_witness:
  "(\<Sum>t\<in>{0..<prod_list [3]}. \<Sum>k\<in>{0..<prod_list [2]}.
      real_of_int (t + k) * (snd (im2col_indices [4] [2] [3] \<lparr>w_strides = [2], w_dilations = [1], w_pads = [1]\<rparr>) ! nat (t * prod_list [2] + k) *
        real_of_int (fst (im2col_indices [4] [2] [3] \<lparr>w_strides = [2], w_dilations = [1], w_pads = [1]\<rparr>) ! nat (t * prod_list [2] + k)))) =
   (\<Sum>i\<in>{0..<prod_list [4]}. real_of_int i * (\<Sum>t\<in>{0..<prod_list [3]}.
      snd (col2im_indices [4] [2] [3] \<lparr>w_strides = [2], w_dilations = [1], w_pads = [1]\<rparr> 0) ! nat (t * prod_list [4] + i) *
      real_of_int (t + fst (col2im_indices [4] [2] [3] \<lparr>w_strides = [2], w_dilations = [1], w_pads = [1]\<rparr> 0) ! nat (t * prod_list [4] + i))))"
  by (rule col2im_adjoint [where n = 1 and x = real_of_int and c = "\<lambda>t k. real_of_int (t + k)"]) (simp_all add: window_ok_def box_dims_def)

end
