(* ===== verification/Conv_Geometry.thy ===== *)
theory Conv_Geometry
  imports Index_Geometry
begin

text \<open>
  \<open>_conv_geometry\<close> and \<open>_pool_geometry\<close> of \<open>onnxsim/graph_grad.py\<close>: the attributes of a
  convolution or pooling node resolved against its shapes, and accepted only when they reproduce
  the node's declared output shape.
\<close>

section \<open>Padding and output size\<close>

definition window_span :: "int \<Rightarrow> int \<Rightarrow> int" where
  "window_span k dil = (k - 1) * dil + 1"

text \<open>\<open>reach // stride + 1 if reach >= 0 else 0\<close>\<close>

definition out_extent :: "int \<Rightarrow> int \<Rightarrow> int \<Rightarrow> int \<Rightarrow> int \<Rightarrow> int" where
  "out_extent n pad_total k stride dil =
     (let reach = n + pad_total - window_span k dil
      in if 0 \<le> reach then reach div stride + 1 else 0)"

text \<open>The total padding of \<open>SAME_UPPER\<close>/\<open>SAME_LOWER\<close>; \<open>-(-n // s)\<close> rounds up.\<close>

definition same_needed :: "int \<Rightarrow> int \<Rightarrow> int \<Rightarrow> int \<Rightarrow> int" where
  "same_needed n k stride dil =
     (let out = - ((- n) div stride) in max 0 ((out - 1) * stride + window_span k dil - n))"

definition same_begin :: "bool \<Rightarrow> int \<Rightarrow> int" where
  "same_begin upper needed = (if upper then needed div 2 else needed - needed div 2)"

text \<open>The begin pads followed by the end pads.\<close>

definition same_pads :: "bool \<Rightarrow> dim list \<Rightarrow> int list \<Rightarrow> int list \<Rightarrow> int list \<Rightarrow> int list res" where
  "same_pads upper sizes kern strides dilations =
     bindE (mapE dim_int sizes) (\<lambda>ns.
     let needed = map (\<lambda>(n, k, s, d). same_needed n k s d) (zip ns (zip kern (zip strides dilations)));
         begins = map (same_begin upper) needed
     in Inr (begins @ map2 (-) needed begins))"

definition resolve_pads ::
  "node \<Rightarrow> dim list \<Rightarrow> int list \<Rightarrow> int list \<Rightarrow> int list \<Rightarrow> int list res" where
  "resolve_pads nd sizes kern strides dilations =
     (let spatial = length sizes; auto_pad = attr_or nd ''auto_pad'' (AStr ''NOTSET'') in
      if auto_pad = AStr ''NOTSET'' then
        bindE (ints_attr nd ''pads'' (replicate (2 * spatial) 0)) (\<lambda>pads.
        bindE (refuse_if (length pads \<noteq> 2 * spatial) UnsupportedOpError) (\<lambda>_. Inr pads))
      else if auto_pad = AStr ''VALID'' then Inr (replicate (2 * spatial) 0)
      else if auto_pad = AStr ''SAME_UPPER'' then same_pads True sizes kern strides dilations
      else if auto_pad = AStr ''SAME_LOWER'' then same_pads False sizes kern strides dilations
      else Inl UnsupportedOpError)"

text \<open>The final loop: axis by axis, the declared output size must be the computed one.\<close>

fun check_extents ::
  "dim list \<Rightarrow> dim list \<Rightarrow> int list \<Rightarrow> int list \<Rightarrow> int list \<Rightarrow> int list \<Rightarrow> int list \<Rightarrow> unit res" where
  "check_extents (x # xs) (y # ys) (k # ks) (s # ss) (d # ds) (p # ps) (q # qs) =
     bindE (dim_int x) (\<lambda>n.
     bindE (dim_int y) (\<lambda>m.
     bindE (refuse_if (out_extent n (p + q) k s d \<noteq> m) UnsupportedOpError) (\<lambda>_.
     check_extents xs ys ks ss ds ps qs)))"
| "check_extents _ _ _ _ _ _ _ = Inr ()"

definition window_params :: "node \<Rightarrow> nat \<Rightarrow> bool \<Rightarrow> (int list \<times> int list) res" where
  "window_params nd spatial has_dilations =
     bindE (ints_attr nd ''strides'' (replicate spatial 1)) (\<lambda>strides.
     bindE (if has_dilations then ints_attr nd ''dilations'' (replicate spatial 1)
            else Inr (replicate spatial 1)) (\<lambda>dilations.
     bindE (refuse_if (length strides \<noteq> spatial \<or> length dilations \<noteq> spatial) UnsupportedOpError) (\<lambda>_.
     bindE (refuse_if ((\<exists>s \<in> set strides. s < 1) \<or> (\<exists>d \<in> set dilations. d < 1))
              UnsupportedOpError) (\<lambda>_.
     Inr (strides, dilations)))))"

section \<open>Convolution\<close>

definition conv_channels :: "node \<Rightarrow> shape \<Rightarrow> shape \<Rightarrow> (int \<times> int) res" where
  "conv_channels nd x_shape w_shape =
     bindE (attr_int (attr_or nd ''group'' (AInt 1))) (\<lambda>group.
     bindE (dim_int (x_shape ! 1)) (\<lambda>channels.
     bindE (dim_int (w_shape ! 0)) (\<lambda>features.
     bindE (refuse_if (group < 1 \<or> channels mod group \<noteq> 0 \<or> features mod group \<noteq> 0)
              UnsupportedOpError) (\<lambda>_.
     bindE (dim_int (w_shape ! 1)) (\<lambda>wc.
     bindE (refuse_if (wc \<noteq> channels div group) UnsupportedOpError) (\<lambda>_.
     Inr (group, features)))))))"

definition conv_kernel :: "node \<Rightarrow> shape \<Rightarrow> int list res" where
  "conv_kernel nd w_shape =
     bindE (mapE dim_int (drop 2 w_shape)) (\<lambda>kern.
     case attr_get nd ''kernel_shape'' of
       None \<Rightarrow> Inr kern
     | Some v \<Rightarrow> bindE (attr_ints v) (\<lambda>declared.
         bindE (refuse_if (declared \<noteq> kern) UnsupportedOpError) (\<lambda>_. Inr kern)))"

definition conv_geometry :: "node \<Rightarrow> shape \<Rightarrow> shape \<Rightarrow> shape \<Rightarrow> (int \<times> int list \<times> window) res" where
  "conv_geometry nd x_shape w_shape y_shape =
     (let rank = length x_shape; spatial = rank - 2 in
      bindE (refuse_if (rank < 3) UnsupportedOpError) (\<lambda>_.
      bindE (refuse_if (length w_shape \<noteq> rank \<or> length y_shape \<noteq> rank) UnsupportedOpError) (\<lambda>_.
      bindE (conv_channels nd x_shape w_shape) (\<lambda>(group, features).
      bindE (conv_kernel nd w_shape) (\<lambda>kern.
      bindE (window_params nd spatial True) (\<lambda>(strides, dilations).
      bindE (resolve_pads nd (drop 2 x_shape) kern strides dilations) (\<lambda>pads.
      bindE (dim_int (y_shape ! 0)) (\<lambda>yb.
      bindE (dim_int (x_shape ! 0)) (\<lambda>xb.
      bindE (refuse_if (yb \<noteq> xb) UnsupportedOpError) (\<lambda>_.
      bindE (dim_int (y_shape ! 1)) (\<lambda>yc.
      bindE (refuse_if (yc \<noteq> features) UnsupportedOpError) (\<lambda>_.
      bindE (check_extents (drop 2 x_shape) (drop 2 y_shape) kern strides dilations
               (take spatial pads) (drop spatial pads)) (\<lambda>_.
      Inr (group, kern,
           \<lparr>w_strides = strides, w_dilations = dilations, w_pads = take spatial pads\<rparr>))))))))))))))"

section \<open>Pooling\<close>

definition pool_kernel :: "node \<Rightarrow> nat \<Rightarrow> int list res" where
  "pool_kernel nd spatial =
     (case attr_get nd ''kernel_shape'' of
        None \<Rightarrow> Inl UnsupportedOpError
      | Some v \<Rightarrow> bindE (attr_ints v) (\<lambda>kern.
          bindE (refuse_if (length kern \<noteq> spatial) UnsupportedOpError) (\<lambda>_. Inr kern)))"

definition pool_geometry :: "node \<Rightarrow> shape \<Rightarrow> shape \<Rightarrow> bool \<Rightarrow> (int list \<times> window) res" where
  "pool_geometry nd x_shape y_shape has_dilations =
     (let rank = length x_shape; spatial = rank - 2 in
      bindE (refuse_if (rank < 3) UnsupportedOpError) (\<lambda>_.
      bindE (refuse_if (length y_shape \<noteq> rank) UnsupportedOpError) (\<lambda>_.
      bindE (dim_int (y_shape ! 0)) (\<lambda>yb.
      bindE (dim_int (x_shape ! 0)) (\<lambda>xb.
      bindE (refuse_if (yb \<noteq> xb) UnsupportedOpError) (\<lambda>_.
      bindE (dim_int (y_shape ! 1)) (\<lambda>yc.
      bindE (dim_int (x_shape ! 1)) (\<lambda>xc.
      bindE (refuse_if (yc \<noteq> xc) UnsupportedOpError) (\<lambda>_.
      bindE (pool_kernel nd spatial) (\<lambda>kern.
      bindE (window_params nd spatial has_dilations) (\<lambda>(strides, dilations).
      bindE (attr_int (attr_or nd ''ceil_mode'' (AInt 0))) (\<lambda>ceil_mode.
      bindE (refuse_if (ceil_mode \<noteq> 0) UnsupportedOpError) (\<lambda>_.
      bindE (resolve_pads nd (drop 2 x_shape) kern strides dilations) (\<lambda>pads.
      bindE (check_extents (drop 2 x_shape) (drop 2 y_shape) kern strides dilations
               (take spatial pads) (drop spatial pads)) (\<lambda>_.
      Inr (kern,
           \<lparr>w_strides = strides, w_dilations = dilations, w_pads = take spatial pads\<rparr>))))))))))))))))"

section \<open>What an accepted geometry satisfies\<close>

lemma window_span_pos: "1 \<le> k \<Longrightarrow> 1 \<le> dil \<Longrightarrow> 1 \<le> window_span k dil"
  by (simp add: window_span_def)

lemma ceil_div_bounds:
  fixes n s :: int
  assumes "1 \<le> s"
  shows "n \<le> - ((- n) div s) * s" and "(- ((- n) div s) - 1) * s < n"
proof -
  have "(- n) div s * s = - n - (- n) mod s" by (rule minus_mod_eq_div_mult [symmetric])
  moreover have "0 \<le> (- n) mod s" "(- n) mod s < s" using assms by simp_all
  ultimately show "n \<le> - ((- n) div s) * s" and "(- ((- n) div s) - 1) * s < n"
    by (simp_all add: left_diff_distrib)
qed

text \<open>\<open>SAME\<close> padding makes the output \<open>ceil(n / stride)\<close> long.\<close>

lemma same_out_extent_aux:
  assumes n: "1 \<le> n" and k: "1 \<le> k" and s: "1 \<le> stride" and d: "1 \<le> dil"
  shows "out_extent n (same_needed n k stride dil) k stride dil = - ((- n) div stride)"
proof -
  define out where "out = - ((- n) div stride)"
  define sp where "sp = window_span k dil"
  have sp: "1 \<le> sp" using window_span_pos [OF k d] by (simp add: sp_def)
  have b: "n \<le> out * stride" "(out - 1) * stride < n"
    using ceil_div_bounds [OF s, of n] by (simp_all add: out_def)
  have "0 < out * stride" using b(1) n by linarith
  with s have "1 \<le> out" by (simp add: zero_less_mult_iff)
  define needed where "needed = max 0 ((out - 1) * stride + sp - n)"
  define reach where "reach = n + needed - sp"
  have lo: "(out - 1) * stride \<le> reach" by (simp add: reach_def needed_def)
  have "reach < (out - 1) * stride + stride"
  proof (cases "needed = 0")
    case True
    then have "reach = n - sp" by (simp add: reach_def)
    with b(1) sp show ?thesis by (simp add: left_diff_distrib)
  next
    case False
    then have "reach = (out - 1) * stride" by (simp add: reach_def needed_def max_def split: if_splits)
    with s show ?thesis by simp
  qed
  with lo have "reach div stride = out - 1"
    by (intro int_div_pos_eq [where r = "reach - (out - 1) * stride"]) (auto simp: mult.commute)
  moreover have "0 \<le> (out - 1) * stride" using \<open>1 \<le> out\<close> s by simp
  with lo have "0 \<le> reach" by linarith
  moreover have "out_extent n needed k stride dil = (if 0 \<le> reach then reach div stride + 1 else 0)"
    by (simp add: out_extent_def Let_def reach_def sp_def)
  moreover have "same_needed n k stride dil = needed"
    by (simp add: same_needed_def Let_def needed_def out_def sp_def)
  ultimately show ?thesis by (simp add: out_def)
qed

text \<open>Any smaller total padding makes it shorter.\<close>

lemma same_needed_least:
  assumes n: "1 \<le> n" and s: "1 \<le> stride" and t: "0 \<le> t" "t < same_needed n k stride dil"
  shows "out_extent n t k stride dil < - ((- n) div stride)"
proof -
  define out where "out = - ((- n) div stride)"
  have b: "n \<le> out * stride" using ceil_div_bounds [OF s, of n] by (simp add: out_def)
  have "0 < out * stride" using b n by linarith
  with s have "1 \<le> out" by (simp add: zero_less_mult_iff)
  define reach where "reach = n + t - window_span k dil"
  have "same_needed n k stride dil = max 0 ((out - 1) * stride + window_span k dil - n)"
    by (simp add: same_needed_def Let_def out_def)
  with t have "reach < (out - 1) * stride" by (simp add: reach_def)
  moreover have "stride * (reach div stride) \<le> reach"
    using s pos_mod_sign [of stride reach] mult_div_mod_eq [of stride reach] by linarith
  moreover have "stride * (out - 1) \<le> stride * (reach div stride)" if "out - 1 \<le> reach div stride"
    using that s by (intro mult_left_mono) auto
  ultimately have "reach div stride < out - 1" by (metis linorder_not_le mult.commute order_trans)
  then have "out_extent n t k stride dil < out" using \<open>1 \<le> out\<close>
    by (simp add: out_extent_def Let_def reach_def)
  then show ?thesis by (simp add: out_def)
qed

text \<open>Every tap of every output position reads inside the padded input.\<close>

lemma extent_reads_inside:
  assumes "1 \<le> s" "1 \<le> d" and k: "0 \<le> o'" "o' < out_extent n pad k s d" and t: "0 \<le> t" "t < k"
  shows "0 \<le> o' * s + t * d" and "o' * s + t * d < n + pad"
proof -
  show "0 \<le> o' * s + t * d" using assms by simp
  let ?reach = "n + pad - window_span k d"
  have r: "0 \<le> ?reach" and "o' \<le> ?reach div s"
    using k by (auto simp: out_extent_def Let_def split: if_splits)
  then have "o' * s \<le> ?reach div s * s" using assms(1) by simp
  also have "\<dots> \<le> ?reach" using assms(1) by (simp add: minus_mod_eq_div_mult [symmetric])
  finally have "o' * s \<le> ?reach" .
  moreover have "t * d \<le> (k - 1) * d" using t assms(2) by simp
  ultimately show "o' * s + t * d < n + pad" by (simp add: window_span_def)
qed

text \<open>The output sizes a geometry implies, axis by axis.\<close>

fun extents :: "int list \<Rightarrow> int list \<Rightarrow> int list \<Rightarrow> int list \<Rightarrow> int list \<Rightarrow> int list \<Rightarrow> int list" where
  "extents (n # ns) (k # ks) (s # ss) (d # ds) (p # ps) (q # qs) =
     out_extent n (p + q) k s d # extents ns ks ss ds ps qs"
| "extents _ _ _ _ _ _ = []"

lemma extents_nth:
  assumes "length ns = m" "length ks = m" "length ss = m" "length ds = m" "length ps = m" "length qs = m"
    and "a < m"
  shows "extents ns ks ss ds ps qs ! a = out_extent (ns ! a) (ps ! a + qs ! a) (ks ! a) (ss ! a) (ds ! a)"
  using assms
proof (induction ns ks ss ds ps qs arbitrary: a m rule: extents.induct)
  case (1 n ns k ks s ss d ds p ps q qs)
  then show ?case by (cases a) auto
qed auto

lemma length_extents:
  assumes "length ns = m" "length ks = m" "length ss = m" "length ds = m" "length ps = m" "length qs = m"
  shows "length (extents ns ks ss ds ps qs) = m"
  using assms
proof (induction ns ks ss ds ps qs arbitrary: m rule: extents.induct)
  case (1 n ns k ks s ss d ds p ps q qs)
  from 1(1) [of "m - 1"] 1(2-) show ?case by auto
qed auto

lemma check_extents_iff:
  assumes "length ys = length xs" "length ks = length xs" "length ss = length xs" "length ds = length xs"
    "length ps = length xs" "length qs = length xs"
  shows "check_extents xs ys ks ss ds ps qs = Inr u \<longleftrightarrow>
    (\<exists>ns. mapE dim_int xs = Inr ns \<and> mapE dim_int ys = Inr (extents ns ks ss ds ps qs))"
  using assms
proof (induction xs ys ks ss ds ps qs rule: check_extents.induct)
  case (1 x xs y ys k ks s ss d ds p ps q qs)
  show ?case
  proof (cases "dim_int x")
    case (Inl e)
    then show ?thesis by simp
  next
    case x: (Inr n)
    show ?thesis
    proof (cases "dim_int y")
      case (Inl e)
      then show ?thesis using x by (auto simp: bindE_Inr_iff)
    next
      case y: (Inr m)
      have IH: "check_extents xs ys ks ss ds ps qs = Inr u \<longleftrightarrow>
          (\<exists>ns. mapE dim_int xs = Inr ns \<and> mapE dim_int ys = Inr (extents ns ks ss ds ps qs))"
        if "out_extent n (p + q) k s d = m"
        using 1 by simp
      show ?thesis
        using x y IH by (cases "mapE dim_int xs"; cases "mapE dim_int ys")
          (auto simp: refuse_if_def)
    qed
  qed
qed auto

text \<open>The steps of \<open>conv_geometry\<close> that a returned geometry has passed.\<close>

lemma window_params_Inr:
  assumes "window_params nd spatial hasd = Inr (strides, dilations)"
  shows "length strides = spatial" "length dilations = spatial"
    "\<forall>s \<in> set strides. 1 \<le> s" "\<forall>d \<in> set dilations. 1 \<le> d"
  using assms by (auto simp: window_params_def bindE_Inr_iff refuse_if_Inr_iff not_less)

lemma resolve_pads_length:
  assumes "resolve_pads nd sizes kern strides dilations = Inr pads"
    and "length kern = length sizes" "length strides = length sizes" "length dilations = length sizes"
  shows "length pads = 2 * length sizes"
  using assms
  by (auto simp: resolve_pads_def same_pads_def Let_def bindE_Inr_iff refuse_if_Inr_iff
      dest: mapE_length split: if_splits)

lemma conv_kernel_Inr: "conv_kernel nd w_shape = Inr kern \<Longrightarrow> mapE dim_int (drop 2 w_shape) = Inr kern"
  by (auto simp: conv_kernel_def bindE_Inr_iff split: option.splits)

lemma pool_kernel_Inr: "pool_kernel nd spatial = Inr kern \<Longrightarrow> length kern = spatial"
  by (auto simp: pool_kernel_def bindE_Inr_iff refuse_if_Inr_iff split: option.splits)

section \<open>Properties\<close>

text \<open>
  C11.  \<open>SAME\<close> padding: the padding both geometry functions resolve for one axis is split between
  the two ends so that they differ by at most one, the odd element going to the end for
  \<open>SAME_UPPER\<close> and to the beginning for \<open>SAME_LOWER\<close>, it makes the output exactly
  \<open>ceil(n / stride)\<close> long, and it is the smallest total padding that does: any smaller one
  gives fewer outputs.
\<close>

theorem same_padding:
  assumes "1 \<le> n" "1 \<le> k" "1 \<le> s" "1 \<le> d"
  shows "\<exists>p q. same_pads upper [DInt n] [k] [s] [d] = Inr [p, q] \<and>
           out_extent n (p + q) k s d = \<lceil>of_int n / (of_int s :: real)\<rceil> \<and>
           (\<forall>t. 0 \<le> t \<and> t < p + q \<longrightarrow> out_extent n t k s d < \<lceil>of_int n / (of_int s :: real)\<rceil>) \<and>
           0 \<le> p \<and> 0 \<le> q \<and> (if upper then q - p \<in> {0, 1} else p - q \<in> {0, 1})"
proof -
  define m where "m = same_needed n k s d"
  have m: "0 \<le> m" by (simp add: m_def same_needed_def Let_def)
  let ?p = "same_begin upper m" and ?q = "m - same_begin upper m"
  have "same_pads upper [DInt n] [k] [s] [d] = Inr [?p, ?q]"
    by (simp add: same_pads_def m_def Let_def)
  moreover have "out_extent n (?p + ?q) k s d = \<lceil>of_int n / (of_int s :: real)\<rceil>"
    using same_out_extent_aux [OF assms] by (simp add: m_def ceiling_divide_eq_div)
  moreover have "\<forall>t. 0 \<le> t \<and> t < ?p + ?q \<longrightarrow> out_extent n t k s d < \<lceil>of_int n / (of_int s :: real)\<rceil>"
    using same_needed_least [OF assms(1,3)] by (simp add: m_def ceiling_divide_eq_div)
  moreover have "0 \<le> ?p \<and> 0 \<le> ?q \<and> (if upper then ?q - ?p \<in> {0, 1} else ?p - ?q \<in> {0, 1})"
    using m by (auto simp: same_begin_def)
  ultimately show ?thesis by blast
qed

theorem same_padding_witness:
  "\<exists>p q. same_pads False [DInt 7] [3] [2] [1] = Inr [p, q] \<and>
     out_extent 7 (p + q) 3 2 1 = \<lceil>of_int 7 / (of_int 2 :: real)\<rceil> \<and>
     (\<forall>t. 0 \<le> t \<and> t < p + q \<longrightarrow> out_extent 7 t 3 2 1 < \<lceil>of_int 7 / (of_int 2 :: real)\<rceil>) \<and>
     0 \<le> p \<and> 0 \<le> q \<and> (if False then q - p \<in> {0, 1} else p - q \<in> {0, 1})"
  by (rule same_padding) simp_all

lemma conv_geometry_parts:
  assumes "conv_geometry nd x_shape w_shape y_shape = Inr (grp, kern, w)"
  defines "spatial \<equiv> length x_shape - 2"
  shows "1 \<le> grp \<and> window_ok w spatial \<and> (\<forall>d \<in> set (w_dilations w). 1 \<le> d) \<and>
    mapE dim_int (drop 2 w_shape) = Inr kern \<and> length kern = spatial \<and>
    (\<exists>pads ns. resolve_pads nd (drop 2 x_shape) kern (w_strides w) (w_dilations w) = Inr pads \<and>
       length pads = 2 * spatial \<and> w_pads w = take spatial pads \<and>
       mapE dim_int (drop 2 x_shape) = Inr ns \<and>
       mapE dim_int (drop 2 y_shape) =
         Inr (extents ns kern (w_strides w) (w_dilations w) (take spatial pads) (drop spatial pads)))"
proof -
  from assms(1) obtain features strides dilations pads u where
    ranks: "length w_shape = length x_shape" "length y_shape = length x_shape"
    and chan: "conv_channels nd x_shape w_shape = Inr (grp, features)"
    and kern: "conv_kernel nd w_shape = Inr kern"
    and win: "window_params nd spatial True = Inr (strides, dilations)"
    and pads: "resolve_pads nd (drop 2 x_shape) kern strides dilations = Inr pads"
    and ext: "check_extents (drop 2 x_shape) (drop 2 y_shape) kern strides dilations
                (take spatial pads) (drop spatial pads) = Inr u"
    and w: "w = \<lparr>w_strides = strides, w_dilations = dilations, w_pads = take spatial pads\<rparr>"
    unfolding conv_geometry_def Let_def spatial_def
    by (fastforce simp: bindE_Inr_iff refuse_if_Inr_iff)
  note kd = conv_kernel_Inr [OF kern]
  have lk: "length kern = spatial" using mapE_length [OF kd] ranks by (simp add: spatial_def)
  note wp = window_params_Inr [OF win]
  have lp: "length pads = 2 * spatial"
    using resolve_pads_length [OF pads] lk wp by (simp add: spatial_def)
  have grp: "1 \<le> grp" using chan by (auto simp: conv_channels_def bindE_Inr_iff refuse_if_Inr_iff)
  have "\<exists>ns. mapE dim_int (drop 2 x_shape) = Inr ns \<and> mapE dim_int (drop 2 y_shape) =
      Inr (extents ns kern strides dilations (take spatial pads) (drop spatial pads))"
    using ext lk wp lp ranks
    by (subst (asm) check_extents_iff) (simp_all add: spatial_def)
  with grp kd lk wp lp pads show ?thesis by (auto simp: w window_ok_def)
qed

text \<open>
  C9.  A convolution geometry is only accepted when it reproduces the node's shapes: the kernel is
  the weight's own spatial shape, every stride and dilation is positive and every list has one
  entry per spatial axis, and the declared output's spatial dimensions are exactly those the
  resolved strides, dilations and pads produce.
\<close>

theorem conv_geometry_reproduces:
  assumes "conv_geometry nd x_shape w_shape y_shape = Inr (grp, kern, w)"
  defines "spatial \<equiv> length x_shape - 2"
  shows "1 \<le> grp \<and> window_ok w spatial \<and> (\<forall>d \<in> set (w_dilations w). 1 \<le> d) \<and>
    mapE dim_int (drop 2 w_shape) = Inr kern \<and> length kern = spatial \<and>
    (\<exists>pads ns. resolve_pads nd (drop 2 x_shape) kern (w_strides w) (w_dilations w) = Inr pads \<and>
       length pads = 2 * spatial \<and> w_pads w = take spatial pads \<and>
       mapE dim_int (drop 2 x_shape) = Inr ns \<and>
       mapE dim_int (drop 2 y_shape) =
         Inr (extents ns kern (w_strides w) (w_dilations w) (take spatial pads) (drop spatial pads)))"
  unfolding spatial_def by (rule conv_geometry_parts [OF assms(1)])

text \<open>A strided, grouped, \<open>SAME\<close>-padded convolution.\<close>

definition ex_conv :: node where
  "ex_conv = make_node ''Conv'' [''x'', ''w''] [''y''] ''''
     [(''strides'', AInts [2, 2]), (''auto_pad'', AStr ''SAME_UPPER''), (''group'', AInt 2)]"

lemma ex_conv_geometry:
  "conv_geometry ex_conv (ints [1, 4, 7, 7]) (ints [6, 2, 3, 3]) (ints [1, 6, 4, 4]) =
     Inr (2, [3, 3], \<lparr>w_strides = [2, 2], w_dilations = [1, 1], w_pads = [1, 1]\<rparr>)"
  by (simp add: conv_geometry_def conv_channels_def conv_kernel_def window_params_def resolve_pads_def
      same_pads_def ex_conv_def attr_or_def attr_get_def ints_attr_def same_needed_def same_begin_def
      window_span_def out_extent_def refuse_if_def Let_def numeral_2_eq_2)

theorem conv_geometry_reproduces_witness:
  "1 \<le> (2 :: int) \<and> window_ok \<lparr>w_strides = [2, 2], w_dilations = [1, 1], w_pads = [1, 1]\<rparr> (length (ints [1, 4, 7, 7]) - 2)"
  using conv_geometry_reproduces [OF ex_conv_geometry] by blast

text \<open>
  C10.  In an accepted convolution geometry no tap reads outside the padded input: for every axis,
  every position of the declared output and every kernel tap, the padded coordinate
  \<open>o * stride + t * dilation\<close> lies in \<open>[0, size + begin pad + end pad)\<close>.
\<close>

theorem conv_reads_inside_padding:
  assumes geom: "conv_geometry nd x_shape w_shape y_shape = Inr (grp, kern, w)"
    and xs: "drop 2 x_shape = ints ns" and ys: "drop 2 y_shape = ints os"
    and a: "a < length x_shape - 2" and o': "0 \<le> o'" "o' < os ! a" and t: "0 \<le> t" "t < kern ! a"
  shows "\<exists>pads. resolve_pads nd (drop 2 x_shape) kern (w_strides w) (w_dilations w) = Inr pads \<and>
           0 \<le> o' * w_strides w ! a + t * w_dilations w ! a \<and>
           o' * w_strides w ! a + t * w_dilations w ! a <
             ns ! a + pads ! a + pads ! (length x_shape - 2 + a)"
proof -
  let ?n = "length x_shape - 2"
  from conv_geometry_parts [OF geom] obtain pads where
    w: "window_ok w ?n" "\<forall>d \<in> set (w_dilations w). 1 \<le> d" "length kern = ?n"
    and pads: "resolve_pads nd (drop 2 x_shape) kern (w_strides w) (w_dilations w) = Inr pads" "length pads = 2 * ?n"
    and os: "os = extents ns kern (w_strides w) (w_dilations w) (take ?n pads) (drop ?n pads)"
    by (auto simp: xs ys)
  have len: "length ns = ?n" using xs by (metis length_drop length_map)
  have ws: "1 \<le> w_strides w ! a" "1 \<le> w_dilations w ! a"
    using w a by (auto simp: window_ok_def)
  have "os ! a = out_extent (ns ! a) (pads ! a + pads ! (?n + a)) (kern ! a) (w_strides w ! a) (w_dilations w ! a)"
    using w len pads(2) a unfolding os window_ok_def
    by (subst extents_nth [where m = ?n]) auto
  with o' extent_reads_inside [OF ws, of o' "ns ! a" "pads ! a + pads ! (?n + a)" "kern ! a" t] t pads(1)
  show ?thesis by auto
qed

theorem conv_reads_inside_padding_witness:
  "\<exists>pads. resolve_pads ex_conv (drop 2 (ints [1, 4, 7, 7])) [3, 3] [2, 2] [1, 1] = Inr pads \<and>
     0 \<le> 3 * [2, 2] ! 1 + 2 * [1, 1 :: int] ! 1 \<and>
     3 * [2, 2] ! 1 + 2 * [1, 1] ! 1 < [7, 7] ! 1 + pads ! 1 + pads ! (length (ints [1, 4, 7, 7]) - 2 + 1)"
  using conv_reads_inside_padding [OF ex_conv_geometry, where ns = "[7, 7]" and os = "[4, 4]" and a = 1 and o' = 3 and t = 2]
  by simp

end
