(* ===== verification/Rules_Linear.thy ===== *)
theory Rules_Linear
  imports Rules_Shape
begin

text \<open>
  The matrix-product and reduction rules of \<open>onnxsim/graph_grad.py\<close>: \<open>MatMul\<close>, \<open>Gemm\<close>,
  \<open>ReduceSum\<close>/\<open>ReduceMean\<close> with the recovery of the reduced axes from the shapes, and \<open>Softmax\<close>.
\<close>

section \<open>MatMul and Gemm\<close>

definition grad_matmul :: rule where
  "grad_matmul C nd g =
     bnd (lift (input_at nd 0)) (\<lambda>a.
     bnd (lift (input_at nd 1)) (\<lambda>b.
     bnd (lift (ctx_shape C a)) (\<lambda>sa.
     bnd (lift (ctx_shape C b)) (\<lambda>sb.
     bnd (lift (refuse_if (length sa < 2 \<or> length sb < 2) UnsupportedOpError)) (\<lambda>_.
     bnd (lift (np_broadcast (c_ext C) (take (length sa - 2) sa) (take (length sb - 2) sb))) (\<lambda>batch.
     bnd (transpose_last_two b sb) (\<lambda>bt.
     bnd (b_matmul g bt) (\<lambda>ga.
     bnd (transpose_last_two a sa) (\<lambda>a_t.
     bnd (b_matmul a_t g) (\<lambda>gb.
     bnd (reduce_to ga (batch @ drop (length sa - 2) sa) sa) (\<lambda>da.
     bnd (reduce_to gb (batch @ drop (length sb - 2) sb) sb) (\<lambda>db.
     ret [Some da, Some db]))))))))))))"

definition gemm_bias :: "ctx \<Rightarrow> node \<Rightarrow> string \<Rightarrow> real \<Rightarrow> string option list bst" where
  "gemm_bias C nd g beta =
     (if length (inputs nd) \<le> 2 then ret []
      else if inputs nd ! 2 = '''' then ret [None]
      else
        bnd (lift (out_shape C nd)) (\<lambda>out.
        bnd (lift (in_shape C nd 2)) (\<lambda>sc.
        bnd (reduce_to g out sc) (\<lambda>gc.
        bnd (if beta \<noteq> 1 then bnd (b_const (c_ext C) (scalar beta) ''c'') (\<lambda>c. b_mul gc c)
             else ret gc) (\<lambda>dc.
        ret [Some dc])))))"

definition grad_gemm :: rule where
  "grad_gemm C nd g =
     bnd (lift (attr_float (attr_or nd ''alpha'' (AFloat 1)))) (\<lambda>alpha.
     bnd (lift (attr_float (attr_or nd ''beta'' (AFloat 1)))) (\<lambda>beta.
     let trans_a = attr_bool (attr_or nd ''transA'' (AInt 0));
         trans_b = attr_bool (attr_or nd ''transB'' (AInt 0)) in
     bnd (lift (input_at nd 0)) (\<lambda>a.
     bnd (lift (input_at nd 1)) (\<lambda>b.
     bnd (lift (ctx_shape C a)) (\<lambda>sa.
     bnd (lift (ctx_shape C b)) (\<lambda>sb.
     bnd (lift (refuse_if (length sa \<noteq> 2 \<or> length sb \<noteq> 2) UnsupportedOpError)) (\<lambda>_.
     bnd (if alpha \<noteq> 1 then bnd (b_const (c_ext C) (scalar alpha) ''c'') (\<lambda>c. b_mul g c)
          else ret g) (\<lambda>gs.
     bnd (if trans_b then ret b else b_transpose b [1, 0]) (\<lambda>bt.
     bnd (b_matmul gs bt) (\<lambda>ga0.
     bnd (if trans_a then b_transpose ga0 [1, 0] else ret ga0) (\<lambda>ga.
     bnd (if trans_a then ret a else b_transpose a [1, 0]) (\<lambda>a_t.
     bnd (b_matmul a_t gs) (\<lambda>gb0.
     bnd (if trans_b then b_transpose gb0 [1, 0] else ret gb0) (\<lambda>gb.
     bnd (gemm_bias C nd g beta) (\<lambda>rest.
     ret (Some ga # Some gb # rest))))))))))))))))"

section \<open>Reductions\<close>

text \<open>\<open>itertools.combinations(xs, k)\<close>, in its order.\<close>

fun combinations :: "'a list \<Rightarrow> nat \<Rightarrow> 'a list list" where
  "combinations xs 0 = [[]]"
| "combinations [] (Suc k) = []"
| "combinations (x # xs) (Suc k) = map ((#) x) (combinations xs k) @ combinations xs (Suc k)"

text \<open>The shape with some axes deleted, and with them kept as ones.\<close>

definition drop_axes :: "nat list \<Rightarrow> shape \<Rightarrow> shape" where
  "drop_axes axes sh = map snd (filter (\<lambda>(i, d). i \<notin> set axes) (enumerate 0 sh))"

definition keep_ones :: "nat list \<Rightarrow> shape \<Rightarrow> shape" where
  "keep_ones axes sh = map (\<lambda>(i, d). if i \<in> set axes then DInt 1 else d) (enumerate 0 sh)"

definition axis_candidates :: "shape \<Rightarrow> shape \<Rightarrow> nat list list" where
  "axis_candidates in_sh out_sh =
     filter (\<lambda>combo. drop_axes combo in_sh = out_sh)
       (combinations [0..<length in_sh] (length in_sh - length out_sh))"

definition reduced_axes :: "node \<Rightarrow> shape \<Rightarrow> shape \<Rightarrow> nat list res" where
  "reduced_axes nd in_sh out_sh =
     (let rank = length in_sh in
      case attr_get nd ''axes'' of
        Some v \<Rightarrow>
          bindE (attr_ints v) (\<lambda>as.
          bindE (mapE (\<lambda>a. mod_len a rank) as) (\<lambda>ks.
          Inr (filter (\<lambda>i. i \<in> set ks) [0..<rank])))
      | None \<Rightarrow>
          if attr_bool (attr_or nd ''keepdims'' (AInt 1)) then
            bindE (refuse_if (length out_sh \<noteq> rank) UnsupportedOpError) (\<lambda>_.
            Inr (filter (\<lambda>i. out_sh ! i = DInt 1 \<and> in_sh ! i \<noteq> DInt 1) [0..<rank]))
          else
            bindE (refuse_if (rank < length out_sh \<or> 16 < rank) UnsupportedOpError) (\<lambda>_.
            (case axis_candidates in_sh out_sh of
               [] \<Rightarrow> Inl UnsupportedOpError
             | c # cs \<Rightarrow>
                 bindE (refuse_if (\<exists>c' \<in> set cs. keep_ones c' in_sh \<noteq> keep_ones c in_sh)
                          UnsupportedOpError) (\<lambda>_.
                 Inr c))))"

text \<open>\<open>1.0 / float(np.prod([in_shape[i] for i in axes]))\<close>\<close>

definition mean_fill :: "shape \<Rightarrow> nat list \<Rightarrow> real res" where
  "mean_fill in_sh axes =
     bindE (prod_dims (map (\<lambda>i. in_sh ! i) axes)) (\<lambda>n.
     if n = 0 then Inl ZeroDivisionError else Inr (1 / of_int n))"

text \<open>\<open>np.full(shape, fill)\<close>\<close>

definition full :: "int list \<Rightarrow> real \<Rightarrow> arr res" where
  "full sh v = (if \<exists>d \<in> set sh. d < 0 then Inl ValueError
                else Inr (sh, replicate (nat (prod_list sh)) v))"

definition ones_dims :: "nat list \<Rightarrow> shape \<Rightarrow> shape" where
  "ones_dims axes sh = map (\<lambda>(i, d). if i \<in> set axes then d else DInt 1) (enumerate 0 sh)"

definition grad_reduce :: rule where
  "grad_reduce C nd g =
     bnd (lift (input_at nd 0)) (\<lambda>x.
     bnd (lift (ctx_shape C x)) (\<lambda>in_sh.
     bnd (lift (out_shape C nd)) (\<lambda>out_sh.
     let rest = replicate (length (inputs nd) - 1) None in
     bnd (lift (reduced_axes nd in_sh out_sh)) (\<lambda>axes.
     if axes = [] then ret (Some g # rest)
     else
       let keepdims_sh = keep_ones axes in_sh in
       bnd (if out_sh \<noteq> keepdims_sh
            then bnd (int64_const keepdims_sh ''shape'') (\<lambda>sh. b_op ''Reshape'' [g, sh] [])
            else ret g) (\<lambda>grad.
       let dynamic = (\<exists>i \<in> set axes. \<not> is_int_dim (in_sh ! i)) in
       bnd (lift (refuse_if (dynamic \<and> op_type nd = ''ReduceMean'') UnsupportedOpError)) (\<lambda>_.
       bnd (lift (if op_type nd = ''ReduceMean'' then mean_fill in_sh axes else Inr 1)) (\<lambda>fill.
       bnd (if dynamic
            then bnd (b_const (c_ext C) (scalar 0) ''c'') (\<lambda>z.
                 bnd (b_mul x z) (\<lambda>zero.
                 bnd (b_const (c_ext C) (scalar fill) ''c'') (\<lambda>f.
                 b_add zero f)))
            else bnd (lift (mapE dim_int (ones_dims axes in_sh))) (\<lambda>dims.
                 bnd (lift (full dims fill)) (\<lambda>v.
                 b_const (c_ext C) v ''bcast''))) (\<lambda>ones.
       bnd (b_mul grad ones) (\<lambda>dx.
       ret (Some dx # rest))))))))))"

definition grad_softmax :: rule where
  "grad_softmax C nd g =
     bnd (lift (output_at nd 0)) (\<lambda>y.
     bnd (lift (in_shape C nd 0)) (\<lambda>sh.
     bnd (lift (attr_int (attr_or nd ''axis'' (AInt (-1))))) (\<lambda>a.
     bnd (lift (mod_len a (length sh))) (\<lambda>axis.
     bnd (b_mul g y) (\<lambda>gy.
     bnd (int64_const (nats [axis]) ''axes'') (\<lambda>ax.
     bnd (b_op ''ReduceSum'' [gy, ax] [(''keepdims'', AInt 1)]) (\<lambda>total.
     bnd (b_sub g total) (\<lambda>diff.
     bnd (b_mul y diff) (\<lambda>dx.
     ret [Some dx])))))))))"

section \<open>Contracts\<close>

lemma contract_grad_matmul: "rule_contract grad_matmul"
  unfolding grad_matmul_def
  by (rule rule_contractI) (rule emit_lift_bnd emit_bnd emit_intros | (auto simp: reads_simps; fail)[1])+

lemma emit_gemm_bias: "g \<in> S \<Longrightarrow> emits K S (gemm_bias C nd g beta) somes"
  unfolding gemm_bias_def
  by (rule emit_lift_bnd emit_bnd_name emit_bnd emit_intros | (auto; fail)[1])+

lemma emit_operand:
  "{x} - {''''} \<subseteq> S \<Longrightarrow> emits K S (if c then ret x else b_transpose x perm) (\<lambda>z. {z} - {''''})"
  by (auto intro!: emit_ret emit_weaken [OF emit_unary(1) [of x S]])

lemma contract_grad_gemm: "rule_contract grad_gemm"
  unfolding grad_gemm_def Let_def
  by (rule rule_contractI)
    (rule emit_lift_bnd emit_bnd [OF emit_operand] emit_bnd_name emit_bnd emit_gemm_bias emit_intros
      | (auto simp: reads_simps; fail)[1])+

lemma contract_grad_reduce: "rule_contract grad_reduce"
  unfolding grad_reduce_def Let_def
  by (rule rule_contractI)
    (rule emit_lift_bnd emit_bnd_name emit_bnd emit_intros | (auto simp: reads_simps; fail)[1])+

lemma contract_grad_softmax: "rule_contract grad_softmax"
  unfolding grad_softmax_def
  by (rule rule_contractI) (rule emit_lift_bnd emit_bnd emit_intros | (auto simp: reads_simps; fail)[1])+

section \<open>The reduced axes are never guessed\<close>

lemma set_combinations: "set (combinations xs k) = {ys \<in> set (subseqs xs). length ys = k}"
proof (induction xs k rule: combinations.induct)
  case (1 xs)
  have "[] \<in> set (subseqs xs)" by (induction xs) (auto simp: Let_def)
  then show ?case by auto
qed (auto simp: Let_def)

lemma drop_axes_set: "set A = set B \<Longrightarrow> drop_axes A sh = drop_axes B sh"
  and keep_ones_set: "set A = set B \<Longrightarrow> keep_ones A sh = keep_ones B sh"
  by (simp_all add: drop_axes_def keep_ones_def)

lemma length_drop_axes:
  assumes "set A \<subseteq> {..<length sh}"
  shows "length (drop_axes A sh) = length sh - card (set A)"
proof -
  have "length (drop_axes A sh) = card {i. i < length sh \<and> i \<notin> set A}"
    by (simp add: drop_axes_def enumerate_eq_zip length_filter_conv_card case_prod_beta nth_append cong: conj_cong)
  also have "{i. i < length sh \<and> i \<notin> set A} = {..<length sh} - set A" by auto
  finally show ?thesis using assms by (simp add: card_Diff_subset)
qed

lemma list_nonempty_cases:
  assumes "xs \<noteq> []" obtains y ys where "xs = y # ys"
  using assms by (cases xs) simp_all

lemma axis_candidates_complete:
  assumes "set A \<subseteq> {..<length sh}"
  shows "\<exists>c \<in> set (axis_candidates sh (drop_axes A sh)). set c = set A"
proof -
  from assms have "set A \<in> set ` set (subseqs [0..<length sh])" by (intro subset_subseqs) auto
  then obtain c where c: "c \<in> set (subseqs [0..<length sh])" "set A = set c" by auto
  have "length c = card (set A)" using subseqs_distinctD [OF c(1)] c(2) by (simp add: distinct_card)
  moreover have "card (set A) \<le> length sh" using card_mono [OF _ assms] by simp
  ultimately show ?thesis
    using c drop_axes_set [of c A sh] assms
    by (intro bexI [of _ c]) (auto simp: axis_candidates_def set_combinations length_drop_axes)
qed

lemma axis_candidates_sound:
  assumes "c \<in> set (axis_candidates sh out)"
  shows "set c \<subseteq> {..<length sh}" and "drop_axes c sh = out"
proof -
  have c: "c \<in> set (subseqs [0..<length sh])" and "drop_axes c sh = out"
    using assms by (simp_all add: axis_candidates_def set_combinations)
  then show "drop_axes c sh = out" by simp
  have "set c \<in> Pow (set [0..<length sh])" unfolding subseqs_powset [symmetric] using c by (rule imageI)
  then show "set c \<subseteq> {..<length sh}" by (simp add: atLeast0LessThan)
qed

lemma keep_ones_kept:
  assumes "set A \<subseteq> {..<length sh}"
  shows "keep_ones (filter (\<lambda>i. keep_ones A sh ! i = DInt 1 \<and> sh ! i \<noteq> DInt 1) [0..<length sh]) sh = keep_ones A sh"
  by (intro nth_equalityI) (auto simp: keep_ones_def nth_enumerate_eq)

text \<open>
  Two candidates disagree about the kept-ones shape exactly when some reduction with this output shape
  disagrees with a given candidate.
\<close>

lemma candidates_disagree:
  assumes "a \<in> set (axis_candidates sh out)"
  shows "(\<exists>c' \<in> set (tl (axis_candidates sh out)). keep_ones c' sh \<noteq> keep_ones (hd (axis_candidates sh out)) sh) \<longleftrightarrow>
    (\<exists>B. set B \<subseteq> {..<length sh} \<and> drop_axes B sh = out \<and> keep_ones B sh \<noteq> keep_ones a sh)"
proof -
  have all: "(\<exists>B. set B \<subseteq> {..<length sh} \<and> drop_axes B sh = out \<and> keep_ones B sh \<noteq> keep_ones a sh) \<longleftrightarrow>
      (\<exists>b \<in> set (axis_candidates sh out). keep_ones b sh \<noteq> keep_ones a sh)"
  proof
    assume "\<exists>B. set B \<subseteq> {..<length sh} \<and> drop_axes B sh = out \<and> keep_ones B sh \<noteq> keep_ones a sh"
    then obtain B where B: "set B \<subseteq> {..<length sh}" "drop_axes B sh = out" "keep_ones B sh \<noteq> keep_ones a sh" by blast
    from axis_candidates_complete [OF B(1)] obtain b where "b \<in> set (axis_candidates sh out)" "set b = set B"
      unfolding B(2) by blast
    with keep_ones_set [of b B sh] B(3) show "\<exists>b \<in> set (axis_candidates sh out). keep_ones b sh \<noteq> keep_ones a sh"
      by metis
  qed (use axis_candidates_sound [of _ sh out] in blast)
  obtain c cs where c: "axis_candidates sh out = c # cs"
    using assms by (cases "axis_candidates sh out") auto
  have "a = c \<or> a \<in> set cs" using assms by (simp add: c)
  then show ?thesis unfolding all by (simp add: c) metis
qed

text \<open>
  C32.  The axes a \<open>Reduce\<close> node reduced over are recovered, never guessed: when the axes are not an
  attribute and the declared output shape is the one some reduction produces, the axes \<open>_reduced_axes\<close>
  returns turn the input shape into the same kept-ones shape as the reduction's, so that the gradient
  is spread back the same way, and it refuses exactly when \<open>keepdims\<close> is off and the rank is above 16
  or another reduction with the same output shape disagrees about the kept-ones shape.
\<close>

theorem reduced_axes_recovered:
  assumes "attr_get nd ''axes'' = None" and "set A \<subseteq> {..<length sh}"
    and "keep = attr_bool (attr_or nd ''keepdims'' (AInt 1))"
    and "out = (if keep then keep_ones A sh else drop_axes A sh)"
  shows "(\<forall>axes. reduced_axes nd sh out = Inr axes \<longrightarrow>
            set axes \<subseteq> {..<length sh} \<and> keep_ones axes sh = keep_ones A sh) \<and>
         (\<forall>e. reduced_axes nd sh out = Inl e \<longleftrightarrow> e = UnsupportedOpError \<and> \<not> keep \<and>
            (16 < length sh \<or>
             (\<exists>B. set B \<subseteq> {..<length sh} \<and> drop_axes B sh = out \<and> keep_ones B sh \<noteq> keep_ones A sh)))"
proof (cases keep)
  case True
  then have out: "out = keep_ones A sh" by (simp add: assms(4))
  have "length (keep_ones A sh) = length sh" by (simp add: keep_ones_def)
  then have "reduced_axes nd sh out = Inr (filter (\<lambda>i. keep_ones A sh ! i = DInt 1 \<and> sh ! i \<noteq> DInt 1) [0..<length sh])"
    using True assms(1,3) unfolding out by (simp add: reduced_axes_def refuse_if_def)
  then show ?thesis using keep_ones_kept [OF assms(2)] True by (simp add: subset_iff)
next
  case False
  then have out: "out = drop_axes A sh" by (simp add: assms(4))
  obtain a where a: "a \<in> set (axis_candidates sh out)" "set a = set A"
    using axis_candidates_complete [OF assms(2)] unfolding out by metis
  have "axis_candidates sh out \<noteq> []" using length_pos_if_in_set [OF a(1)] by (simp only: length_greater_0_conv not_False_eq_True)
  then obtain c cs where c: "axis_candidates sh out = c # cs" by (rule list_nonempty_cases)
  have short: "length out \<le> length sh" by (simp add: out length_drop_axes [OF assms(2)])
  have eval: "reduced_axes nd sh out = bindE (refuse_if (16 < length sh) UnsupportedOpError) (\<lambda>_.
      bindE (refuse_if (\<exists>c' \<in> set cs. keep_ones c' sh \<noteq> keep_ones c sh) UnsupportedOpError) (\<lambda>_. Inr c))"
    using False assms(1,3) short by (simp add: reduced_axes_def c)
  have kept: "keep_ones a sh = keep_ones A sh" using keep_ones_set [OF a(2)] .
  have disagree: "(\<exists>c' \<in> set cs. keep_ones c' sh \<noteq> keep_ones c sh) \<longleftrightarrow>
      (\<exists>B. set B \<subseteq> {..<length sh} \<and> drop_axes B sh = out \<and> keep_ones B sh \<noteq> keep_ones A sh)"
    using candidates_disagree [OF a(1)] by (simp add: c kept)
  show ?thesis
  proof (cases "16 < length sh \<or> (\<exists>c' \<in> set cs. keep_ones c' sh \<noteq> keep_ones c sh)")
    case True
    then have "reduced_axes nd sh out = Inl UnsupportedOpError"
      unfolding eval by (auto simp: refuse_if_def)
    then show ?thesis using False True unfolding disagree by auto
  next
    case nice: False
    then have "keep_ones a sh = keep_ones c sh" using a(1) by (auto simp: c)
    moreover from nice have "reduced_axes nd sh out = Inr c" unfolding eval by (simp add: refuse_if_def)
    moreover have "set c \<subseteq> {..<length sh}" by (rule axis_candidates_sound(1) [of _ sh out]) (simp add: c)
    ultimately show ?thesis using kept nice unfolding disagree by simp
  qed
qed

definition ex_reduce :: node where
  "ex_reduce = make_node ''ReduceSum'' [''x'', ''axes''] [''y''] '''' [(''keepdims'', AInt 0)]"

theorem reduced_axes_recovered_witness:
  "reduced_axes ex_reduce [DInt 3, DInt 3] [DInt 3] = Inl UnsupportedOpError"
proof -
  let ?sh = "[DInt 3, DInt 3]"
  have "drop_axes [1] ?sh = [DInt 3] \<and> keep_ones [1] ?sh \<noteq> keep_ones [0] ?sh"
    by (simp add: drop_axes_def keep_ones_def)
  then have "\<exists>B. set B \<subseteq> {..<length ?sh} \<and> drop_axes B ?sh = [DInt 3] \<and> keep_ones B ?sh \<noteq> keep_ones [0] ?sh"
    by (intro exI [of _ "[1]"]) simp
  moreover have "attr_get ex_reduce ''axes'' = None" "set [0] \<subseteq> {..<length ?sh}"
      "False = attr_bool (attr_or ex_reduce ''keepdims'' (AInt 1))"
      "[DInt 3] = (if False then keep_ones [0] ?sh else drop_axes [0] ?sh)"
    by (simp_all add: ex_reduce_def attr_get_def attr_or_def drop_axes_def)
  ultimately show ?thesis using reduced_axes_recovered [of ex_reduce "[0]" ?sh False "[DInt 3]"] by blast
qed

end
