(* ===== verification/Rules_Conv.thy ===== *)
theory Rules_Conv
  imports Conv_Geometry Rules_Linear
begin

text \<open>
  The convolution and pooling rules of \<open>onnxsim/graph_grad.py\<close>: \<open>Conv\<close>, \<open>AveragePool\<close>,
  \<open>GlobalAveragePool\<close> and \<open>MaxPool\<close>, each a handful of gathers, masks and matrix products over the
  constant index tables of \<open>Index_Geometry\<close>.
\<close>

section \<open>Shared pieces\<close>

definition reshape_to :: "string \<Rightarrow> dim list \<Rightarrow> string bst" where
  "reshape_to x sh = bnd (int64_const sh ''shape'') (\<lambda>c. b_op ''Reshape'' [x, c] [])"

text \<open>A gather through a constant index table along an axis, then a multiplication by its mask.\<close>

definition gather_const :: "string \<Rightarrow> int list \<Rightarrow> int \<Rightarrow> string bst" where
  "gather_const x index axis =
     bnd (int64_const (ints index) ''idx'') (\<lambda>c. b_op ''Gather'' [x, c] [(''axis'', AInt axis)])"

definition masked_gather :: "ext \<Rightarrow> string \<Rightarrow> int list \<Rightarrow> int \<Rightarrow> arr \<Rightarrow> string bst" where
  "masked_gather E x index axis msk =
     bnd (gather_const x index axis) (\<lambda>gathered.
     bnd (b_const E msk ''mask'') (\<lambda>m.
     b_mul gathered m))"

definition reduce_sum :: "string \<Rightarrow> int list \<Rightarrow> int \<Rightarrow> string bst" where
  "reduce_sum x axes keepdims =
     bnd (int64_const (ints axes) ''axes'') (\<lambda>ax. b_op ''ReduceSum'' [x, ax] [(''keepdims'', AInt keepdims)])"

text \<open>The two-sided equality test \<open>(1 - (x > y)) * (1 - (x < y))\<close>.\<close>

definition equal_mask :: "ext \<Rightarrow> string \<Rightarrow> string \<Rightarrow> string bst" where
  "equal_mask E x y =
     bnd (b_const E (scalar 1) ''c'') (\<lambda>one_g.
     bnd (mask_greater x y) (\<lambda>gt.
     bnd (b_sub one_g gt) (\<lambda>not_greater.
     bnd (b_const E (scalar 1) ''c'') (\<lambda>one_l.
     bnd (mask_less x y) (\<lambda>lt.
     bnd (b_sub one_l lt) (\<lambda>not_less.
     b_mul not_greater not_less))))))"

section \<open>Conv\<close>

record conv_sizes =
  cv_batch :: int
  cv_group :: int
  cv_features :: int
  cv_channels :: int
  cv_in_dims :: "int list"
  cv_out_dims :: "int list"
  cv_kernel :: "int list"
  cv_window :: window

definition cv_taps :: "conv_sizes \<Rightarrow> int" where
  "cv_taps z = prod_list (cv_kernel z)"

definition cv_in_count :: "conv_sizes \<Rightarrow> int" where
  "cv_in_count z = prod_list (cv_in_dims z)"

definition cv_out_count :: "conv_sizes \<Rightarrow> int" where
  "cv_out_count z = prod_list (cv_out_dims z)"

definition conv_resolve :: "ctx \<Rightarrow> node \<Rightarrow> shape \<Rightarrow> shape \<Rightarrow> shape \<Rightarrow> (conv_sizes \<times> string option) res" where
  "conv_resolve C nd x_shape w_shape y_shape =
     bindE (conv_geometry nd x_shape w_shape y_shape) (\<lambda>(group, kern, w).
     bindE (dim_int (w_shape ! 0)) (\<lambda>m.
     bindE (if real_input nd 2 then
              bindE (ctx_shape C (inputs nd ! 2)) (\<lambda>bias_shape.
              bindE (refuse_if (bias_shape \<noteq> [DInt m]) UnsupportedOpError) (\<lambda>_.
              Inr (Some (inputs nd ! 2))))
            else Inr None) (\<lambda>bias.
     bindE (dim_int (x_shape ! 0)) (\<lambda>batch.
     bindE (dim_int (x_shape ! 1)) (\<lambda>xc.
     bindE (mapE dim_int (drop 2 x_shape)) (\<lambda>in_dims.
     bindE (mapE dim_int (drop 2 y_shape)) (\<lambda>out_dims.
     Inr (\<lparr>cv_batch = batch, cv_group = group, cv_features = m div group,
           cv_channels = xc div group, cv_in_dims = in_dims, cv_out_dims = out_dims,
           cv_kernel = kern, cv_window = w\<rparr>, bias))))))))"

definition conv_dx :: "ext \<Rightarrow> conv_sizes \<Rightarrow> string \<Rightarrow> string \<Rightarrow> shape \<Rightarrow> string bst" where
  "conv_dx E z w g4 x_shape =
     (let taps = cv_taps z; (index, msk) = col2im_indices (cv_in_dims z) (cv_out_dims z) (cv_kernel z) (cv_window z) 0
      in
      bnd (masked_gather E g4 index 3 ([1, 1, 1, taps * cv_in_count z], msk)) (\<lambda>masked.
      bnd (reshape_to masked (ints [cv_batch z, cv_group z, cv_features z * taps, cv_in_count z])) (\<lambda>dcol.
      bnd (reshape_to w (ints [cv_group z, cv_features z, cv_channels z, taps])) (\<lambda>w4.
      bnd (b_transpose w4 [0, 2, 1, 3]) (\<lambda>w4t.
      bnd (reshape_to w4t (ints [1, cv_group z, cv_channels z, cv_features z * taps])) (\<lambda>wt.
      bnd (b_matmul wt dcol) (\<lambda>dx4.
      reshape_to dx4 x_shape)))))))"

definition conv_dw :: "ext \<Rightarrow> conv_sizes \<Rightarrow> string \<Rightarrow> string \<Rightarrow> shape \<Rightarrow> string bst" where
  "conv_dw E z x g4 w_shape =
     (let taps = cv_taps z; (index, msk) = im2col_indices (cv_in_dims z) (cv_out_dims z) (cv_kernel z) (cv_window z)
      in
      bnd (reshape_to x (ints [cv_batch z, cv_group z, cv_channels z, cv_in_count z])) (\<lambda>x4.
      bnd (masked_gather E x4 index 3 ([1, 1, 1, taps * cv_out_count z], msk)) (\<lambda>masked.
      bnd (reshape_to masked (ints [cv_batch z, cv_group z, cv_channels z * taps, cv_out_count z])) (\<lambda>col.
      bnd (b_transpose col [0, 1, 3, 2]) (\<lambda>colt.
      bnd (b_matmul g4 colt) (\<lambda>dw4.
      bnd (reduce_sum dw4 [0] 0) (\<lambda>dw3.
      reshape_to dw3 w_shape)))))))"

definition conv_db :: "string \<Rightarrow> dim \<Rightarrow> string bst" where
  "conv_db g4 m = bnd (reduce_sum g4 [0, 3] 0) (\<lambda>db. reshape_to db [m])"

definition grad_conv :: rule where
  "grad_conv C nd g =
     bnd (lift (input_at nd 0)) (\<lambda>x.
     bnd (lift (input_at nd 1)) (\<lambda>w.
     bnd (lift (ctx_shape C x)) (\<lambda>x_shape.
     bnd (lift (ctx_shape C w)) (\<lambda>w_shape.
     bnd (lift (out_shape C nd)) (\<lambda>y_shape.
     bnd (lift (conv_resolve C nd x_shape w_shape y_shape)) (\<lambda>(z, bias).
     bnd (reshape_to g (ints [cv_batch z, cv_group z, cv_features z, cv_out_count z])) (\<lambda>g4.
     bnd (conv_dx (c_ext C) z w g4 x_shape) (\<lambda>dx.
     bnd (conv_dw (c_ext C) z x g4 w_shape) (\<lambda>dw.
     if length (inputs nd) \<le> 2 then ret [Some dx, Some dw]
     else case bias of
            None \<Rightarrow> ret [Some dx, Some dw, None]
          | Some _ \<Rightarrow> bnd (conv_db g4 (w_shape ! 0)) (\<lambda>db. ret [Some dx, Some dw, Some db]))))))))))"

section \<open>Pooling\<close>

record pool_sizes =
  pl_planes :: int
  pl_in_dims :: "int list"
  pl_out_dims :: "int list"
  pl_kernel :: "int list"
  pl_window :: window

definition pl_taps :: "pool_sizes \<Rightarrow> int" where
  "pl_taps z = prod_list (pl_kernel z)"

definition pl_in_count :: "pool_sizes \<Rightarrow> int" where
  "pl_in_count z = prod_list (pl_in_dims z)"

definition pl_out_count :: "pool_sizes \<Rightarrow> int" where
  "pl_out_count z = prod_list (pl_out_dims z)"

definition pool_resolve :: "node \<Rightarrow> shape \<Rightarrow> shape \<Rightarrow> bool \<Rightarrow> pool_sizes res" where
  "pool_resolve nd x_shape y_shape has_dilations =
     bindE (pool_geometry nd x_shape y_shape has_dilations) (\<lambda>(kern, w).
     bindE (dim_int (x_shape ! 0)) (\<lambda>xb.
     bindE (dim_int (x_shape ! 1)) (\<lambda>xc.
     bindE (mapE dim_int (drop 2 x_shape)) (\<lambda>in_dims.
     bindE (mapE dim_int (drop 2 y_shape)) (\<lambda>out_dims.
     Inr \<lparr>pl_planes = xb * xc, pl_in_dims = in_dims, pl_out_dims = out_dims,
          pl_kernel = kern, pl_window = w\<rparr>)))))"

text \<open>\<open>valid.reshape(taps, out_count).sum(axis=0)\<close>: the real elements of each window.\<close>

definition window_counts :: "int \<Rightarrow> int \<Rightarrow> real list \<Rightarrow> real list" where
  "window_counts taps out_count valid =
     map (\<lambda>o'. sum_list (map (\<lambda>t. valid ! nat (t * out_count + o')) (range_int 0 taps))) (range_int 0 out_count)"

definition pool_valid :: "pool_sizes \<Rightarrow> real list" where
  "pool_valid z = snd (im2col_indices (pl_in_dims z) (pl_out_dims z) (pl_kernel z) (pl_window z))"

definition pool_divisor :: "node \<Rightarrow> pool_sizes \<Rightarrow> real list res" where
  "pool_divisor nd z =
     (if attr_bool (attr_or nd ''count_include_pad'' (AInt 0)) then
        Inr (replicate (nat (pl_out_count z)) (of_int (pl_taps z)))
      else
        let counts = window_counts (pl_taps z) (pl_out_count z) (pool_valid z) in
        bindE (refuse_if (\<exists>n \<in> set counts. n = 0) UnsupportedOpError) (\<lambda>_. Inr counts))"

text \<open>The col2im half: gather, mask, sum over the taps, back to the input's shape.\<close>

definition pool_scatter :: "ext \<Rightarrow> pool_sizes \<Rightarrow> int \<Rightarrow> string \<Rightarrow> shape \<Rightarrow> string bst" where
  "pool_scatter E z tap_offset contrib x_shape =
     (let taps = pl_taps z;
          (index, msk) = col2im_indices (pl_in_dims z) (pl_out_dims z) (pl_kernel z) (pl_window z) tap_offset in
      bnd (masked_gather E contrib index 1 ([1, taps * pl_in_count z], msk)) (\<lambda>masked.
      bnd (reshape_to masked (ints [pl_planes z, taps, pl_in_count z])) (\<lambda>col.
      bnd (reduce_sum col [1] 0) (\<lambda>dx_flat.
      reshape_to dx_flat x_shape))))"

definition grad_averagepool :: rule where
  "grad_averagepool C nd g =
     bnd (lift (in_shape C nd 0)) (\<lambda>x_shape.
     bnd (lift (out_shape C nd)) (\<lambda>y_shape.
     bnd (lift (pool_resolve nd x_shape y_shape False)) (\<lambda>z.
     bnd (lift (pool_divisor nd z)) (\<lambda>divisor.
     bnd (reshape_to g (ints [pl_planes z, pl_out_count z])) (\<lambda>g2.
     bnd (b_const (c_ext C) ([1, pl_out_count z], map (\<lambda>d. 1 / d) divisor) ''recip'') (\<lambda>recip.
     bnd (b_mul g2 recip) (\<lambda>scaled.
     bnd (pool_scatter (c_ext C) z 0 scaled x_shape) (\<lambda>dx.
     ret [Some dx]))))))))"

definition grad_global_averagepool :: rule where
  "grad_global_averagepool C nd g =
     bnd (lift (single_input nd)) (\<lambda>x.
     bnd (lift (ctx_shape C x)) (\<lambda>x_shape.
     bnd (lift (out_shape C nd)) (\<lambda>y_shape.
     let rank = length x_shape in
     bnd (lift (refuse_if (rank < 3) UnsupportedOpError)) (\<lambda>_.
     bnd (lift (refuse_if (y_shape \<noteq> take 2 x_shape @ replicate (rank - 2) (DInt 1)) UnsupportedOpError)) (\<lambda>_.
     bnd (lift (static_dims (drop 2 x_shape))) (\<lambda>spatial.
     bnd (lift (refuse_if (\<exists>d \<in> set spatial. d \<le> 0) UnsupportedOpError)) (\<lambda>_.
     bnd (lift (full (1 # 1 # spatial) (1 / of_int (prod_list spatial)))) (\<lambda>scale.
     bnd (b_const (c_ext C) scale ''global_avg_pool_scale'') (\<lambda>c.
     bnd (b_mul g c) (\<lambda>dx.
     ret [Some dx]))))))))))"

text \<open>Each tap's share of a window's gradient: its equality with the maximum over the tie count.\<close>

definition maxpool_credit :: "ext \<Rightarrow> pool_sizes \<Rightarrow> string \<Rightarrow> string \<Rightarrow> string \<Rightarrow> string bst" where
  "maxpool_credit E z windows y g =
     (let taps = pl_taps z; n = pl_out_count z in
      bnd (reshape_to y (ints [pl_planes z, 1, n])) (\<lambda>y3.
      bnd (equal_mask E windows y3) (\<lambda>eq0.
      bnd (b_const E ([1, taps, n], pool_valid z) ''valid'') (\<lambda>v.
      bnd (b_mul eq0 v) (\<lambda>eq.
      bnd (reduce_sum eq [1] 1) (\<lambda>tie_count.
      bnd (b_div eq tie_count) (\<lambda>credit.
      bnd (reshape_to g (ints [pl_planes z, 1, n])) (\<lambda>g3.
      bnd (b_mul credit g3) (\<lambda>contrib.
      reshape_to contrib (ints [pl_planes z, taps * n]))))))))))"

definition grad_maxpool :: rule where
  "grad_maxpool C nd g =
     bnd (lift (input_at nd 0)) (\<lambda>x.
     bnd (lift (output_at nd 0)) (\<lambda>y.
     bnd (lift (ctx_shape C x)) (\<lambda>x_shape.
     bnd (lift (ctx_shape C y)) (\<lambda>y_shape.
     bnd (lift (pool_resolve nd x_shape y_shape True)) (\<lambda>z.
     bnd (reshape_to x (ints [pl_planes z, pl_in_count z])) (\<lambda>x2.
     bnd (lift (refuse_if (\<exists>n \<in> set (window_counts (pl_taps z) (pl_out_count z) (pool_valid z)). n = 0)
            UnsupportedOpError)) (\<lambda>_.
     bnd (gather_const x2
            (fst (im2col_indices (pl_in_dims z) (pl_out_dims z) (pl_kernel z) (pl_window z))) 1) (\<lambda>gathered.
     bnd (reshape_to gathered (ints [pl_planes z, pl_taps z, pl_out_count z])) (\<lambda>windows.
     bnd (maxpool_credit (c_ext C) z windows y g) (\<lambda>contrib2.
     bnd (pool_scatter (c_ext C) z (pl_out_count z) contrib2 x_shape) (\<lambda>dx.
     ret [Some dx])))))))))))"

section \<open>Contracts\<close>

lemma emit_pieces [emit_intros]:
  "{x} - {''''} \<subseteq> S \<Longrightarrow> emits K S (reshape_to x sh) (\<lambda>z. {z})"
  "{x} - {''''} \<subseteq> S \<Longrightarrow> emits K S (gather_const x index axis) (\<lambda>z. {z})"
  "{x} - {''''} \<subseteq> S \<Longrightarrow> emits K S (reduce_sum x axes k) (\<lambda>z. {z})"
  unfolding reshape_to_def gather_const_def reduce_sum_def
  by (rule emit_bnd emit_intros | (auto; fail)[1])+

lemma emit_masked_gather [emit_intros]:
  "{x} - {''''} \<subseteq> S \<Longrightarrow> emits K S (masked_gather E x index axis msk) (\<lambda>z. {z})"
  unfolding masked_gather_def by (rule emit_bnd emit_intros | (auto; fail)[1])+

lemma emit_equal_mask [emit_intros]:
  "{x, y} - {''''} \<subseteq> S \<Longrightarrow> emits K S (equal_mask E x y) (\<lambda>z. {z})"
  unfolding equal_mask_def by (rule emit_bnd emit_intros | (auto; fail)[1])+

lemma emit_conv_dx [emit_intros]:
  "{w, g4} - {''''} \<subseteq> S \<Longrightarrow> emits K S (conv_dx E z w g4 sh) (\<lambda>z. {z})"
  unfolding conv_dx_def Let_def by (rule emit_bnd emit_intros | (auto; fail)[1])+

lemma emit_conv_dw [emit_intros]:
  "{x, g4} - {''''} \<subseteq> S \<Longrightarrow> emits K S (conv_dw E z x g4 sh) (\<lambda>z. {z})"
  unfolding conv_dw_def Let_def by (rule emit_bnd emit_intros | (auto; fail)[1])+

lemma emit_conv_db [emit_intros]: "{g4} - {''''} \<subseteq> S \<Longrightarrow> emits K S (conv_db g4 m) (\<lambda>z. {z})"
  unfolding conv_db_def by (rule emit_bnd emit_intros | (auto; fail)[1])+

lemma emit_pool_scatter [emit_intros]:
  "{x} - {''''} \<subseteq> S \<Longrightarrow> emits K S (pool_scatter E z off x sh) (\<lambda>z. {z})"
  unfolding pool_scatter_def Let_def by (rule emit_bnd emit_intros | (auto; fail)[1])+

lemma emit_maxpool_credit [emit_intros]:
  "{win, y, g} - {''''} \<subseteq> S \<Longrightarrow> emits K S (maxpool_credit E z win y g) (\<lambda>z. {z})"
  unfolding maxpool_credit_def Let_def by (rule emit_bnd emit_intros | (auto; fail)[1])+

lemma contract_grad_conv: "rule_contract grad_conv"
  unfolding grad_conv_def
  by (rule rule_contractI) (rule emit_lift_bnd emit_bnd emit_intros | (auto simp: reads_simps; fail)[1])+

lemma contract_grad_averagepool: "rule_contract grad_averagepool"
  unfolding grad_averagepool_def
  by (rule rule_contractI) (rule emit_lift_bnd emit_bnd emit_intros | (auto simp: reads_simps; fail)[1])+

lemma contract_grad_global_averagepool: "rule_contract grad_global_averagepool"
  unfolding grad_global_averagepool_def Let_def
  by (rule rule_contractI) (rule emit_lift_bnd emit_bnd emit_intros | (auto simp: reads_simps; fail)[1])+

lemma contract_grad_maxpool: "rule_contract grad_maxpool"
  unfolding grad_maxpool_def
  by (rule rule_contractI) (rule emit_lift_bnd emit_bnd emit_intros | (auto simp: reads_simps; fail)[1])+

end
