(* ===== verification/Rules_Templated.thy ===== *)
theory Rules_Templated
  imports Rules_Pointwise
begin

text \<open>
  The templated rules of \<open>onnxsim/graph_grad.py\<close>, which call the checked-in functions of
  \<open>Grad_Templates\<close>; they are the ones the default table uses.
\<close>

section \<open>Templated rules\<close>

definition grad_add_templated :: rule where
  "grad_add_templated C nd g =
     bnd (b_call GRAD_ADD [g]) (\<lambda>outs.
     bnd (lift (unpack2 outs)) (\<lambda>(da, db).
     bnd (lift (out_shape C nd)) (\<lambda>out.
     bnd (lift (in_shape C nd 0)) (\<lambda>sa.
     bnd (reduce_to da out sa) (\<lambda>ra.
     bnd (lift (in_shape C nd 1)) (\<lambda>sb.
     bnd (reduce_to db out sb) (\<lambda>rb.
     ret [Some ra, Some rb])))))))"

definition grad_neg_templated :: rule where
  "grad_neg_templated C nd g =
     bnd (b_call GRAD_NEG [g]) (\<lambda>outs.
     bnd (lift (unpack1 outs)) (\<lambda>dx. ret [Some dx]))"

definition grad_exp_templated :: rule where
  "grad_exp_templated C nd g =
     bnd (lift (output_at nd 0)) (\<lambda>y.
     bnd (b_call GRAD_EXP [g, y]) (\<lambda>outs.
     bnd (lift (unpack1 outs)) (\<lambda>dx. ret [Some dx])))"

definition grad_sqrt_templated :: rule where
  "grad_sqrt_templated C nd g =
     bnd (lift (output_at nd 0)) (\<lambda>y.
     bnd (b_const (c_ext C) (scalar (1 / 2)) ''c'') (\<lambda>half.
     bnd (b_call GRAD_SQRT [g, y, half]) (\<lambda>outs.
     bnd (lift (unpack1 outs)) (\<lambda>dx. ret [Some dx]))))"

definition grad_log_templated :: rule where
  "grad_log_templated C nd g =
     bnd (lift (input_at nd 0)) (\<lambda>x.
     bnd (b_call GRAD_LOG [g, x]) (\<lambda>outs.
     bnd (lift (unpack1 outs)) (\<lambda>dx. ret [Some dx])))"

definition grad_sigmoid_templated :: rule where
  "grad_sigmoid_templated C nd g =
     bnd (lift (output_at nd 0)) (\<lambda>y.
     bnd (b_const (c_ext C) (scalar 1) ''c'') (\<lambda>one.
     bnd (b_call GRAD_SIGMOID [g, y, one]) (\<lambda>outs.
     bnd (lift (unpack1 outs)) (\<lambda>dx. ret [Some dx]))))"

definition grad_tanh_templated :: rule where
  "grad_tanh_templated C nd g =
     bnd (lift (output_at nd 0)) (\<lambda>y.
     bnd (b_const (c_ext C) (scalar 1) ''c'') (\<lambda>one.
     bnd (b_call GRAD_TANH [g, y, one]) (\<lambda>outs.
     bnd (lift (unpack1 outs)) (\<lambda>dx. ret [Some dx]))))"

definition grad_erf_templated :: rule where
  "grad_erf_templated C nd g =
     bnd (lift (input_at nd 0)) (\<lambda>x.
     bnd (b_const (c_ext C) (scalar two_over_sqrt_pi) ''c'') (\<lambda>c.
     bnd (b_call GRAD_ERF [g, x, c]) (\<lambda>outs.
     bnd (lift (unpack1 outs)) (\<lambda>dx. ret [Some dx]))))"

definition grad_mul_templated :: rule where
  "grad_mul_templated C nd g =
     bnd (lift (input_at nd 0)) (\<lambda>a.
     bnd (lift (input_at nd 1)) (\<lambda>b.
     bnd (lift (out_shape C nd)) (\<lambda>out.
     bnd (b_call GRAD_MUL [g, a, b]) (\<lambda>outs.
     bnd (lift (unpack2 outs)) (\<lambda>(da, db).
     bnd (lift (ctx_shape C a)) (\<lambda>sa.
     bnd (reduce_to da out sa) (\<lambda>ra.
     bnd (lift (ctx_shape C b)) (\<lambda>sb.
     bnd (reduce_to db out sb) (\<lambda>rb.
     ret [Some ra, Some rb])))))))))"

definition grad_div_templated :: rule where
  "grad_div_templated C nd g =
     bnd (lift (input_at nd 0)) (\<lambda>a.
     bnd (lift (input_at nd 1)) (\<lambda>b.
     bnd (lift (output_at nd 0)) (\<lambda>y.
     bnd (lift (ctx_shape C y)) (\<lambda>out.
     bnd (b_call GRAD_DIV [g, a, b, y]) (\<lambda>outs.
     bnd (lift (unpack2 outs)) (\<lambda>(da, db).
     bnd (lift (ctx_shape C a)) (\<lambda>sa.
     bnd (reduce_to da out sa) (\<lambda>ra.
     bnd (lift (ctx_shape C b)) (\<lambda>sb.
     bnd (reduce_to db out sb) (\<lambda>rb.
     ret [Some ra, Some rb]))))))))))"

section \<open>Contracts\<close>

lemma func_ok_GRAD_ADD [emit_intros]: "func_ok BACKWARD_OPS GRAD_ADD"
  by (simp add: func_ok_def templates reads_def TEMPLATES_def)

lemma func_ok_GRAD_BATCH_NORMALIZATION [emit_intros]: "func_ok BACKWARD_OPS GRAD_BATCH_NORMALIZATION"
  by (simp add: func_ok_def templates reads_def TEMPLATES_def)

lemma func_ok_GRAD_NEG [emit_intros]: "func_ok BACKWARD_OPS GRAD_NEG"
  by (simp add: func_ok_def templates reads_def TEMPLATES_def)

lemma func_ok_GRAD_EXP [emit_intros]: "func_ok BACKWARD_OPS GRAD_EXP"
  by (simp add: func_ok_def templates reads_def TEMPLATES_def)

lemma func_ok_GRAD_SQRT [emit_intros]: "func_ok BACKWARD_OPS GRAD_SQRT"
  by (simp add: func_ok_def templates reads_def TEMPLATES_def)

lemma func_ok_GRAD_LOG [emit_intros]: "func_ok BACKWARD_OPS GRAD_LOG"
  by (simp add: func_ok_def templates reads_def TEMPLATES_def)

lemma func_ok_GRAD_SIGMOID [emit_intros]: "func_ok BACKWARD_OPS GRAD_SIGMOID"
  by (simp add: func_ok_def templates reads_def TEMPLATES_def)

lemma func_ok_GRAD_TANH [emit_intros]: "func_ok BACKWARD_OPS GRAD_TANH"
  by (simp add: func_ok_def templates reads_def TEMPLATES_def)

lemma func_ok_GRAD_ERF [emit_intros]: "func_ok BACKWARD_OPS GRAD_ERF"
  by (simp add: func_ok_def templates reads_def TEMPLATES_def)

lemma func_ok_GRAD_MUL [emit_intros]: "func_ok BACKWARD_OPS GRAD_MUL"
  by (simp add: func_ok_def templates reads_def TEMPLATES_def)

lemma func_ok_GRAD_DIV [emit_intros]: "func_ok BACKWARD_OPS GRAD_DIV"
  by (simp add: func_ok_def templates reads_def TEMPLATES_def)

lemma contract_grad_add_templated: "rule_contract grad_add_templated"
  unfolding grad_add_templated_def
  by (rule rule_contractI) (rule emit_lift_bnd emit_bnd emit_intros | (auto simp: reads_simps; fail)[1])+

lemma contract_grad_neg_templated: "rule_contract grad_neg_templated"
  unfolding grad_neg_templated_def
  by (rule rule_contractI) (rule emit_lift_bnd emit_bnd emit_intros | (auto simp: reads_simps; fail)[1])+

lemma contract_grad_exp_templated: "rule_contract grad_exp_templated"
  unfolding grad_exp_templated_def
  by (rule rule_contractI) (rule emit_lift_bnd emit_bnd emit_intros | (auto simp: reads_simps; fail)[1])+

lemma contract_grad_sqrt_templated: "rule_contract grad_sqrt_templated"
  unfolding grad_sqrt_templated_def
  by (rule rule_contractI) (rule emit_lift_bnd emit_bnd emit_intros | (auto simp: reads_simps; fail)[1])+

lemma contract_grad_log_templated: "rule_contract grad_log_templated"
  unfolding grad_log_templated_def
  by (rule rule_contractI) (rule emit_lift_bnd emit_bnd emit_intros | (auto simp: reads_simps; fail)[1])+

lemma contract_grad_sigmoid_templated: "rule_contract grad_sigmoid_templated"
  unfolding grad_sigmoid_templated_def
  by (rule rule_contractI) (rule emit_lift_bnd emit_bnd emit_intros | (auto simp: reads_simps; fail)[1])+

lemma contract_grad_tanh_templated: "rule_contract grad_tanh_templated"
  unfolding grad_tanh_templated_def
  by (rule rule_contractI) (rule emit_lift_bnd emit_bnd emit_intros | (auto simp: reads_simps; fail)[1])+

lemma contract_grad_erf_templated: "rule_contract grad_erf_templated"
  unfolding grad_erf_templated_def
  by (rule rule_contractI) (rule emit_lift_bnd emit_bnd emit_intros | (auto simp: reads_simps; fail)[1])+

lemma contract_grad_mul_templated: "rule_contract grad_mul_templated"
  unfolding grad_mul_templated_def
  by (rule rule_contractI) (rule emit_lift_bnd emit_bnd emit_intros | (auto simp: reads_simps; fail)[1])+

lemma contract_grad_div_templated: "rule_contract grad_div_templated"
  unfolding grad_div_templated_def
  by (rule rule_contractI) (rule emit_lift_bnd emit_bnd emit_intros | (auto simp: reads_simps; fail)[1])+

end
