(* ===== verification/Rules_Norm.thy ===== *)
theory Rules_Norm
  imports Rules_Templated Rules_Shape
begin

text \<open>
  The normalization rules of \<open>onnxsim/graph_grad.py\<close>: \<open>LayerNormalization\<close>,
  \<open>InstanceNormalization\<close>, and inference-mode \<open>BatchNormalization\<close> both hand-written and
  templated (the default table uses the templated one).
\<close>

section \<open>Shared pieces\<close>

definition reduce_mean :: "string \<Rightarrow> int list \<Rightarrow> string bst" where
  "reduce_mean x axes = b_op ''ReduceMean'' [x] [(''axes'', AInts axes), (''keepdims'', AInt 1)]"

text \<open>The reshape of a per-channel vector to \<open>bshape\<close> (the closures \<open>bcast\<close>).\<close>

definition bcast :: "int list \<Rightarrow> string \<Rightarrow> string bst" where
  "bcast bshape t =
     bnd (int64_const (ints bshape) ''shape'') (\<lambda>sh. b_op ''Reshape'' [t, sh] [])"

definition reduce_channel :: "int list \<Rightarrow> string \<Rightarrow> string bst" where
  "reduce_channel axes t =
     bnd (int64_const (ints axes) ''axes'') (\<lambda>ax.
     b_op ''ReduceSum'' [t, ax] [(''keepdims'', AInt 0)])"

definition default_epsilon :: attr_val where
  "default_epsilon = AFloat (1 / 100000)"

text \<open>Each parameter tensor must have shape \<open>(channels,)\<close>.\<close>

definition channel_vectors :: "ctx \<Rightarrow> int \<Rightarrow> string list \<Rightarrow> unit list res" where
  "channel_vectors C channels ts =
     mapE (\<lambda>t. bindE (ctx_shape C t) (\<lambda>sh. refuse_if (sh \<noteq> [DInt channels]) UnsupportedOpError)) ts"

definition channel_bshape :: "int \<Rightarrow> nat \<Rightarrow> int list" where
  "channel_bshape channels rank = 1 # channels # replicate (rank - 2) 1"

definition spatial_axes :: "nat \<Rightarrow> int list" where
  "spatial_axes rank = range_int 2 (int rank)"

text \<open>
  The statistics and the input gradient that layer and instance normalization share: \<open>inv_sd\<close> and
  \<open>xhat\<close> first, then \<open>dx\<close> from \<open>gs\<close>, the gradient already multiplied by the scale.
\<close>

definition norm_stats :: "ext \<Rightarrow> real \<Rightarrow> int list \<Rightarrow> string \<Rightarrow> (string \<times> string) bst" where
  "norm_stats E eps axes x =
     bnd (reduce_mean x axes) (\<lambda>mu.
     bnd (b_sub x mu) (\<lambda>xc.
     bnd (b_mul xc xc) (\<lambda>sq.
     bnd (reduce_mean sq axes) (\<lambda>var.
     bnd (b_const E (scalar 1) ''c'') (\<lambda>one.
     bnd (b_const E (scalar eps) ''c'') (\<lambda>ep.
     bnd (b_add var ep) (\<lambda>ve.
     bnd (b_sqrt ve) (\<lambda>sd.
     bnd (b_div one sd) (\<lambda>inv_sd.
     bnd (b_mul xc inv_sd) (\<lambda>xhat.
     ret (inv_sd, xhat)))))))))))"

definition norm_dx :: "int list \<Rightarrow> string \<Rightarrow> string \<Rightarrow> string \<Rightarrow> string bst" where
  "norm_dx axes gs inv_sd xhat =
     bnd (reduce_mean gs axes) (\<lambda>mean_gs.
     bnd (b_mul gs xhat) (\<lambda>gx.
     bnd (reduce_mean gx axes) (\<lambda>mean_gs_xhat.
     bnd (b_sub gs mean_gs) (\<lambda>d1.
     bnd (b_mul xhat mean_gs_xhat) (\<lambda>d2.
     bnd (b_sub d1 d2) (\<lambda>d3.
     b_mul inv_sd d3))))))"

section \<open>The rules\<close>

definition grad_layer_normalization :: rule where
  "grad_layer_normalization C nd g =
     bnd (lift (input_at nd 0)) (\<lambda>x.
     bnd (lift (input_at nd 1)) (\<lambda>scale.
     bnd (lift (ctx_shape C x)) (\<lambda>shape.
     let rank = length shape in
     bnd (lift (attr_int (attr_or nd ''axis'' (AInt (-1))))) (\<lambda>a.
     bnd (lift (mod_len a rank)) (\<lambda>axis.
     bnd (lift (attr_float (attr_or nd ''epsilon'' default_epsilon))) (\<lambda>eps.
     let axes = range_int (int axis) (int rank) in
     bnd (norm_stats (c_ext C) eps axes x) (\<lambda>(inv_sd, xhat).
     bnd (b_mul g scale) (\<lambda>gs.
     bnd (norm_dx axes gs inv_sd xhat) (\<lambda>dx.
     bnd (b_mul g xhat) (\<lambda>gx.
     bnd (lift (ctx_shape C scale)) (\<lambda>sc.
     bnd (reduce_to gx shape sc) (\<lambda>dscale.
     if real_input nd 2 then
       bnd (lift (in_shape C nd 2)) (\<lambda>sb.
       bnd (reduce_to g shape sb) (\<lambda>db.
       ret [Some dx, Some dscale, Some db]))
     else ret [Some dx, Some dscale]))))))))))))"

definition grad_instance_normalization :: rule where
  "grad_instance_normalization C nd g =
     bnd (lift (input_at nd 0)) (\<lambda>x.
     bnd (lift (input_at nd 1)) (\<lambda>scale.
     bnd (lift (input_at nd 2)) (\<lambda>bias.
     bnd (lift (ctx_shape C x)) (\<lambda>x_shape.
     let rank = length x_shape in
     bnd (lift (refuse_if (rank < 3) UnsupportedOpError)) (\<lambda>_.
     bnd (lift (dim_int (x_shape ! 1))) (\<lambda>channels.
     bnd (lift (channel_vectors C channels [scale, bias])) (\<lambda>_.
     bnd (lift (attr_float (attr_or nd ''epsilon'' default_epsilon))) (\<lambda>eps.
     let axes = spatial_axes rank in
     bnd (bcast (channel_bshape channels rank) scale) (\<lambda>scale_b.
     bnd (norm_stats (c_ext C) eps axes x) (\<lambda>(inv_sd, xhat).
     bnd (b_mul g scale_b) (\<lambda>gs.
     bnd (norm_dx axes gs inv_sd xhat) (\<lambda>dx.
     bnd (b_mul g xhat) (\<lambda>gx.
     bnd (reduce_channel (0 # axes) gx) (\<lambda>dscale.
     bnd (reduce_channel (0 # axes) g) (\<lambda>dbias.
     ret [Some dx, Some dscale, Some dbias])))))))))))))))"

text \<open>The checks both batch-normalization rules start with: the node's five inputs and its channels.\<close>

definition batch_norm_params ::
  "ctx \<Rightarrow> node \<Rightarrow> ((string \<times> string \<times> string \<times> string) \<times> int \<times> nat \<times> real) res" where
  "batch_norm_params C nd =
     bindE (input_at nd 0) (\<lambda>x.
     bindE (input_at nd 1) (\<lambda>scale.
     bindE (input_at nd 2) (\<lambda>bias.
     bindE (input_at nd 3) (\<lambda>mean.
     bindE (input_at nd 4) (\<lambda>var.
     bindE (ctx_shape C x) (\<lambda>x_shape.
     bindE (refuse_if (length x_shape < 2) UnsupportedOpError) (\<lambda>_.
     bindE (dim_int (x_shape ! 1)) (\<lambda>channels.
     bindE (channel_vectors C channels [scale, bias, mean, var]) (\<lambda>_.
     bindE (attr_float (attr_or nd ''epsilon'' default_epsilon)) (\<lambda>eps.
     Inr ((x, scale, mean, var), channels, length x_shape, eps)))))))))))"

text \<open>The normalized input: \<open>inv\<close> and \<open>xhat\<close>, from the node's own mean and variance.\<close>

definition bn_stats :: "ext \<Rightarrow> int list \<Rightarrow> real \<Rightarrow> string \<Rightarrow> string \<Rightarrow> string \<Rightarrow> (string \<times> string) bst" where
  "bn_stats E bshape eps x mean var =
     bnd (bcast bshape mean) (\<lambda>mean_b.
     bnd (b_sub x mean_b) (\<lambda>xc.
     bnd (b_const E (scalar 1) ''c'') (\<lambda>one.
     bnd (bcast bshape var) (\<lambda>var_b.
     bnd (b_const E (scalar eps) ''c'') (\<lambda>ep.
     bnd (b_add var_b ep) (\<lambda>ve.
     bnd (b_sqrt ve) (\<lambda>sd.
     bnd (b_div one sd) (\<lambda>inv_sd.
     bnd (b_mul xc inv_sd) (\<lambda>xhat.
     ret (inv_sd, xhat))))))))))"

text \<open>The four per-channel gradients from \<open>dx\<close>, \<open>xhat\<close> and \<open>inv\<close>.\<close>

definition bn_channel_grads ::
  "ext \<Rightarrow> int list \<Rightarrow> string \<Rightarrow> string \<Rightarrow> string \<Rightarrow> string \<Rightarrow> string option list bst" where
  "bn_channel_grads E channel_axes g dx inv_sd xhat =
     bnd (b_mul g xhat) (\<lambda>gx.
     bnd (reduce_channel channel_axes gx) (\<lambda>dscale.
     bnd (reduce_channel channel_axes g) (\<lambda>dbias.
     bnd (reduce_channel channel_axes dx) (\<lambda>dxs.
     bnd (b_op ''Neg'' [dxs] []) (\<lambda>dmean.
     bnd (b_mul dx xhat) (\<lambda>t1.
     bnd (b_mul t1 inv_sd) (\<lambda>t2.
     bnd (reduce_channel channel_axes t2) (\<lambda>t3.
     bnd (b_const E (scalar (- 1 / 2)) ''c'') (\<lambda>nh.
     bnd (b_mul t3 nh) (\<lambda>dvar.
     ret [Some dscale, Some dbias, Some dmean, Some dvar]))))))))))"

definition grad_batch_normalization :: rule where
  "grad_batch_normalization C nd g =
     bnd (lift (batch_norm_params C nd)) (\<lambda>((x, scale, mean, var), channels, rank, eps).
     let bshape = channel_bshape channels rank in
     bnd (bn_stats (c_ext C) bshape eps x mean var) (\<lambda>(inv_sd, xhat).
     bnd (bcast bshape scale) (\<lambda>scale_b.
     bnd (b_mul g scale_b) (\<lambda>gs.
     bnd (b_mul gs inv_sd) (\<lambda>dx.
     bnd (bn_channel_grads (c_ext C) (0 # spatial_axes rank) g dx inv_sd xhat) (\<lambda>rest.
     ret (Some dx # rest)))))))"

definition bn_template_call ::
  "ext \<Rightarrow> int list \<Rightarrow> int list \<Rightarrow> real \<Rightarrow> string \<Rightarrow> string \<Rightarrow> string \<Rightarrow> string \<Rightarrow> string \<Rightarrow> string list bst" where
  "bn_template_call E bshape axes eps g x scale mean var =
     bnd (int64_const (ints axes) ''axes'') (\<lambda>channel_axes.
     bnd (bcast bshape mean) (\<lambda>mean_b.
     bnd (bcast bshape var) (\<lambda>var_b.
     bnd (bcast bshape scale) (\<lambda>scale_b.
     bnd (b_const E (scalar eps) ''c'') (\<lambda>ep.
     bnd (b_const E (scalar 1) ''c'') (\<lambda>one.
     bnd (b_const E (scalar (- 1 / 2)) ''c'') (\<lambda>neg_half.
     b_call GRAD_BATCH_NORMALIZATION
       [g, x, mean_b, var_b, scale_b, ep, channel_axes, one, neg_half])))))))"

definition grad_batch_normalization_templated :: rule where
  "grad_batch_normalization_templated C nd g =
     bnd (lift (batch_norm_params C nd)) (\<lambda>((x, scale, mean, var), channels, rank, eps).
     bnd (bn_template_call (c_ext C) (channel_bshape channels rank) (0 # spatial_axes rank) eps
            g x scale mean var) (\<lambda>outs.
     bnd (lift (unpack5 outs)) (\<lambda>(dx, dscale, dbias, dmean, dvar).
     ret [Some dx, Some dscale, Some dbias, Some dmean, Some dvar])))"

section \<open>Contracts\<close>

lemma emit_reduce_mean [emit_intros]:
  "{x} - {''''} \<subseteq> S \<Longrightarrow> emits K S (reduce_mean x axes) (\<lambda>z. {z})"
  unfolding reduce_mean_def by (rule emit_op_in) auto

lemma emit_bcast [emit_intros]: "{x} - {''''} \<subseteq> S \<Longrightarrow> emits K S (bcast bs x) (\<lambda>z. {z})"
  unfolding bcast_def by (rule emit_bnd emit_intros | (auto; fail)[1])+

lemma emit_reduce_channel [emit_intros]:
  "{x} - {''''} \<subseteq> S \<Longrightarrow> emits K S (reduce_channel axes x) (\<lambda>z. {z})"
  unfolding reduce_channel_def by (rule emit_bnd emit_intros | (auto; fail)[1])+

lemma emit_norm_stats [emit_intros]:
  "{x} - {''''} \<subseteq> S \<Longrightarrow> emits K S (norm_stats E eps axes x) (\<lambda>r. {fst r, snd r})"
  unfolding norm_stats_def by (rule emit_bnd emit_intros | (auto; fail)[1])+

lemma emit_norm_dx [emit_intros]:
  "{gs, inv_sd, xhat} - {''''} \<subseteq> S \<Longrightarrow> emits K S (norm_dx axes gs inv_sd xhat) (\<lambda>z. {z})"
  unfolding norm_dx_def by (rule emit_bnd emit_intros | (auto; fail)[1])+

lemma contract_grad_layer_normalization: "rule_contract grad_layer_normalization"
  unfolding grad_layer_normalization_def Let_def
  by (rule rule_contractI) (rule emit_lift_bnd emit_bnd emit_intros | (auto simp: reads_simps; fail)[1])+

lemma contract_grad_instance_normalization: "rule_contract grad_instance_normalization"
  unfolding grad_instance_normalization_def Let_def
  by (rule rule_contractI) (rule emit_lift_bnd emit_bnd emit_intros | (auto simp: reads_simps; fail)[1])+

lemma batch_norm_params_Inr:
  "batch_norm_params C nd = Inr ((x, scale, mean, var), channels, rank, eps) \<Longrightarrow>
     {x, scale, mean, var} \<subseteq> set (inputs nd)"
  by (auto simp: batch_norm_params_def res_iff)

lemma emit_bn_stats [emit_intros]:
  "{x, mean, var} - {''''} \<subseteq> S \<Longrightarrow>
     emits K S (bn_stats E bshape eps x mean var) (\<lambda>r. {fst r, snd r})"
  unfolding bn_stats_def by (rule emit_bnd emit_intros | (auto; fail)[1])+

lemma emit_bn_channel_grads [emit_intros]:
  "{g, dx, i, xhat} - {''''} \<subseteq> S \<Longrightarrow> emits K S (bn_channel_grads E axes g dx i xhat) somes"
  unfolding bn_channel_grads_def by (rule emit_bnd emit_intros | (auto; fail)[1])+

lemma emit_bn_template_call [emit_intros]:
  "{g, x, scale, mean, var} - {''''} \<subseteq> S \<Longrightarrow>
     emits K S (bn_template_call E bshape axes eps g x scale mean var) set"
  unfolding bn_template_call_def by (rule emit_bnd emit_intros | (auto; fail)[1])+

lemma contract_grad_batch_normalization: "rule_contract grad_batch_normalization"
proof (rule rule_contractI)
  fix C nd and g :: string and K
  assume g: "g \<noteq> ''''"
  have "emits K (rule_reads nd {g})
      (bnd (bn_stats E bshape eps x mean var) (\<lambda>(i, xhat).
       bnd (bcast bshape scale) (\<lambda>scale_b. bnd (b_mul g scale_b) (\<lambda>gs. bnd (b_mul gs i) (\<lambda>dx.
       bnd (bn_channel_grads E axes g dx i xhat) (\<lambda>rest. ret (Some dx # rest))))))) somes"
    if "{x, scale, mean, var} \<subseteq> set (inputs nd)" for E bshape eps axes x scale mean var
    using g that by - (rule emit_bnd emit_intros | (auto simp: reads_simps; fail)[1])+
  then show "emits K (rule_reads nd {g}) (grad_batch_normalization C nd g) somes"
    unfolding grad_batch_normalization_def Let_def
    by (intro emit_lift_bnd) (auto dest: batch_norm_params_Inr)
qed

lemma contract_grad_batch_normalization_templated: "rule_contract grad_batch_normalization_templated"
proof (rule rule_contractI)
  fix C nd and g :: string and K
  assume g: "g \<noteq> ''''"
  have "emits K (rule_reads nd {g})
      (bnd (bn_template_call E bshape axes eps g x scale mean var) (\<lambda>outs.
       bnd (lift (unpack5 outs)) (\<lambda>(dx, dscale, dbias, dmean, dvar).
       ret [Some dx, Some dscale, Some dbias, Some dmean, Some dvar]))) somes"
    if "{x, scale, mean, var} \<subseteq> set (inputs nd)" for E bshape eps axes x scale mean var
    using g that by - (rule emit_lift_bnd emit_bnd emit_intros | (auto simp: reads_simps; fail)[1])+
  then show "emits K (rule_reads nd {g}) (grad_batch_normalization_templated C nd g) somes"
    unfolding grad_batch_normalization_templated_def
    by (intro emit_lift_bnd) (auto dest: batch_norm_params_Inr)
qed

end
