(* ===== verification/Rule_Table.thy ===== *)
theory Rule_Table
  imports Rules_Conv Rules_Norm
begin

text \<open>
  The rule tables of \<open>onnxsim/graph_grad.py\<close> and the registry of custom rules:
  \<open>_RULES\<close>, \<open>_PYTHON_ONLY_RULES\<close>, \<open>_MULTI_OUTPUT_RULES\<close>, \<open>supported_ops\<close>,
  \<open>register_gradient\<close>, \<open>unregister_gradient\<close> and the scoped \<open>custom_gradient\<close>.  The registry is the
  process-global dictionary \<open>_CUSTOM_RULES\<close>, threaded explicitly.
\<close>

section \<open>The tables\<close>

definition RULES :: "(string \<times> rule) list" where
  "RULES =
    [(''Add'', grad_add_templated),
     (''AveragePool'', grad_averagepool),
     (''BatchNormalization'', grad_batch_normalization_templated),
     (''Clip'', grad_clip),
     (''Conv'', grad_conv),
     (''Div'', grad_div_templated),
     (''Erf'', grad_erf_templated),
     (''Exp'', grad_exp_templated),
     (''Gather'', grad_gather),
     (''Gemm'', grad_gemm),
     (''Identity'', grad_identity),
     (''InstanceNormalization'', grad_instance_normalization),
     (''LayerNormalization'', grad_layer_normalization),
     (''Log'', grad_log_templated),
     (''MatMul'', grad_matmul),
     (''MaxPool'', grad_maxpool),
     (''Mul'', grad_mul_templated),
     (''Neg'', grad_neg_templated),
     (''ReduceMean'', grad_reduce),
     (''ReduceSum'', grad_reduce),
     (''Relu'', grad_relu),
     (''Reshape'', grad_reshape),
     (''Sigmoid'', grad_sigmoid_templated),
     (''Softmax'', grad_softmax),
     (''Sqrt'', grad_sqrt_templated),
     (''Sub'', grad_sub),
     (''Tanh'', grad_tanh_templated),
     (''Transpose'', grad_transpose)]"

definition PYTHON_ONLY_RULES :: "(string \<times> rule) list" where
  "PYTHON_ONLY_RULES =
    [(''Concat'', grad_concat),
     (''DequantizeLinear'', grad_dequantize_linear),
     (''DepthToSpace'', grad_depth_to_space),
     (''Elu'', grad_elu),
     (''Expand'', grad_expand),
     (''GlobalAveragePool'', grad_global_averagepool),
     (''IsNaN'', grad_is_nan),
     (''LeakyRelu'', grad_leaky_relu),
     (''Pad'', grad_pad),
     (''PRelu'', grad_prelu_scalar),
     (''QuantizeLinear'', grad_quantize_linear),
     (''Slice'', grad_slice),
     (''Softplus'', grad_softplus),
     (''Squeeze'', grad_squeeze_or_unsqueeze),
     (''Unsqueeze'', grad_squeeze_or_unsqueeze),
     (''Where'', grad_where)]"

definition MULTI_OUTPUT_RULES :: "(string \<times> multi_rule) list" where
  "MULTI_OUTPUT_RULES = [(''Dropout'', grad_inference_dropout), (''Split'', grad_split)]"

definition SUPPORTED_OPS :: "string set" where
  "SUPPORTED_OPS = set (map fst RULES)"

section \<open>The registry\<close>

type_synonym registry = "string \<rightharpoonup> rule"

definition supported_ops :: "registry \<Rightarrow> string set" where
  "supported_ops reg =
     SUPPORTED_OPS \<union> dom reg \<union> set (map fst MULTI_OUTPUT_RULES) \<union> set (map fst PYTHON_ONLY_RULES)"

definition register_gradient :: "string \<Rightarrow> rule \<Rightarrow> bool \<Rightarrow> (registry, unit) st" where
  "register_gradient ty rl override reg =
     (if \<not> override \<and>
         (ty \<in> set (map fst RULES) \<or> ty \<in> set (map fst PYTHON_ONLY_RULES) \<or> reg ty \<noteq> None)
      then (Inl ValueError, reg)
      else (Inr (), reg(ty \<mapsto> rl)))"

definition unregister_gradient :: "string \<Rightarrow> (registry, unit) st" where
  "unregister_gradient ty reg =
     (case reg ty of None \<Rightarrow> (Inl KeyError, reg) | Some _ \<Rightarrow> (Inr (), reg(ty := None)))"

text \<open>
  \<open>with custom_gradient(op_type, rule): body\<close>.  The \<open>finally\<close> clause runs on both exits, and an
  exception it raises replaces the one in flight.
\<close>

definition custom_gradient ::
  "string \<Rightarrow> rule \<Rightarrow> bool \<Rightarrow> (registry, 'a) st \<Rightarrow> (registry, 'a) st" where
  "custom_gradient ty rl override body =
     bnd (register_gradient ty rl override) (\<lambda>_ reg.
       case body reg of (outcome, reg') \<Rightarrow>
         (case unregister_gradient ty reg' of
            (Inl e, reg'') \<Rightarrow> (Inl e, reg'')
          | (Inr _, reg'') \<Rightarrow> (outcome, reg'')))"

text \<open>
  \<open>dict(_RULES, **_PYTHON_ONLY_RULES, **_CUSTOM_RULES)\<close>: the keyword arguments of one call must be
  distinct, so a custom rule for a Python-only op makes the call raise \<open>TypeError\<close>; against
  \<open>_RULES\<close>, the positional argument, a keyword wins.
\<close>

definition default_rules :: "registry \<Rightarrow> (string \<rightharpoonup> rule) res" where
  "default_rules reg =
     (if \<exists>ty \<in> set (map fst PYTHON_ONLY_RULES). reg ty \<noteq> None then Inl TypeError
      else Inr ((map_of RULES ++ map_of PYTHON_ONLY_RULES) ++ reg))"

section \<open>Every rule of the tables meets its contract\<close>

lemma map_of_contract:
  assumes "map_of tbl ty = Some rl" and "\<forall>r \<in> set (map snd tbl). P r"
  shows "P rl"
  using assms map_of_SomeD by fastforce

lemma RULES_contract: "map_of RULES ty = Some rl \<Longrightarrow> rule_contract rl"
  by (erule map_of_contract)
    (simp add: RULES_def contract_grad_add_templated contract_grad_averagepool
      contract_grad_batch_normalization_templated contract_grad_clip contract_grad_conv
      contract_grad_div_templated contract_grad_erf_templated contract_grad_exp_templated
      contract_grad_gather contract_grad_gemm contract_grad_identity
      contract_grad_instance_normalization contract_grad_layer_normalization
      contract_grad_log_templated contract_grad_matmul contract_grad_maxpool
      contract_grad_mul_templated contract_grad_neg_templated contract_grad_reduce
      contract_grad_relu contract_grad_reshape contract_grad_sigmoid_templated
      contract_grad_softmax contract_grad_sqrt_templated contract_grad_sub
      contract_grad_tanh_templated contract_grad_transpose)

lemma PYTHON_ONLY_contract: "map_of PYTHON_ONLY_RULES ty = Some rl \<Longrightarrow> rule_contract rl"
  by (erule map_of_contract)
    (simp add: PYTHON_ONLY_RULES_def contract_grad_concat contract_grad_dequantize_linear
      contract_grad_depth_to_space contract_grad_elu contract_grad_expand
      contract_grad_global_averagepool contract_grad_is_nan contract_grad_leaky_relu
      contract_grad_pad contract_grad_prelu_scalar contract_grad_quantize_linear
      contract_grad_slice contract_grad_softplus contract_grad_squeeze_or_unsqueeze
      contract_grad_where)

lemma MULTI_contract: "map_of MULTI_OUTPUT_RULES ty = Some rl \<Longrightarrow> multi_contract rl"
  by (erule map_of_contract)
    (simp add: MULTI_OUTPUT_RULES_def contract_grad_inference_dropout contract_grad_split)

lemma default_rules_contract:
  assumes "default_rules reg = Inr rules" and "\<And>ty rl. reg ty = Some rl \<Longrightarrow> rule_contract rl"
    and "rules ty = Some rl"
  shows "rule_contract rl"
  using assms RULES_contract PYTHON_ONLY_contract
  by (auto simp: default_rules_def map_add_Some_iff split: if_splits)

end
