(* ===== verification/Backward_Pass.thy ===== *)
theory Backward_Pass
  imports Rule_Table
begin

text \<open>
  \<open>build_backward\<close> of \<open>onnxsim/graph_grad.py\<close>: the reverse walk over the forward slice that asks
  each node's rule for its input gradients and accumulates them by name.
\<close>

section \<open>The pass\<close>

type_synonym grads = "string \<rightharpoonup> string"

text \<open>One input's contribution: skipped, first, or added to what is there.\<close>

definition accumulate_one :: "grads \<Rightarrow> string \<times> string option \<Rightarrow> grads bst" where
  "accumulate_one grads nc =
     (case nc of (name, contribution) \<Rightarrow>
      if name = '''' then ret grads
      else case contribution of
        None \<Rightarrow> ret grads
      | Some c \<Rightarrow> (case grads name of
          None \<Rightarrow> ret (grads(name \<mapsto> c))
        | Some existing \<Rightarrow> bnd (b_add existing c) (\<lambda>s. ret (grads(name \<mapsto> s)))))"

definition accumulate :: "node \<Rightarrow> string option list \<Rightarrow> grads \<Rightarrow> grads bst" where
  "accumulate nd contributions grads =
     bnd (lift (refuse_if (length contributions \<noteq> length (inputs nd)) AssertionError)) (\<lambda>_.
     foldM accumulate_one grads (zip (inputs nd) contributions))"

text \<open>The message of the refusal names the node, by its first output when it has no name of its own.\<close>

definition no_rule :: "node \<Rightarrow> exn" where
  "no_rule nd = (if node_name nd = '''' \<and> outputs nd = [] then IndexError else UnsupportedOpError)"

definition backward_step :: "(string \<rightharpoonup> rule) \<Rightarrow> ctx \<Rightarrow> grads \<Rightarrow> node \<Rightarrow> grads bst" where
  "backward_step rules C grads nd =
     (case map_of MULTI_OUTPUT_RULES (op_type nd) of
        Some multi_rule \<Rightarrow>
          let gs = map grads (outputs nd) in
          if \<forall>g \<in> set gs. g = None then ret grads
          else bnd (multi_rule C nd gs) (\<lambda>cs. accumulate nd cs grads)
      | None \<Rightarrow>
          (case rules (op_type nd) of
             None \<Rightarrow> raise (no_rule nd)
           | Some rl \<Rightarrow>
               (case outputs nd of
                  [out] \<Rightarrow>
                    (case grads out of
                       None \<Rightarrow> ret grads
                     | Some g \<Rightarrow> bnd (rl C nd g) (\<lambda>cs. accumulate nd cs grads))
                | _ \<Rightarrow> raise UnsupportedOpError)))"

definition collect_targets :: "grads \<Rightarrow> string list \<Rightarrow> grads res" where
  "collect_targets grads targets =
     foldE (\<lambda>result target.
        case grads target of None \<Rightarrow> Inl ValueError | Some g \<Rightarrow> Inr (result(target \<mapsto> g)))
       Map.empty targets"

definition build_backward_with ::
  "ext \<Rightarrow> (string \<rightharpoonup> rule) \<Rightarrow> node list \<Rightarrow> (string \<rightharpoonup> shape) \<Rightarrow> grads \<Rightarrow> string list \<Rightarrow> grads bst" where
  "build_backward_with E rules nodes shapes grad_outputs targets b =
     (let C = new_ctx E b shapes in
      bnd (foldM (backward_step rules C) grad_outputs (rev nodes)) (\<lambda>grads.
      lift (collect_targets grads targets)) b)"

text \<open>\<open>rules=None\<close> takes the default tables and the registry; otherwise the given table.\<close>

definition build_backward ::
  "ext \<Rightarrow> registry \<Rightarrow> node list \<Rightarrow> (string \<rightharpoonup> shape) \<Rightarrow> grads \<Rightarrow> string list \<Rightarrow> (string \<rightharpoonup> rule) option
     \<Rightarrow> grads bst" where
  "build_backward E reg nodes shapes grad_outputs targets rules =
     bnd (lift (case rules of None \<Rightarrow> default_rules reg | Some t \<Rightarrow> Inr t)) (\<lambda>table.
     build_backward_with E table nodes shapes grad_outputs targets)"

section \<open>The emission contract of the pass\<close>

text \<open>Names that can be read are nonempty, so an emission may assume it of what it starts from.\<close>

lemma emit_nonempty:
  assumes "'''' \<notin> K" and "'''' \<notin> S \<Longrightarrow> emit A K S m T"
  shows "emit A K S m T"
proof (cases "'''' \<in> S")
  case True
  with assms(1) show ?thesis
    by (intro emitI) (auto simp: avail_def builder_wf_def)
qed (use assms in blast)

lemma ran_upd_sub: "ran gr \<subseteq> S \<Longrightarrow> x \<in> S \<Longrightarrow> ran (gr(name \<mapsto> x)) \<subseteq> S"
  by (auto simp: ran_def)

lemma emit_accumulate_one:
  assumes "ran gr \<subseteq> S" and "set_option (snd nc) \<subseteq> S"
  shows "emits K S (accumulate_one gr nc) ran"
proof -
  have "emits K S (bnd (b_add e c) (\<lambda>s. ret (gr(name \<mapsto> s)))) ran"
    if "gr name = Some e" "c \<in> S" for e c name
    using that assms(1)
    by - (rule emit_bnd emit_binary emit_ret ran_upd_sub | (auto simp: ran_def; fail)[1])+
  then show ?thesis
    using assms
    by (auto simp: accumulate_one_def split: prod.splits option.splits intro!: emit_ret ran_upd_sub)
qed

lemma emit_accumulate:
  assumes "ran gr \<subseteq> S" and "somes cs \<subseteq> S"
  shows "emits K S (accumulate nd cs gr) ran"
  unfolding accumulate_def
proof (rule emit_lift_bnd, rule emit_foldM)
  fix acc nc
  assume "nc \<in> set (zip (inputs nd) cs)"
  then have "snd nc \<in> set cs" by (metis prod.collapse set_zip_rightD)
  then have "set_option (snd nc) \<subseteq> S" using assms(2) by (cases "snd nc") (auto simp: somes_def)
  then show "emits K (S \<union> ran acc) (accumulate_one acc nc) ran"
    by (intro emit_accumulate_one) auto
qed (rule assms(1))

text \<open>
  What the walk may rely on: the interface between \<open>build_backward\<close> and whatever rule table it is
  given.  The client lemmas are proved once for every table that meets it.
\<close>

locale rule_table =
  fixes rules :: "string \<rightharpoonup> rule"
  assumes table_contract: "rules ty = Some rl \<Longrightarrow> rule_contract rl"
begin

lemma emit_backward_step:
  assumes K: "'''' \<notin> K" and nd: "set (inputs nd) \<union> set (outputs nd) - {''''} \<subseteq> S"
    and gr: "ran gr \<subseteq> S"
  shows "emits K S (backward_step rules C gr nd) ran"
proof (rule emit_nonempty [OF K])
  assume S: "'''' \<notin> S"
  have single: "emits K S (bnd (rl C nd g) (\<lambda>cs. accumulate nd cs gr)) ran"
    if "rules ty = Some rl" "gr out = Some g" for ty rl out g
  proof (rule emit_bnd)
    have "g \<in> S" using that(2) gr by (auto simp: ran_def)
    with S have "g \<noteq> ''''" by blast
    then have "emits K (rule_reads nd {g}) (rl C nd g) somes"
      using table_contract [OF that(1)] by (rule rule_contractD [rotated])
    then show "emits K S (rl C nd g) somes"
      by (rule emit_weaken) (use nd \<open>g \<in> S\<close> in \<open>auto simp: rule_reads_def\<close>)
    show "emits K (S \<union> somes cs) (accumulate nd cs gr) ran" for cs
      using gr by (intro emit_accumulate) auto
  qed
  have multi: "emits K S (bnd (rl C nd gs) (\<lambda>cs. accumulate nd cs gr)) ran"
    if "map_of MULTI_OUTPUT_RULES ty = Some rl" "gs = map gr (outputs nd)" for ty rl gs
  proof (rule emit_bnd)
    have gs: "somes gs \<subseteq> S" using that(2) gr by (auto simp: somes_def ran_def image_iff dest: sym)
    with S have "'''' \<notin> somes gs" by blast
    then have "emits K (rule_reads nd (somes gs)) (rl C nd gs) somes"
      using MULTI_contract [OF that(1)] by (rule multi_contractD [rotated])
    then show "emits K S (rl C nd gs) somes"
      by (rule emit_weaken) (use nd gs in \<open>auto simp: rule_reads_def\<close>)
    show "emits K (S \<union> somes cs) (accumulate nd cs gr) ran" for cs
      using gr by (intro emit_accumulate) auto
  qed
  show "emits K S (backward_step rules C gr nd) ran"
    unfolding backward_step_def Let_def using gr single multi
    by (auto split: option.splits list.splits intro!: emit_ret emit_lift)
qed

lemma emit_build_backward_with:
  assumes K: "'''' \<notin> K" and nodes: "\<forall>nd \<in> set nodes. set (inputs nd) \<union> set (outputs nd) - {''''} \<subseteq> S"
    and gr: "ran grad_outputs \<subseteq> S"
  shows "emits K S (build_backward_with E rules nodes shapes grad_outputs targets) ran"
proof -
  have collect: "ran r \<subseteq> ran gr" if "collect_targets gr targets = Inr r" for gr r
    using that unfolding collect_targets_def
  proof (rule foldE_invariant [where P = "\<lambda>r. ran r \<subseteq> ran gr"])
    fix a x a'
    assume "ran a \<subseteq> ran gr" and "(case gr x of None \<Rightarrow> Inl ValueError | Some g \<Rightarrow> Inr (a(x \<mapsto> g))) = Inr a'"
    then show "ran a' \<subseteq> ran gr"
      using ran_upd_sub [of a "ran gr" "the (gr x)" x] by (auto simp: ranI split: option.splits)
  qed simp
  have "emits K S (bnd (foldM (backward_step rules C) grad_outputs (rev nodes))
      (\<lambda>gr. lift (collect_targets gr targets))) ran" for C
  proof (rule emit_bnd)
    show "emits K S (foldM (backward_step rules C) grad_outputs (rev nodes)) ran"
      using nodes gr by (intro emit_foldM emit_backward_step [OF K]) auto
    show "emits K (S \<union> ran gr') (lift (collect_targets gr' targets)) ran" for gr'
      using collect by (intro emit_lift) blast
  qed
  note body = this
  show ?thesis
  proof (rule emitI)
    fix b r b'
    assume wf: "builder_wf K b" and S: "S \<subseteq> avail K b"
      and run: "build_backward_with E rules nodes shapes grad_outputs targets b = (r, b')"
    from run have "bnd (foldM (backward_step rules (new_ctx E b shapes)) grad_outputs (rev nodes))
        (\<lambda>gr. lift (collect_targets gr targets)) b = (r, b')"
      by (simp add: build_backward_with_def)
    from emitD [OF body wf S this]
    show "builder_wf K b' \<and> grows BACKWARD_OPS b b' \<and> (\<forall>x. r = Inr x \<longrightarrow> ran x \<subseteq> avail K b')"
      by blast
  qed
qed

end

text \<open>The default tables, with a registry of rules that keep the contract, meet the interface.\<close>

interpretation builtin: rule_table "map_of RULES ++ map_of PYTHON_ONLY_RULES"
  by unfold_locales (auto simp: map_add_Some_iff RULES_contract PYTHON_ONLY_contract)

lemma rule_table_default:
  "default_rules reg = Inr rules \<Longrightarrow> (\<And>ty rl. reg ty = Some rl \<Longrightarrow> rule_contract rl) \<Longrightarrow> rule_table rules"
  by unfold_locales (rule default_rules_contract)

section \<open>Refusals\<close>

lemma foldM_error:
  assumes "x \<in> set xs" and "\<And>acc s. \<exists>e s'. f acc x s = (Inl e, s')"
  shows "\<exists>e s'. foldM f acc xs s = (Inl e, s')"
  using assms(1)
proof (induction xs arbitrary: acc s)
  case Nil
  then show ?case by simp
next
  case (Cons y ys)
  show ?case
  proof (cases "fst (f acc y s)")
    case (Inl e)
    then show ?thesis by (cases "f acc y s") (auto simp: bnd_def)
  next
    case (Inr a)
    then obtain s' where run: "f acc y s = (Inr a, s')" by (cases "f acc y s") auto
    have "x \<noteq> y" using assms(2) [of acc s] run by auto
    with Cons.prems have "x \<in> set ys" by simp
    from Cons.IH [OF this] run show ?thesis by (simp add: bnd_def)
  qed
qed

lemma backward_step_unknown:
  "rules (op_type nd) = None \<Longrightarrow> map_of MULTI_OUTPUT_RULES (op_type nd) = None \<Longrightarrow>
     backward_step rules C gr nd b = (Inl (no_rule nd), b)"
  by (simp add: backward_step_def lift_run)

lemma supported_iff:
  assumes "default_rules reg = Inr rules"
  shows "ty \<in> supported_ops reg \<longleftrightarrow> rules ty \<noteq> None \<or> map_of MULTI_OUTPUT_RULES ty \<noteq> None"
proof -
  have "rules = (map_of RULES ++ map_of PYTHON_ONLY_RULES) ++ reg"
    using assms by (simp add: default_rules_def split: if_splits)
  then have "dom rules = dom reg \<union> (set (map fst PYTHON_ONLY_RULES) \<union> set (map fst RULES))"
    by (simp add: dom_map_of_conv_image_fst)
  moreover have "dom (map_of MULTI_OUTPUT_RULES) = set (map fst MULTI_OUTPUT_RULES)"
    by (simp add: dom_map_of_conv_image_fst)
  ultimately show ?thesis
    unfolding supported_ops_def SUPPORTED_OPS_def by blast
qed

text \<open>
  C14.  A slice is refused from its operators alone: if some node's type is not in \<open>supported_ops()\<close>,
  the default \<open>build_backward\<close> raises, whichever tensors carry gradients; and when that node is the
  first one visited (and has an output) the exception is \<open>UnsupportedOpError\<close>, with nothing appended
  to the builder, unless the registry itself breaks the default table.
\<close>

theorem unsupported_op_refused:
  assumes "nd \<in> set nodes" and "op_type nd \<notin> supported_ops reg"
  shows "(\<exists>e b'. build_backward E reg nodes shapes seeds targets None b = (Inl e, b')) \<and>
         (nd = last nodes \<longrightarrow> outputs nd \<noteq> [] \<longrightarrow> default_rules reg \<noteq> Inl TypeError \<longrightarrow>
            build_backward E reg nodes shapes seeds targets None b = (Inl UnsupportedOpError, b))"
proof (cases "default_rules reg")
  case (Inl e)
  then have "e = TypeError" by (simp add: default_rules_def split: if_splits)
  with Inl show ?thesis by (simp add: build_backward_def lift_run)
next
  case (Inr rules)
  then have none: "rules (op_type nd) = None" "map_of MULTI_OUTPUT_RULES (op_type nd) = None"
    using assms(2) supported_iff by blast+
  let ?C = "new_ctx E b shapes"
  have "\<exists>e b'. foldM (backward_step rules ?C) seeds (rev nodes) b = (Inl e, b')"
    using assms(1) backward_step_unknown [where rules = rules, OF none] by (intro foldM_error) auto
  then have 1: "\<exists>e b'. build_backward E reg nodes shapes seeds targets None b = (Inl e, b')"
    by (auto simp: build_backward_def Inr build_backward_with_def bnd_def)
  have "build_backward E reg nodes shapes seeds targets None b = (Inl UnsupportedOpError, b)"
    if "nd = last nodes" "outputs nd \<noteq> []"
  proof -
    have "nodes \<noteq> []" using assms(1) by auto
    then have "nodes = butlast nodes @ [nd]" using that(1) by (metis append_butlast_last_id)
    then have rv: "rev nodes = nd # rev (butlast nodes)" by (metis rev.simps(2) rev_rev_ident rev_swap)
    have "foldM (backward_step rules ?C) seeds (rev nodes) b = (Inl UnsupportedOpError, b)"
      unfolding rv using that(2) by (simp add: bnd_def backward_step_unknown [where rules = rules, OF none] no_rule_def)
    then show ?thesis
      by (simp add: build_backward_def Inr build_backward_with_def bnd_def)
  qed
  with 1 show ?thesis by blast
qed

theorem unsupported_op_refused_witness:
  "\<exists>e b'. build_backward \<lparr>f32 = (\<lambda>v. v), np_broadcast = (\<lambda>s t. Inr s)\<rparr> Map.empty
      [make_node ''Loop'' [''x''] [''y''] '''' [], make_node ''Relu'' [''y''] [''z''] '''' []]
      Map.empty Map.empty [''x''] None (new_builder ''bw_'') = (Inl e, b')"
  using unsupported_op_refused [of "make_node ''Loop'' [''x''] [''y''] '''' []"
    "[make_node ''Loop'' [''x''] [''y''] '''' [], make_node ''Relu'' [''y''] [''z''] '''' []]" Map.empty]
  by (simp add: supported_ops_def SUPPORTED_OPS_def RULES_def PYTHON_ONLY_RULES_def MULTI_OUTPUT_RULES_def)

text \<open>
  C15.  \<open>supported_ops()\<close> is exact: an operator is in it exactly when the table the default
  \<open>build_backward\<close> assembles, or the multi-output table it consults first, has a rule for it.
\<close>

theorem supported_ops_exact:
  assumes "default_rules reg = Inr rules"
  shows "supported_ops reg = dom rules \<union> dom (map_of MULTI_OUTPUT_RULES)"
  using supported_iff [OF assms] by auto

theorem supported_ops_exact_witness:
  "supported_ops Map.empty = dom (map_of RULES ++ map_of PYTHON_ONLY_RULES) \<union> dom (map_of MULTI_OUTPUT_RULES)"
  by (rule supported_ops_exact) (simp add: default_rules_def)

section \<open>The registry and the pass\<close>

text \<open>
  C16.  Overriding the rule of a Python-only operator disables differentiation altogether: a
  registration \<open>register_gradient(op, rule, override=True)\<close> for such an operator is accepted, and from
  then on every default \<open>build_backward\<close>, of any slice, raises \<open>TypeError\<close> while assembling its table.
\<close>

theorem python_only_override_breaks_pass:
  assumes "ty \<in> set (map fst PYTHON_ONLY_RULES)"
  shows "\<exists>reg'. register_gradient ty rl True reg = (Inr (), reg') \<and>
           (\<forall>E nodes shapes seeds targets b.
              build_backward E reg' nodes shapes seeds targets None b = (Inl TypeError, b))"
  using assms by (auto simp: register_gradient_def build_backward_def default_rules_def lift_run)

theorem python_only_override_breaks_pass_witness:
  "\<exists>reg'. register_gradient ''Elu'' grad_elu True Map.empty = (Inr (), reg') \<and>
     (\<forall>E nodes shapes seeds targets b.
        build_backward E reg' nodes shapes seeds targets None b = (Inl TypeError, b))"
  by (rule python_only_override_breaks_pass) (simp add: PYTHON_ONLY_RULES_def)

text \<open>
  C17.  A registration for an operator of the multi-output table is accepted without \<open>override\<close> and
  silently ignored: the pass keeps consulting that table first, so every \<open>build_backward\<close> with the
  registration behaves exactly as without it.
\<close>

theorem multi_output_registration_ignored:
  assumes "ty \<in> set (map fst MULTI_OUTPUT_RULES)" and "reg ty = None"
  shows "register_gradient ty rl False reg = (Inr (), reg(ty \<mapsto> rl)) \<and>
         build_backward E (reg(ty \<mapsto> rl)) nodes shapes seeds targets None b =
           build_backward E reg nodes shapes seeds targets None b"
proof
  have ty: "ty \<notin> set (map fst RULES)" "ty \<notin> set (map fst PYTHON_ONLY_RULES)"
    using assms(1) by (auto simp: MULTI_OUTPUT_RULES_def RULES_def PYTHON_ONLY_RULES_def)
  then show "register_gradient ty rl False reg = (Inr (), reg(ty \<mapsto> rl))"
    using assms(2) by (simp add: register_gradient_def)
  have step: "backward_step (rules(ty \<mapsto> rl)) = backward_step rules" for rules
  proof (intro ext)
    fix C gr nd b
    have "map_of MULTI_OUTPUT_RULES ty \<noteq> None"
      using assms(1) by (auto simp: map_of_eq_None_iff)
    then show "backward_step (rules(ty \<mapsto> rl)) C gr nd b = backward_step rules C gr nd b"
      by (cases "op_type nd = ty") (auto simp: backward_step_def split: option.split)
  qed
  have "default_rules (reg(ty \<mapsto> rl)) =
      bindE (default_rules reg) (\<lambda>rules. Inr (rules(ty \<mapsto> rl)))"
    using ty by (auto simp: default_rules_def)
  then show "build_backward E (reg(ty \<mapsto> rl)) nodes shapes seeds targets None b =
      build_backward E reg nodes shapes seeds targets None b"
    by (cases "default_rules reg") (simp_all add: build_backward_def build_backward_with_def step)
qed

theorem multi_output_registration_ignored_witness:
  "register_gradient ''Split'' grad_identity False Map.empty = (Inr (), [''Split'' \<mapsto> grad_identity]) \<and>
   (\<forall>E nodes shapes seeds targets b.
      build_backward E [''Split'' \<mapsto> grad_identity] nodes shapes seeds targets None b =
        build_backward E Map.empty nodes shapes seeds targets None b)"
  using multi_output_registration_ignored [of "''Split''" Map.empty grad_identity]
  by (simp add: MULTI_OUTPUT_RULES_def)

text \<open>
  C18.  \<open>custom_gradient\<close> is scoped, for an operator with no custom rule on entry and a body that does not
  itself unregister the operator's rule: the body runs with exactly that one rule added, its result or
  its exception is the scope's, and on exit the operator has no custom rule while the body's own
  registrations for other operators stay; when it makes none, the registry on exit is the registry on
  entry.
\<close>

theorem custom_gradient_scoped:
  assumes "reg ty = None" and "override \<or> ty \<notin> set (map fst RULES) \<union> set (map fst PYTHON_ONLY_RULES)"
    and "body (reg(ty \<mapsto> rl)) = (outcome, reg')" and "reg' ty \<noteq> None"
  shows "\<exists>left. custom_gradient ty rl override body reg = (outcome, left) \<and> left ty = None \<and>
           (\<forall>t. t \<noteq> ty \<longrightarrow> left t = reg' t) \<and> (reg' = reg(ty \<mapsto> rl) \<longrightarrow> left = reg)"
proof -
  have "reg(ty := None) = reg" using assms(1) by (simp add: fun_upd_idem)
  moreover have "register_gradient ty rl override reg = (Inr (), reg(ty \<mapsto> rl))"
    using assms(1,2) by (simp add: register_gradient_def)
  ultimately show ?thesis
    using assms(3,4) by (auto simp: custom_gradient_def bnd_def unregister_gradient_def split: option.split)
qed

theorem custom_gradient_scoped_witness:
  "\<exists>left. custom_gradient ''Reciprocal'' grad_identity False (\<lambda>r. (Inl ValueError :: unit res, r(''MyOp'' \<mapsto> grad_relu)))
       Map.empty = (Inl ValueError, left) \<and> left ''Reciprocal'' = None \<and> left ''MyOp'' = Some grad_relu"
proof -
  let ?body = "\<lambda>r :: registry. (Inl ValueError :: unit res, r(''MyOp'' \<mapsto> grad_relu))"
  have "\<exists>left. custom_gradient ''Reciprocal'' grad_identity False ?body Map.empty = (Inl ValueError, left) \<and>
      left ''Reciprocal'' = None \<and>
      (\<forall>t. t \<noteq> ''Reciprocal'' \<longrightarrow> left t = (Map.empty(''Reciprocal'' \<mapsto> grad_identity, ''MyOp'' \<mapsto> grad_relu)) t) \<and>
      (Map.empty(''Reciprocal'' \<mapsto> grad_identity, ''MyOp'' \<mapsto> grad_relu) = Map.empty(''Reciprocal'' \<mapsto> grad_identity) \<longrightarrow>
         left = Map.empty)"
    by (rule custom_gradient_scoped [OF _ _ refl]) (simp_all add: RULES_def PYTHON_ONLY_RULES_def)
  then obtain left where left: "custom_gradient ''Reciprocal'' grad_identity False ?body Map.empty = (Inl ValueError, left)"
      "left ''Reciprocal'' = None" "\<forall>t. t \<noteq> ''Reciprocal'' \<longrightarrow>
        left t = (Map.empty(''Reciprocal'' \<mapsto> grad_identity, ''MyOp'' \<mapsto> grad_relu)) t"
    by blast
  moreover from left(3) have "left ''MyOp'' = Some grad_relu" by simp
  ultimately show ?thesis by blast
qed

text \<open>
  C19.  Nested \<open>custom_gradient\<close> scopes for one operator do not nest: with \<open>override=True\<close> the inner
  scope's exit removes the outer rule instead of restoring it, so the outer scope's own exit raises
  \<open>KeyError\<close> even though both bodies succeeded.
\<close>

theorem custom_gradient_nested_fails:
  assumes "override \<or> (reg ty = None \<and> ty \<notin> set (map fst RULES) \<union> set (map fst PYTHON_ONLY_RULES))"
  shows "custom_gradient ty rl override (custom_gradient ty rl' True (ret x)) reg =
           (Inl KeyError, reg(ty := None))"
proof -
  have "register_gradient ty rl override reg = (Inr (), reg(ty \<mapsto> rl))"
    using assms by (auto simp: register_gradient_def)
  then show ?thesis
    by (simp add: custom_gradient_def bnd_def register_gradient_def unregister_gradient_def ret_run)
qed

theorem custom_gradient_nested_fails_witness:
  "custom_gradient ''Relu'' grad_relu True (custom_gradient ''Relu'' grad_identity True (ret ())) Map.empty =
     (Inl KeyError, Map.empty)"
  using custom_gradient_nested_fails [of True Map.empty "''Relu''" grad_relu grad_identity "()"] by simp

end
