(* ===== verification/Semantics.thy ===== *)
theory Semantics
  imports Backward_Pass
begin

text \<open>
  The meaning of what a builder holds.  An interpretation gives each primitive operator its value
  on values of any type, and each constant tensor its value (the ONNX runtime is outside the
  repository, so both are parameters).  \<open>run_builder\<close> evaluates the initializers and then the
  nodes in order, calling model-local functions by their registered bodies; \<open>sound\<close> says that an
  environment satisfies every equation of the graph; a well-formed builder's run is sound.
  \<open>yields\<close> is the semantic counterpart of the emission contract: what the names a program returns
  stand for, in every environment that satisfies the graph it leaves behind.
\<close>

section \<open>Evaluation\<close>

record 'v interp =
  op_val :: "string \<Rightarrow> attributes \<Rightarrow> 'v list \<Rightarrow> 'v"
  const_val :: "tensor \<Rightarrow> 'v"

type_synonym 'v env = "string \<Rightarrow> 'v"

definition eval_primitive :: "'v interp \<Rightarrow> 'v env \<Rightarrow> node \<Rightarrow> 'v env" where
  "eval_primitive I env n =
     (case outputs n of
        [out] \<Rightarrow> env(out := op_val I (op_type n) (attributes n) (map env (inputs n)))
      | _ \<Rightarrow> env)"

definition eval_body :: "'v interp \<Rightarrow> node list \<Rightarrow> 'v env \<Rightarrow> 'v env" where
  "eval_body I body env = foldl (eval_primitive I) env body"

definition bind_args :: "string list \<Rightarrow> 'v list \<Rightarrow> 'v env" where
  "bind_args xs vs = (\<lambda>x. the (map_of (zip xs vs) x))"

definition call_vals :: "'v interp \<Rightarrow> func \<Rightarrow> 'v list \<Rightarrow> 'v list" where
  "call_vals I f args = map (eval_body I (f_body f) (bind_args (f_inputs f) args)) (f_outputs f)"

definition find_function :: "func list \<Rightarrow> node \<Rightarrow> func option" where
  "find_function fs n = find (\<lambda>f. f_domain f = domain n \<and> f_name f = op_type n) fs"

fun assign :: "'v env \<Rightarrow> (string \<times> 'v) list \<Rightarrow> 'v env" where
  "assign env [] = env"
| "assign env ((x, v) # xvs) = assign (env(x := v)) xvs"

definition eval_node :: "'v interp \<Rightarrow> func list \<Rightarrow> 'v env \<Rightarrow> node \<Rightarrow> 'v env" where
  "eval_node I fs env n =
     (if domain n = '''' then eval_primitive I env n
      else case find_function fs n of
             None \<Rightarrow> env
           | Some f \<Rightarrow> assign env (zip (outputs n) (call_vals I f (map env (inputs n)))))"

definition run_builder :: "'v interp \<Rightarrow> builder \<Rightarrow> 'v env \<Rightarrow> 'v env" where
  "run_builder I b env =
     foldl (eval_node I (b_functions b))
       (assign env (map (\<lambda>t. (t_name t, const_val I t)) (b_initializer b))) (b_nodes b)"

section \<open>Soundness of an environment\<close>

definition node_holds :: "'v interp \<Rightarrow> func list \<Rightarrow> 'v env \<Rightarrow> node \<Rightarrow> bool" where
  "node_holds I fs V n =
     (if domain n = '''' then
        (length (outputs n) = 1 \<longrightarrow>
           map V (outputs n) = [op_val I (op_type n) (attributes n) (map V (inputs n))])
      else case find_function fs n of
             None \<Rightarrow> True
           | Some f \<Rightarrow> length (outputs n) = length (f_outputs f) \<longrightarrow>
               map V (outputs n) = call_vals I f (map V (inputs n)))"

definition sound :: "'v interp \<Rightarrow> 'v env \<Rightarrow> builder \<Rightarrow> bool" where
  "sound I V b \<longleftrightarrow>
     (\<forall>t \<in> set (b_initializer b). V (t_name t) = const_val I t) \<and>
     (\<forall>n \<in> set (b_nodes b). node_holds I (b_functions b) V n)"

lemma assign_other: "x \<notin> fst ` set xvs \<Longrightarrow> assign env xvs x = env x"
  by (induction env xvs rule: assign.induct) auto

lemma assign_nth:
  "distinct xs \<Longrightarrow> length xs = length vs \<Longrightarrow> i < length xs \<Longrightarrow> assign env (zip xs vs) (xs ! i) = vs ! i"
proof (induction xs arbitrary: env vs i)
  case Nil
  then show ?case by simp
next
  case (Cons x xs)
  then obtain v vs' where vs: "vs = v # vs'" by (cases vs) auto
  have "x \<notin> fst ` set (zip xs vs')" using Cons.prems(1) by (auto dest: set_zip_leftD)
  with Cons vs show ?case by (cases i) (simp_all add: assign_other)
qed

lemma assign_map:
  assumes "distinct (map f ts)" and "t \<in> set ts"
  shows "assign env (map (\<lambda>t. (f t, g t)) ts) (f t) = g t"
proof -
  obtain i where i: "i < length ts" "t = ts ! i" using assms(2) by (metis in_set_conv_nth)
  have "map (\<lambda>t. (f t, g t)) ts = zip (map f ts) (map g ts)"
    by (simp add: list_eq_iff_nth_eq)
  with assign_nth [OF assms(1), of "map g ts" i env] i show ?thesis by simp
qed

lemma eval_primitive_other: "x \<notin> set (outputs n) \<Longrightarrow> eval_primitive I env n x = env x"
  by (auto simp: eval_primitive_def split: list.split)

lemma eval_node_other:
  assumes "x \<notin> set (outputs n)"
  shows "eval_node I fs env n x = env x"
proof (cases "domain n = ''''")
  case True
  with assms show ?thesis by (simp add: eval_node_def eval_primitive_other)
next
  case False
  have "assign env (zip (outputs n) vs) x = env x" for vs
    using assms by (intro assign_other) (auto dest: set_zip_leftD)
  with False show ?thesis by (cases "find_function fs n") (simp_all add: eval_node_def)
qed

lemma eval_nodes_other: "x \<notin> defs ns \<Longrightarrow> foldl (eval_node I fs) env ns x = env x"
  by (induction ns arbitrary: env) (auto simp: eval_node_other)

lemma eval_node_holds:
  assumes "distinct (outputs n)" and "set (outputs n) \<inter> set (inputs n) = {}"
  shows "node_holds I fs (eval_node I fs env n) n"
proof -
  have same: "map (eval_node I fs env n) (inputs n) = map env (inputs n)"
    using assms(2) eval_node_other by (intro map_cong refl) blast
  show ?thesis
  proof (cases "domain n = ''''")
    case True
    have "map (eval_node I fs env n) (outputs n) = [op_val I (op_type n) (attributes n) (map env (inputs n))]"
      if "length (outputs n) = 1"
      using that True by (auto simp: eval_node_def eval_primitive_def length_Suc_conv)
    with True show ?thesis by (simp add: node_holds_def same)
  next
    case False
    have assign: "map (assign env (zip xs vs)) xs = vs" if "distinct xs" "length xs = length vs" for xs and vs :: "'a list"
      using that by (intro nth_equalityI) (simp_all add: assign_nth)
    have "map (eval_node I fs env n) (outputs n) = call_vals I f (map env (inputs n))"
      if "find_function fs n = Some f" "length (outputs n) = length (f_outputs f)" for f
      using that False assms(1) assign [of "outputs n" "call_vals I f (map env (inputs n))"]
      by (simp add: eval_node_def call_vals_def)
    with False show ?thesis by (simp add: node_holds_def same split: option.split)
  qed
qed

lemma node_holds_cong:
  assumes "\<And>x. x \<in> set (inputs n) \<union> set (outputs n) \<Longrightarrow> V x = V' x"
  shows "node_holds I fs V n = node_holds I fs V' n"
proof -
  have "map V (inputs n) = map V' (inputs n)" "map V (outputs n) = map V' (outputs n)"
    using assms by auto
  then show ?thesis by (simp only: node_holds_def)
qed

lemma run_nodes_hold:
  assumes "ssa K ns" and "'''' \<notin> defs ns" and "n \<in> set ns"
  shows "node_holds I fs (foldl (eval_node I fs) env ns) n"
  using assms
proof (induction ns arbitrary: K env)
  case Nil
  then show ?case by simp
next
  case (Cons m ns)
  let ?K = "K \<union> set (outputs m)"
  have ssa: "ssa ?K ns" and m: "reads m \<subseteq> K" "distinct (outputs m)" "set (outputs m) \<inter> K = {}"
    using Cons.prems by auto
  show ?case
  proof (cases "n \<in> set ns")
    case True
    with Cons.IH [OF ssa] Cons.prems(2) show ?thesis by simp
  next
    case False
    with Cons.prems have n: "n = m" by simp
    have "set (outputs m) \<inter> set (inputs m) = {}"
      using m Cons.prems(2) by (auto simp: reads_def)
    then have holds: "node_holds I fs (eval_node I fs env m) m"
      by (rule eval_node_holds [OF m(2)])
    have "x \<notin> defs ns" if "x \<in> set (inputs m) \<union> set (outputs m)" for x
      using that ssa_defs_disjoint [OF ssa] m(1) Cons.prems(2) by (auto simp: reads_def)
    then have "node_holds I fs (foldl (eval_node I fs) env (m # ns)) m"
      using holds by (subst node_holds_cong [where V' = "eval_node I fs env m"])
        (auto simp: eval_nodes_other)
    with n show ?thesis by simp
  qed
qed

text \<open>A list of primitive nodes, such as a forward slice, run on its own.\<close>

lemma eval_body_simps [simp]:
  "eval_body I [] env = env"
  "eval_body I (n # ns) env = eval_body I ns (eval_primitive I env n)"
  by (simp_all add: eval_body_def)

lemma eval_body_other: "x \<notin> defs nodes \<Longrightarrow> eval_body I nodes env x = env x"
  by (induction nodes arbitrary: env) (auto simp: eval_primitive_other)

lemma eval_body_holds:
  assumes "ssa L nodes" and "'''' \<notin> defs nodes" and "\<forall>nd \<in> set nodes. domain nd = ''''"
    and "nd \<in> set nodes" and "outputs nd = [out]"
  shows "eval_body I nodes env out =
    op_val I (op_type nd) (attributes nd) (map (eval_body I nodes env) (inputs nd))"
proof -
  have "foldl (eval_node I []) env ns = eval_body I ns env" if "\<forall>nd \<in> set ns. domain nd = ''''" for ns env
    using that by (induction ns arbitrary: env) (auto simp: eval_node_def)
  then show ?thesis
    using run_nodes_hold [OF assms(1,2,4), of I "[]" env] assms(3-5) by (simp add: node_holds_def)
qed

text \<open>
  Running a graph of constants and nodes satisfies its equations and leaves the names it does not
  bind alone; in particular the graph of a well-formed builder.
\<close>

definition with_consts :: "'v interp \<Rightarrow> tensor list \<Rightarrow> 'v env \<Rightarrow> 'v env" where
  "with_consts I ts env = assign env (map (\<lambda>t. (t_name t, const_val I t)) ts)"

lemma with_consts_other: "x \<notin> t_name ` set ts \<Longrightarrow> with_consts I ts env x = env x"
  by (simp add: with_consts_def assign_other image_image)

lemma with_consts_name: "distinct (map t_name ts) \<Longrightarrow> t \<in> set ts \<Longrightarrow> with_consts I ts env (t_name t) = const_val I t"
  by (simp add: with_consts_def assign_map)

lemma run_graph_sound:
  assumes "ssa K ns" and "t_name ` set ts \<subseteq> K" and "distinct (map t_name ts)" and "'''' \<notin> defs ns"
    and V_def: "V = foldl (eval_node I fs) (with_consts I ts env) ns"
  shows "x \<in> K \<Longrightarrow> V x = with_consts I ts env x"
    and "t \<in> set ts \<Longrightarrow> V (t_name t) = const_val I t"
    and "n \<in> set ns \<Longrightarrow> node_holds I fs V n"
proof -
  show K: "V x = with_consts I ts env x" if "x \<in> K" for x
    unfolding V_def using that ssa_defs_disjoint [OF assms(1)] by (intro eval_nodes_other) blast
  show "t \<in> set ts \<Longrightarrow> V (t_name t) = const_val I t"
    using K assms(2,3) by (auto simp: with_consts_name)
  show "n \<in> set ns \<Longrightarrow> node_holds I fs V n"
    unfolding V_def by (rule run_nodes_hold [OF assms(1,4)])
qed

lemma run_builder_graph:
  "run_builder I b env = foldl (eval_node I (b_functions b)) (with_consts I (b_initializer b) env) (b_nodes b)"
  by (simp add: run_builder_def with_consts_def)

lemma run_builder_external:
  assumes "builder_wf K b" and "x \<in> K"
  shows "run_builder I b env x = env x"
proof -
  have "x \<notin> t_name ` set (b_initializer b)" using assms by (auto simp: builder_wf_def inits_def)
  then show ?thesis
    unfolding run_builder_graph
    using assms by (subst run_graph_sound(1) [of "K \<union> inits b", OF _ _ _ _ refl])
      (auto simp: builder_wf_def bound_def inits_def with_consts_other)
qed

lemma run_builder_sound:
  assumes wf: "builder_wf K b"
  shows "sound I (run_builder I b env) b"
proof -
  have g: "ssa (K \<union> inits b) (b_nodes b)" "t_name ` set (b_initializer b) \<subseteq> K \<union> inits b"
    "distinct (map t_name (b_initializer b))" "'''' \<notin> defs (b_nodes b)"
    using wf by (auto simp: builder_wf_def bound_def inits_def)
  show ?thesis
    unfolding sound_def run_builder_graph using run_graph_sound(2,3) [OF g refl] by blast
qed

section \<open>What a program's results stand for\<close>

text \<open>
  What the meaning of a call and of an interned constant rests on: the registered functions are the
  checked-in templates, and every interned name is an initializer holding the value it is filed under.
\<close>

definition builder_ok :: "builder \<Rightarrow> bool" where
  "builder_ok b \<longleftrightarrow>
     b_function_ids b = (\<lambda>f. (f_domain f, f_name f)) ` set (b_functions b) \<and>
     set (b_functions b) \<subseteq> set TEMPLATES \<and>
     (\<forall>a n. b_shared b a = Some n \<longrightarrow>
        \<lparr>t_name = n, t_dims = fst a, t_data = TFloat (snd a)\<rparr> \<in> set (b_initializer b))"

definition yields :: "'v interp \<Rightarrow> 'v env \<Rightarrow> 'a bst \<Rightarrow> ('a \<Rightarrow> bool) \<Rightarrow> bool" where
  "yields I V m P \<longleftrightarrow>
     (\<forall>b r b'. builder_ok b \<and> m b = (r, b') \<longrightarrow>
        builder_ok b' \<and> (sound I V b' \<longrightarrow> sound I V b \<and> (\<forall>x. r = Inr x \<longrightarrow> P x)))"

lemma yieldsI:
  "(\<And>b r b'. builder_ok b \<Longrightarrow> m b = (r, b') \<Longrightarrow>
      builder_ok b' \<and> (sound I V b' \<longrightarrow> sound I V b \<and> (\<forall>x. r = Inr x \<longrightarrow> P x))) \<Longrightarrow> yields I V m P"
  unfolding yields_def by blast

lemma yieldsD:
  assumes "yields I V m P" and "builder_ok b" and "m b = (r, b')"
  shows "builder_ok b'" and "sound I V b' \<Longrightarrow> sound I V b" and "sound I V b' \<Longrightarrow> r = Inr x \<Longrightarrow> P x"
  using assms unfolding yields_def by blast+

lemma yields_ret: "P x \<Longrightarrow> yields I V (ret x) P"
  by (rule yieldsI) (auto simp: ret_run)

lemma yields_lift: "(\<And>x. r = Inr x \<Longrightarrow> P x) \<Longrightarrow> yields I V (lift r) P"
  by (rule yieldsI) (auto simp: lift_run)

text \<open>What the first program's result satisfies becomes a hypothesis about the rest.\<close>

lemma yields_bnd:
  assumes m: "yields I V m P" and f: "\<And>x. yields I V (f x) (\<lambda>y. P x \<longrightarrow> Q y)"
  shows "yields I V (bnd m f) Q"
proof (rule yieldsI)
  fix b r b'
  assume ok: "builder_ok b" and run: "bnd m f b = (r, b')"
  obtain r1 b1 where m1: "m b = (r1, b1)" by (cases "m b")
  note s1 = yieldsD [OF m ok m1]
  show "builder_ok b' \<and> (sound I V b' \<longrightarrow> sound I V b \<and> (\<forall>x. r = Inr x \<longrightarrow> Q x))"
  proof (cases r1)
    case (Inl e)
    with run m1 s1 show ?thesis by (auto simp: bnd_def)
  next
    case (Inr x)
    with run m1 have "f x b1 = (r, b')" by (simp add: bnd_def)
    note s2 = yieldsD [OF f s1(1) this]
    from s1 s2 Inr show ?thesis by blast
  qed
qed

lemma yields_lift_bnd: "(\<And>x. r = Inr x \<Longrightarrow> yields I V (f x) Q) \<Longrightarrow> yields I V (bnd (lift r) f) Q"
  by (cases r) (auto intro: yields_lift)

lemma yields_weaken: "yields I V m P \<Longrightarrow> (\<And>x. P x \<Longrightarrow> Q x) \<Longrightarrow> yields I V m Q"
  unfolding yields_def by blast

lemma yields_imp: "(R \<Longrightarrow> yields I V m P) \<Longrightarrow> (\<And>P'. yields I V m (\<lambda>_. True)) \<Longrightarrow> yields I V m (\<lambda>x. R \<longrightarrow> P x)"
  unfolding yields_def by (cases R) auto

text \<open>A loop that threads an accumulator, with an invariant over the elements already done.\<close>

lemma yields_foldM:
  assumes step: "\<And>ds x rest acc. xs = ds @ x # rest \<Longrightarrow> yields I V (f acc x) (\<lambda>acc'. Inv ds acc \<longrightarrow> Inv (ds @ [x]) acc')"
  shows "yields I V (foldM f acc xs) (\<lambda>r. Inv [] acc \<longrightarrow> Inv xs r)"
proof -
  have "yields I V (foldM f acc ys) (\<lambda>r. Inv ds acc \<longrightarrow> Inv xs r)" if "xs = ds @ ys" for ds ys acc
    using that
  proof (induction ys arbitrary: ds acc)
    case Nil
    then show ?case by (simp add: yields_ret)
  next
    case (Cons y ys)
    have "yields I V (foldM f acc' ys) (\<lambda>r. (Inv ds acc \<longrightarrow> Inv (ds @ [y]) acc') \<longrightarrow> Inv ds acc \<longrightarrow> Inv xs r)" for acc'
      by (rule yields_weaken [OF Cons.IH [of "ds @ [y]"]]) (use Cons.prems in auto)
    then show ?case by (simp add: yields_bnd [OF step [OF Cons.prems]])
  qed
  from this [of "[]"] show ?thesis by simp
qed

lemma sound_mono:
  assumes "sound I V b'" and "set (b_initializer b) \<subseteq> set (b_initializer b')"
    and "set (b_nodes b) \<subseteq> set (b_nodes b')" and "b_functions b' = b_functions b"
  shows "sound I V b"
  using assms by (auto simp: sound_def)

text \<open>A builder that grew still holds the equations it held before: calls keep finding their functions.\<close>

lemma find_append_Some: "find P xs = Some x \<Longrightarrow> find P (xs @ ys) = Some x"
  by (induction xs) (auto split: if_splits)

lemma sound_grows:
  assumes "sound I V b'" and "grows A b b'"
  shows "sound I V b"
proof -
  obtain fs where fs: "b_functions b' = b_functions b @ fs" and sub: "set (b_initializer b) \<subseteq> set (b_initializer b')"
      "set (b_nodes b) \<subseteq> set (b_nodes b')"
    using assms(2) by (auto simp: grows_def)
  have "find_function (b_functions b') n = Some f" if "find_function (b_functions b) n = Some f" for n f
    using that by (simp add: find_function_def fs find_append_Some)
  then have "node_holds I (b_functions b) V n" if "node_holds I (b_functions b') V n" for n
    using that by (cases "find_function (b_functions b) n") (auto simp: node_holds_def split: if_splits)
  with assms(1) sub show ?thesis by (auto simp: sound_def)
qed

text \<open>The values of a slice are determined by its leaves.\<close>

lemma slice_determined:
  assumes "ssa L nodes" and "'''' \<notin> L \<union> defs nodes"
    and "\<forall>nd \<in> set nodes. domain nd = '''' \<and> '''' \<notin> set (inputs nd) \<and> (\<exists>out. outputs nd = [out]) \<and> node_holds I fs V nd"
    and "\<forall>x \<in> L. V x = env x"
  shows "\<forall>x \<in> L \<union> defs nodes. V x = eval_body I nodes env x"
  using assms
proof (induction nodes arbitrary: L env)
  case Nil
  then show ?case by simp
next
  case (Cons nd ns)
  from Cons.prems(3) obtain out where out: "outputs nd = [out]" by auto
  have ins: "set (inputs nd) \<subseteq> L" using Cons.prems(1,3) by (auto simp: reads_def)
  then have same: "map V (inputs nd) = map env (inputs nd)" using Cons.prems(4) by auto
  have "V out = op_val I (op_type nd) (attributes nd) (map V (inputs nd))"
    using Cons.prems(3) out by (auto simp: node_holds_def)
  with Cons.prems(1,4) out have "\<forall>x \<in> L \<union> set (outputs nd). V x = eval_primitive I env nd x"
    by (auto simp: eval_primitive_def same)
  with Cons.IH [of "L \<union> set (outputs nd)"] Cons.prems(1-3) show ?case by (simp add: Un_assoc)
qed

text \<open>Only the constants distinguish two interpretations with the same operators.\<close>

lemma eval_body_op_cong:
  assumes "op_val J = op_val I"
  shows "eval_body J = eval_body I"
proof -
  have "eval_primitive J = eval_primitive I"
    by (intro ext) (simp add: eval_primitive_def assms split: list.split)
  then show ?thesis by (intro ext) (simp add: eval_body_def)
qed

lemma node_holds_op_cong:
  assumes "op_val J = op_val I"
  shows "node_holds J = node_holds I"
proof -
  have "call_vals J = call_vals I"
    by (intro ext) (simp add: call_vals_def eval_body_op_cong [OF assms])
  then show ?thesis by (intro ext) (simp add: node_holds_def assms cong: option.case_cong)
qed

lemma yields_const:
  "yields I V (b_const E v h)
     (\<lambda>x. V x = const_val I \<lparr>t_name = x, t_dims = fst v, t_data = TFloat (map (f32 E) (snd v))\<rparr>)"
proof (rule yieldsI)
  fix b r b'
  assume ok: "builder_ok b" and run: "b_const E v h b = (r, b')"
  then have "builder_ok b'" and "sound I V b' \<longrightarrow> sound I V b"
    by (auto simp: b_const_def f32_const_def bnd_def b_name_run add_initializer_def ret_run Let_def builder_ok_def sound_def)
  moreover have "sound I V b' \<longrightarrow> r = Inr x \<longrightarrow>
      V x = const_val I \<lparr>t_name = x, t_dims = fst v, t_data = TFloat (map (f32 E) (snd v))\<rparr>" for x
    using run by (auto simp: b_const_def f32_const_def bnd_def b_name_run add_initializer_def ret_run Let_def sound_def to_f32_def)
  ultimately show "builder_ok b' \<and> (sound I V b' \<longrightarrow> sound I V b \<and> (\<forall>x. r = Inr x \<longrightarrow>
      V x = const_val I \<lparr>t_name = x, t_dims = fst v, t_data = TFloat (map (f32 E) (snd v))\<rparr>))"
    by blast
qed

lemma yields_op:
  "yields I V (b_op_in ty ins h '''' attrs) (\<lambda>x. V x = op_val I ty attrs (map V ins))"
proof (rule yieldsI)
  fix b r b'
  assume ok: "builder_ok b" and run: "b_op_in ty ins h '''' attrs b = (r, b')"
  then have "builder_ok b'" and "sound I V b' \<longrightarrow> sound I V b"
    by (auto simp: b_op_in_def bnd_def b_name_run add_node_def ret_run builder_ok_def sound_def)
  moreover have "sound I V b' \<longrightarrow> r = Inr x \<longrightarrow> V x = op_val I ty attrs (map V ins)" for x
    using run by (auto simp: b_op_in_def bnd_def b_name_run add_node_def ret_run sound_def node_holds_def)
  ultimately show "builder_ok b' \<and> (sound I V b' \<longrightarrow> sound I V b \<and>
      (\<forall>x. r = Inr x \<longrightarrow> V x = op_val I ty attrs (map V ins)))"
    by blast
qed

text \<open>A call stands for the body it names.\<close>

lemma find_function_template:
  assumes ok: "builder_ok b" and fn: "fn \<in> set TEMPLATES"
    and mem: "(f_domain fn, f_name fn) \<in> b_function_ids b"
    and n: "domain n = f_domain fn" "op_type n = f_name fn"
  shows "find_function (b_functions b) n = Some fn"
proof -
  have "\<exists>f \<in> set (b_functions b). f_domain f = domain n \<and> f_name f = op_type n"
    using ok mem n by (auto simp: builder_ok_def)
  then obtain f where f: "find_function (b_functions b) n = Some f"
    by (metis (mono_tags, lifting) find_None_iff find_function_def option.exhaust)
  then have "f \<in> set (b_functions b)" "f_name f = f_name fn"
    using n by (auto simp: find_function_def find_Some_iff)
  with ok fn have "f = fn" by (intro TEMPLATES_by_name) (auto simp: builder_ok_def)
  with f show ?thesis by simp
qed

lemma TEMPLATES_domain: "fn \<in> set TEMPLATES \<Longrightarrow> f_domain fn = ''onnxsim.grad''"
  by (auto simp: TEMPLATES_def templates)

lemma yields_call:
  assumes fn: "fn \<in> set TEMPLATES"
  shows "yields I V (b_call fn ins) (\<lambda>outs. map V outs = call_vals I fn (map V ins))"
proof (rule yieldsI)
  fix b r b'
  assume ok: "builder_ok b" and run: "b_call fn ins b = (r, b')"
  obtain r1 b1 where 1: "register_function fn b = (r1, b1)" by fastforce
  have b1: "builder_ok b1" "(f_domain fn, f_name fn) \<in> b_function_ids b1" "r1 = Inr ()"
      "b_nodes b1 = b_nodes b" "b_initializer b1 = b_initializer b"
    using 1 ok fn by (auto simp: register_function_def Let_def builder_ok_def split: if_splits)
  have fs: "set (b_functions b1) \<subseteq> set TEMPLATES" "set (b_functions b) \<subseteq> set (b_functions b1)"
    and app: "\<exists>gs. b_functions b1 = b_functions b @ gs"
    using b1(1) 1 by (auto simp: builder_ok_def register_function_def Let_def split: if_splits)
  obtain r2 b2 where 2: "mapM (\<lambda>_. b_name (lower (f_name fn))) (f_outputs fn) b1 = (r2, b2)" by fastforce
  from mapM_b_name_run [OF 2] obtain outs where outs: "r2 = Inr outs" "length outs = length (f_outputs fn)"
      "b2 = b1\<lparr>b_counter := b_counter b1 + length (f_outputs fn)\<rparr>"
    by blast
  define n where "n = make_node (f_name fn) ins outs (f_domain fn) []"
  have r: "r = Inr outs" and b': "b' = b2\<lparr>b_nodes := b_nodes b1 @ [n]\<rparr>"
    using run 1 2 b1(3) outs by (auto simp: b_call_def bnd_def add_node_def n_def ret_run)
  have find: "find_function (b_functions b1) n = Some fn"
    using find_function_template [OF b1(1) fn b1(2)] by (simp add: n_def)
  have "builder_ok b'" using b1(1) by (simp add: b' outs(3) builder_ok_def)
  moreover have "sound I V b" if s: "sound I V b'"
  proof -
    have "node_holds I (b_functions b) V m" if "m \<in> set (b_nodes b)" for m
    proof -
      have "node_holds I (b_functions b1) V m"
        using s that by (simp add: sound_def b' outs(3) b1(4))
      moreover have "find_function (b_functions b1) m = Some f" if "find_function (b_functions b) m = Some f" for f
        using that app by (auto simp: find_function_def find_append_Some)
      ultimately show ?thesis
        by (cases "find_function (b_functions b) m") (auto simp: node_holds_def split: if_splits)
    qed
    with s show ?thesis by (simp add: sound_def b' outs(3) b1(5))
  qed
  moreover have "map V outs = call_vals I fn (map V ins)" if "sound I V b'"
  proof -
    have "node_holds I (b_functions b1) V n" using that by (simp add: sound_def b' outs(3))
    then show ?thesis
      using find outs(2) TEMPLATES_domain [OF fn] by (simp add: node_holds_def n_def)
  qed
  ultimately show "builder_ok b' \<and> (sound I V b' \<longrightarrow> sound I V b \<and>
      (\<forall>x. r = Inr x \<longrightarrow> map V x = call_vals I fn (map V ins)))"
    using r by auto
qed

text \<open>Operations whose meaning is that of one operator.\<close>

lemma yields_binary:
  "yields I V (b_add x y) (\<lambda>z. V z = op_val I ''Add'' [] [V x, V y])"
  "yields I V (b_sub x y) (\<lambda>z. V z = op_val I ''Sub'' [] [V x, V y])"
  "yields I V (b_mul x y) (\<lambda>z. V z = op_val I ''Mul'' [] [V x, V y])"
  "yields I V (b_div x y) (\<lambda>z. V z = op_val I ''Div'' [] [V x, V y])"
  unfolding b_add_def b_sub_def b_mul_def b_div_def
  by (rule yields_weaken [OF yields_op], simp)+

lemma yields_cast: "yields I V (b_cast x ty) (\<lambda>z. V z = op_val I ''Cast'' [(''to'', AInt ty)] [V x])"
  unfolding b_cast_def by (rule yields_weaken [OF yields_op]) simp

end
