(* ===== verification/Adjoint.thy ===== *)
theory Adjoint
  imports Semantics
begin

text \<open>
  Reverse-mode differentiation as an adjoint identity.  A tangent \<open>T\<close> assigns each forward tensor
  its directional derivative and \<open>ip\<close> pairs a gradient with a tangent.  The locale states what each
  rule owes: the pairings of the contributions it returns with its inputs' tangents add up to the
  pairing of the incoming gradient with its output's tangent.  The walk of \<open>build_backward\<close> then
  moves the whole pairing from the seeds to the leaves of the slice.  \<open>fits\<close> says which values have
  the shape of a tensor: pairings are additive only on those, and the walk keeps every gradient one.
\<close>

definition pairing :: "('v \<Rightarrow> 'v \<Rightarrow> real) \<Rightarrow> 'v env \<Rightarrow> 'v env \<Rightarrow> grads \<Rightarrow> string set \<Rightarrow> real" where
  "pairing ip V T gr X = (\<Sum>n\<in>dom gr - X. ip (V (the (gr n))) (T n))"

definition contribution :: "('v \<Rightarrow> 'v \<Rightarrow> real) \<Rightarrow> 'v env \<Rightarrow> 'v env \<Rightarrow> string \<times> string option \<Rightarrow> real" where
  "contribution ip V T nc =
     (case nc of (x, c) \<Rightarrow> if x = '''' then 0 else (case c of None \<Rightarrow> 0 | Some g \<Rightarrow> ip (V g) (T x)))"

definition contribution_fits :: "(string \<Rightarrow> 'v \<Rightarrow> bool) \<Rightarrow> 'v env \<Rightarrow> string \<times> string option \<Rightarrow> bool" where
  "contribution_fits fits V nc =
     (case nc of (x, c) \<Rightarrow> x \<noteq> '''' \<longrightarrow> (case c of None \<Rightarrow> True | Some g \<Rightarrow> fits x (V g)))"

text \<open>The order the walk visits: no node reads what it or an already visited node defines.\<close>

fun visits :: "string set \<Rightarrow> node list \<Rightarrow> bool" where
  "visits X [] = True"
| "visits X (n # ns) = (reads n \<inter> (X \<union> set (outputs n)) = {} \<and> set (outputs n) \<inter> X = {} \<and>
                        visits (X \<union> set (outputs n)) ns)"

lemma visits_rev: "ssa K nodes \<Longrightarrow> X \<inter> (K \<union> defs nodes) = {} \<Longrightarrow> visits X (rev nodes)"
proof (induction nodes arbitrary: X rule: rev_induct)
  case Nil
  then show ?case by simp
next
  case (snoc n ns)
  have "(X \<union> set (outputs n)) \<inter> (K \<union> defs ns) = {}"
    using snoc.prems by (auto simp: ssa_snoc)
  with snoc show ?case by (auto simp: ssa_snoc)
qed

text \<open>The result dictionary has exactly the targets, each with its accumulated gradient.\<close>

lemma collect_targets_Inr:
  assumes "collect_targets gr targets = Inr res"
  shows "dom res = set targets" and "t \<in> set targets \<Longrightarrow> res t = gr t" and "set targets \<subseteq> dom gr"
proof -
  have "set targets \<subseteq> dom gr \<and> dom res = set targets \<union> dom acc \<and>
      (\<forall>t. res t = (if t \<in> set targets then gr t else acc t))"
    if "foldE (\<lambda>result target. case gr target of None \<Rightarrow> Inl ValueError | Some g \<Rightarrow> Inr (result(target \<mapsto> g)))
          acc targets = Inr res" for acc
    using that
  proof (induction targets arbitrary: acc)
    case Nil
    then show ?case by simp
  next
    case (Cons t ts)
    from Cons.prems obtain g where g: "gr t = Some g"
      by (auto split: option.splits)
    let ?f = "\<lambda>result target. case gr target of None \<Rightarrow> Inl ValueError | Some g \<Rightarrow> Inr (result(target \<mapsto> g))"
    from Cons.prems g have "foldE ?f (acc(t \<mapsto> g)) ts = Inr res" by (simp del: fun_upd_apply)
    note IH = Cons.IH [OF this]
    have "dom res = set (t # ts) \<union> dom acc" using IH by auto
    moreover have "\<forall>u. res u = (if u \<in> set (t # ts) then gr u else acc u)" using IH g by simp
    ultimately show ?case using IH g by auto
  qed
  from this [of Map.empty] assms show "dom res = set targets" "t \<in> set targets \<Longrightarrow> res t = gr t"
    "set targets \<subseteq> dom gr"
    by (auto simp: collect_targets_def)
qed

locale adjoint_rules =
  fixes I :: "'v interp" and V T :: "'v env" and ip :: "'v \<Rightarrow> 'v \<Rightarrow> real"
    and fits :: "string \<Rightarrow> 'v \<Rightarrow> bool"
    and rules :: "string \<rightharpoonup> rule" and E :: ext and shapes :: "string \<rightharpoonup> shape" and slice :: "node set"
  assumes add_fits: "fits x u \<Longrightarrow> fits x v \<Longrightarrow> fits x (op_val I ''Add'' [] [u, v])"
    and add_pairs: "fits x u \<Longrightarrow> fits x v \<Longrightarrow>
        ip (op_val I ''Add'' [] [u, v]) (T x) = ip u (T x) + ip v (T x)"
    and single: "nd \<in> slice \<Longrightarrow> map_of MULTI_OUTPUT_RULES (op_type nd) = None"
    and rule_adjoint: "nd \<in> slice \<Longrightarrow> rules (op_type nd) = Some rl \<Longrightarrow> outputs nd = [out] \<Longrightarrow>
        c_ext C = E \<Longrightarrow> c_shapes C = shapes \<Longrightarrow>
        yields I V (rl C nd g) (\<lambda>cs. length cs = length (inputs nd) \<and> fits out (V g) \<longrightarrow>
          (\<forall>nc \<in> set (zip (inputs nd) cs). contribution_fits fits V nc) \<and>
          sum_list (map (contribution ip V T) (zip (inputs nd) cs)) = ip (V g) (T out))"
begin

text \<open>The dictionary of gradients is finite and every gradient has its tensor's shape.\<close>

definition good :: "grads \<Rightarrow> bool" where
  "good gr \<longleftrightarrow> finite (dom gr) \<and> (\<forall>x g. gr x = Some g \<longrightarrow> fits x (V g))"

lemma good_upd: "good gr \<Longrightarrow> fits x (V g) \<Longrightarrow> good (gr(x \<mapsto> g))"
  by (simp add: good_def)

lemma goodD: "good gr \<Longrightarrow> finite (dom gr)" "good gr \<Longrightarrow> gr x = Some g \<Longrightarrow> fits x (V g)"
  by (simp_all add: good_def)

lemma pairing_upd:
  assumes "finite (dom gr)" and "x \<notin> X"
  shows "pairing ip V T (gr(x \<mapsto> c)) X =
         pairing ip V T gr X + ip (V c) (T x) - (case gr x of None \<Rightarrow> 0 | Some e \<Rightarrow> ip (V e) (T x))"
proof -
  let ?f = "\<lambda>gr n. ip (V (the (gr n))) (T n)"
  have "dom (gr(x \<mapsto> c)) - X = insert x (dom gr - X - {x})" using assms(2) by auto
  then have "pairing ip V T (gr(x \<mapsto> c)) X =
      (\<Sum>n\<in>insert x (dom gr - X - {x}). ?f (gr(x \<mapsto> c)) n)"
    unfolding pairing_def by (rule arg_cong)
  also have "\<dots> = ip (V c) (T x) + (\<Sum>n\<in>dom gr - X - {x}. ?f (gr(x \<mapsto> c)) n)"
    using assms(1) by (subst sum.insert) auto
  also have "(\<Sum>n\<in>dom gr - X - {x}. ?f (gr(x \<mapsto> c)) n) = (\<Sum>n\<in>dom gr - X - {x}. ?f gr n)"
    by (intro sum.cong) auto
  also have "\<dots> = pairing ip V T gr X - (case gr x of None \<Rightarrow> 0 | Some e \<Rightarrow> ip (V e) (T x))"
  proof (cases "gr x")
    case None
    then have "dom gr - X - {x} = dom gr - X" by auto
    then show ?thesis using None by (simp add: pairing_def)
  next
    case (Some e)
    then have "x \<in> dom gr - X" using assms(2) by auto
    then show ?thesis using Some assms(1) by (simp add: pairing_def sum_diff1)
  qed
  finally show ?thesis by linarith
qed

lemma accumulate_one_pairs:
  assumes "fst nc = '''' \<or> fst nc \<notin> X"
  shows "yields I V (accumulate_one gr nc)
    (\<lambda>gr'. good gr \<and> contribution_fits fits V nc \<longrightarrow>
       good gr' \<and> pairing ip V T gr' X = pairing ip V T gr X + contribution ip V T nc)"
proof -
  obtain x c where nc: "nc = (x, c)" by fastforce
  consider "x = '''' \<or> c = None" | g where "x \<noteq> ''''" "c = Some g" "gr x = None"
    | g e where "x \<noteq> ''''" "c = Some g" "gr x = Some e" by fastforce
  then show ?thesis
  proof cases
    case 1
    then show ?thesis
      by (auto simp: nc accumulate_one_def contribution_def split: option.splits intro!: yields_ret)
  next
    case (2 g)
    then show ?thesis
      using assms pairing_upd [of gr x X g] goodD(1) [of gr] good_upd [of gr x g]
      by (auto simp: nc accumulate_one_def contribution_def contribution_fits_def intro!: yields_ret)
  next
    case (3 g e)
    have upd: "good (gr(x \<mapsto> s)) \<and>
        pairing ip V T (gr(x \<mapsto> s)) X = pairing ip V T gr X + contribution ip V T nc"
      if "good gr" "contribution_fits fits V nc" and s: "V s = op_val I ''Add'' [] [V e, V g]" for s
    proof -
      have f: "fits x (V e)" "fits x (V g)"
        using 3 that(1,2) by (auto simp: nc contribution_fits_def dest: goodD)
      moreover have "x \<notin> X" using 3 assms(1) by (simp add: nc)
      ultimately show ?thesis
        using 3 pairing_upd [OF goodD(1) [OF that(1)], of x X s] good_upd [OF that(1), of x s]
        by (simp add: nc s contribution_def add_pairs [OF f] add_fits [OF f])
    qed
    have "yields I V (bnd (b_add e g) (\<lambda>s. ret (gr(x \<mapsto> s))))
      (\<lambda>gr'. good gr \<and> contribution_fits fits V nc \<longrightarrow>
         good gr' \<and> pairing ip V T gr' X = pairing ip V T gr X + contribution ip V T nc)"
      by (rule yields_bnd [OF yields_binary(1)], rule yields_ret) (use upd in blast)
    with 3 show ?thesis by (simp add: nc accumulate_one_def)
  qed
qed

lemma accumulate_fold_pairs:
  assumes "\<forall>nc \<in> set xs. fst nc = '''' \<or> fst nc \<notin> X"
  shows "yields I V (foldM accumulate_one gr xs)
    (\<lambda>gr'. good gr \<and> (\<forall>nc \<in> set xs. contribution_fits fits V nc) \<longrightarrow>
       good gr' \<and> pairing ip V T gr' X = pairing ip V T gr X + sum_list (map (contribution ip V T) xs))"
  using assms
proof (induction xs arbitrary: gr)
  case Nil
  then show ?case by (simp add: yields_ret)
next
  case (Cons nc xs)
  have "yields I V (foldM accumulate_one gr' xs)
      (\<lambda>gr''. (good gr \<and> contribution_fits fits V nc \<longrightarrow> good gr' \<and>
          pairing ip V T gr' X = pairing ip V T gr X + contribution ip V T nc) \<longrightarrow>
         good gr \<and> (\<forall>nc \<in> set (nc # xs). contribution_fits fits V nc) \<longrightarrow>
         good gr'' \<and> pairing ip V T gr'' X = pairing ip V T gr X +
         sum_list (map (contribution ip V T) (nc # xs)))" for gr'
    by (rule yields_weaken [OF Cons.IH [of gr']]) (use Cons.prems in auto)
  with Cons.prems show ?case
    by (auto intro!: yields_bnd [OF accumulate_one_pairs])
qed

lemma accumulate_pairs:
  assumes "reads nd \<inter> X = {}"
  shows "yields I V (accumulate nd cs gr)
    (\<lambda>gr'. length cs = length (inputs nd) \<and>
       (good gr \<and> (\<forall>nc \<in> set (zip (inputs nd) cs). contribution_fits fits V nc) \<longrightarrow>
        good gr' \<and> pairing ip V T gr' X = pairing ip V T gr X +
        sum_list (map (contribution ip V T) (zip (inputs nd) cs))))"
  unfolding accumulate_def
proof (rule yields_lift_bnd)
  fix u
  assume "refuse_if (length cs \<noteq> length (inputs nd)) AssertionError = Inr u"
  then have "length cs = length (inputs nd)" by (simp add: refuse_if_Inr_iff)
  moreover have "\<forall>nc \<in> set (zip (inputs nd) cs). fst nc = '''' \<or> fst nc \<notin> X"
    using assms by (auto simp: reads_def dest: set_zip_leftD)
  ultimately show "yields I V (foldM accumulate_one gr (zip (inputs nd) cs))
    (\<lambda>gr'. length cs = length (inputs nd) \<and>
       (good gr \<and> (\<forall>nc \<in> set (zip (inputs nd) cs). contribution_fits fits V nc) \<longrightarrow>
        good gr' \<and> pairing ip V T gr' X = pairing ip V T gr X +
        sum_list (map (contribution ip V T) (zip (inputs nd) cs))))"
    by (auto intro: yields_weaken [OF accumulate_fold_pairs])
qed

lemma not_single: "\<nexists>x. xs = [x] \<Longrightarrow> (case xs of [x] \<Rightarrow> f x | _ \<Rightarrow> d) = d"
  by (auto split: list.split)

text \<open>One node of the walk: its output's pairing is traded for its inputs'.\<close>

lemma step_pairs:
  assumes nd: "nd \<in> slice" and X: "reads nd \<inter> (X \<union> set (outputs nd)) = {}" "set (outputs nd) \<inter> X = {}"
    and C: "c_ext C = E" "c_shapes C = shapes"
  shows "yields I V (backward_step rules C gr nd)
    (\<lambda>gr'. good gr \<longrightarrow>
       good gr' \<and> pairing ip V T gr' (X \<union> set (outputs nd)) = pairing ip V T gr X)"
proof (cases "rules (op_type nd)")
  case None
  then show ?thesis using single [OF nd] by (auto simp: backward_step_def intro!: yields_lift)
next
  case (Some rl)
  show ?thesis
  proof (cases "\<exists>out. outputs nd = [out]")
    case False
    have "backward_step rules C gr nd = raise UnsupportedOpError"
      unfolding backward_step_def single [OF nd] Some option.case by (rule not_single [OF False])
    then show ?thesis by (simp only:) (rule yields_lift, simp)
  next
    case True
    then obtain out where out: "outputs nd = [out]" by blast
    show ?thesis
    proof (cases "gr out")
      case None
      then have dom: "dom gr - X = dom gr - (X \<union> set (outputs nd))" using out by auto
      have "pairing ip V T gr (X \<union> set (outputs nd)) = pairing ip V T gr X"
        unfolding pairing_def dom ..
      moreover have "backward_step rules C gr nd = ret gr"
        unfolding backward_step_def single [OF nd] Some option.case out list.case None ..
      ultimately show ?thesis by (simp only:) (rule yields_ret, simp)
    next
      case g: (Some g)
      have dom: "dom gr - X = insert out (dom gr - (X \<union> {out}))" using X(2) out g by auto
      have split: "pairing ip V T gr X = ip (V g) (T out) + pairing ip V T gr (X \<union> {out})"
        if "good gr"
        unfolding pairing_def dom using g goodD(1) [OF that] by (subst sum.insert) simp_all
      have "yields I V (bnd (rl C nd g) (\<lambda>cs. accumulate nd cs gr))
        (\<lambda>gr'. good gr \<longrightarrow>
          good gr' \<and> pairing ip V T gr' (X \<union> set (outputs nd)) = pairing ip V T gr X)"
        by (rule yields_bnd [OF rule_adjoint [OF nd Some out C]],
            rule yields_weaken [OF accumulate_pairs [OF X(1)]])
          (use g in \<open>simp add: split out goodD(2)\<close>)
      moreover have "backward_step rules C gr nd = bnd (rl C nd g) (\<lambda>cs. accumulate nd cs gr)"
        unfolding backward_step_def single [OF nd] Some option.case out list.case g ..
      ultimately show ?thesis by (simp only:)
    qed
  qed
qed

lemma walk_pairs:
  assumes "visits X ns" and "set ns \<subseteq> slice" and C: "c_ext C = E" "c_shapes C = shapes"
  shows "yields I V (foldM (backward_step rules C) gr ns)
    (\<lambda>gr'. good gr \<longrightarrow> good gr' \<and> pairing ip V T gr' (X \<union> defs ns) = pairing ip V T gr X)"
  using assms(1,2)
proof (induction ns arbitrary: X gr)
  case Nil
  then show ?case by (simp add: yields_ret)
next
  case (Cons nd ns)
  have nd: "nd \<in> slice" "reads nd \<inter> (X \<union> set (outputs nd)) = {}" "set (outputs nd) \<inter> X = {}"
    and ns: "visits (X \<union> set (outputs nd)) ns" "set ns \<subseteq> slice"
    using Cons.prems by auto
  have "yields I V (foldM (backward_step rules C) gr1 ns)
      (\<lambda>gr'. (good gr \<longrightarrow>
          good gr1 \<and> pairing ip V T gr1 (X \<union> set (outputs nd)) = pairing ip V T gr X) \<longrightarrow>
         good gr \<longrightarrow> good gr' \<and> pairing ip V T gr' (X \<union> defs (nd # ns)) = pairing ip V T gr X)" for gr1
    by (rule yields_weaken [OF Cons.IH [OF ns]]) (auto simp: Un_assoc)
  then show ?case
    by (auto intro!: yields_bnd [OF step_pairs [OF nd C]])
qed

text \<open>
  The whole pass: when only the targets move (every other leaf's tangent pairs to zero), the
  gradients returned for the targets pair with their tangents to what the seeds pair to.
\<close>

lemma pass_pairs:
  assumes ssa: "ssa K nodes" and slice: "set nodes \<subseteq> slice"
    and seeds: "finite (dom seeds)" "\<And>n g. seeds n = Some g \<Longrightarrow> fits n (V g)"
    and targets: "set targets \<inter> defs nodes = {}"
    and still: "\<And>n g. n \<notin> defs nodes \<Longrightarrow> n \<notin> set targets \<Longrightarrow> fits n g \<Longrightarrow> ip g (T n) = 0"
  shows "yields I V (build_backward_with E rules nodes shapes seeds targets)
    (\<lambda>res. dom res = set targets \<and> (\<forall>t g. res t = Some g \<longrightarrow> fits t (V g)) \<and>
       (\<Sum>t\<in>set targets. ip (V (the (res t))) (T t)) = pairing ip V T seeds {})"
proof -
  have sum: "dom res = set targets \<and> (\<forall>t g. res t = Some g \<longrightarrow> fits t (V g)) \<and>
      (\<Sum>t\<in>set targets. ip (V (the (res t))) (T t)) = pairing ip V T gr (defs nodes)"
    if gr: "collect_targets gr targets = Inr res" "good gr" for gr res
  proof -
    note c = collect_targets_Inr [OF gr(1)]
    have "(\<Sum>t\<in>set targets. ip (V (the (res t))) (T t)) = (\<Sum>t\<in>set targets. ip (V (the (gr t))) (T t))"
      using c(2) by (intro sum.cong) auto
    also have "\<dots> = pairing ip V T gr (defs nodes)"
      unfolding pairing_def using goodD [OF gr(2)] c targets still
      by (intro sum.mono_neutral_left) auto
    finally show ?thesis using c(1,2) goodD(2) [OF gr(2)] by (metis domI)
  qed
  have good: "good seeds" using seeds by (simp add: good_def)
  have "yields I V (bnd (foldM (backward_step rules C) seeds (rev nodes)) (\<lambda>gr. lift (collect_targets gr targets)))
    (\<lambda>res. dom res = set targets \<and> (\<forall>t g. res t = Some g \<longrightarrow> fits t (V g)) \<and>
       (\<Sum>t\<in>set targets. ip (V (the (res t))) (T t)) = pairing ip V T seeds {})"
    if C: "c_ext C = E" "c_shapes C = shapes" for C
  proof -
    have "visits {} (rev nodes)" using ssa by (rule visits_rev) simp
    then have "yields I V (foldM (backward_step rules C) seeds (rev nodes))
      (\<lambda>gr. good gr \<and> pairing ip V T gr (defs nodes) = pairing ip V T seeds {})"
      using slice good C
      by (auto intro!: yields_weaken [OF walk_pairs [of "{}" "rev nodes" C seeds]] simp: defs_def)
    then show ?thesis
      by (rule yields_bnd) (rule yields_lift, use sum in auto)
  qed
  note body = this
  show ?thesis
  proof (rule yieldsI)
    fix b r b'
    assume ok: "builder_ok b" and run: "build_backward_with E rules nodes shapes seeds targets b = (r, b')"
    have C: "c_ext (new_ctx E b shapes) = E" "c_shapes (new_ctx E b shapes) = shapes"
      by (simp_all add: new_ctx_def)
    from run have "bnd (foldM (backward_step rules (new_ctx E b shapes)) seeds (rev nodes))
        (\<lambda>gr. lift (collect_targets gr targets)) b = (r, b')"
      by (simp add: build_backward_with_def)
    note D = yieldsD [OF body [OF C] ok this]
    show "builder_ok b' \<and> (sound I V b' \<longrightarrow> sound I V b \<and> (\<forall>x. r = Inr x \<longrightarrow> dom x = set targets \<and>
        (\<forall>t g. x t = Some g \<longrightarrow> fits t (V g)) \<and> (\<Sum>t\<in>set targets. ip (V (the (x t))) (T t)) = pairing ip V T seeds {}))"
      using D by blast
  qed
qed

end

end
