(* ===== verification/Pointwise_Gradient.thy ===== *)
theory Pointwise_Gradient
  imports Adjoint
begin

text \<open>
  The elementwise operators over real numbers: one position of tensors of equal shape, where no
  broadcast has to be undone.  \<open>PW\<close> is the ONNX meaning of the forward operators and of those the
  rules emit; \<open>jvp\<close> their directional derivatives, shown to be the derivatives of \<open>PW\<close>; the
  templated and hand-written rules are shown to be adjoint to \<open>jvp\<close>.
\<close>

section \<open>The operators\<close>

definition sigmoid :: "real \<Rightarrow> real" where
  "sigmoid x = 1 / (1 + exp (- x))"

definition pw_op :: "string \<Rightarrow> real list \<Rightarrow> real" where
  "pw_op ty vs =
     (if ty = ''Add'' then vs ! 0 + vs ! 1
      else if ty = ''Sub'' then vs ! 0 - vs ! 1
      else if ty = ''Mul'' then vs ! 0 * vs ! 1
      else if ty = ''Div'' then vs ! 0 / vs ! 1
      else if ty = ''Neg'' then - (vs ! 0)
      else if ty = ''Exp'' then exp (vs ! 0)
      else if ty = ''Log'' then ln (vs ! 0)
      else if ty = ''Sqrt'' then sqrt (vs ! 0)
      else if ty = ''Sigmoid'' then sigmoid (vs ! 0)
      else if ty = ''Tanh'' then tanh (vs ! 0)
      else if ty = ''Relu'' then max 0 (vs ! 0)
      else if ty = ''Softplus'' then ln (1 + exp (vs ! 0))
      else if ty = ''Greater'' then of_bool (vs ! 1 < vs ! 0)
      else if ty = ''Less'' then of_bool (vs ! 0 < vs ! 1)
      else vs ! 0)"

definition PW :: "real interp" where
  "PW = \<lparr>op_val = (\<lambda>ty attrs. pw_op ty),
         const_val = (\<lambda>t. case t_data t of TFloat (v # _) \<Rightarrow> v | _ \<Rightarrow> 0)\<rparr>"

lemma PW_sel [simp]:
  "op_val PW ty attrs = pw_op ty"
  "const_val PW \<lparr>t_name = x, t_dims = ds, t_data = TFloat [v]\<rparr> = v"
  by (simp_all add: PW_def)

lemma pw_op_simps [simp]:
  "pw_op ''Add'' [x, y] = x + y" "pw_op ''Sub'' [x, y] = x - y" "pw_op ''Mul'' [x, y] = x * y"
  "pw_op ''Div'' [x, y] = x / y" "pw_op ''Neg'' [x] = - x" "pw_op ''Exp'' [x] = exp x"
  "pw_op ''Log'' [x] = ln x" "pw_op ''Sqrt'' [x] = sqrt x" "pw_op ''Sigmoid'' [x] = sigmoid x"
  "pw_op ''Tanh'' [x] = tanh x" "pw_op ''Relu'' [x] = max 0 x" "pw_op ''Softplus'' [x] = ln (1 + exp x)"
  "pw_op ''Greater'' [x, y] = of_bool (y < x)" "pw_op ''Less'' [x, y] = of_bool (x < y)"
  "pw_op ''Cast'' [x] = x" "pw_op ''Identity'' [x] = x"
  by (simp_all add: pw_op_def)

text \<open>Which operators are differentiated here, and where they are differentiable.\<close>

inductive pw_defined :: "string \<Rightarrow> real list \<Rightarrow> bool" where
  pw_Add: "pw_defined ''Add'' [x, y]"
| pw_Sub: "pw_defined ''Sub'' [x, y]"
| pw_Mul: "pw_defined ''Mul'' [x, y]"
| pw_Div: "y \<noteq> 0 \<Longrightarrow> pw_defined ''Div'' [x, y]"
| pw_Neg: "pw_defined ''Neg'' [x]"
| pw_Exp: "pw_defined ''Exp'' [x]"
| pw_Log: "0 < x \<Longrightarrow> pw_defined ''Log'' [x]"
| pw_Sqrt: "0 < x \<Longrightarrow> pw_defined ''Sqrt'' [x]"
| pw_Sigmoid: "pw_defined ''Sigmoid'' [x]"
| pw_Tanh: "pw_defined ''Tanh'' [x]"
| pw_Relu: "x \<noteq> 0 \<Longrightarrow> pw_defined ''Relu'' [x]"
| pw_Softplus: "pw_defined ''Softplus'' [x]"
| pw_Identity: "pw_defined ''Identity'' [x]"

text \<open>The directional derivative, from the operands' values and tangents.\<close>

definition jvp :: "string \<Rightarrow> real list \<Rightarrow> real list \<Rightarrow> real" where
  "jvp ty vs ts =
     (if ty = ''Add'' then ts ! 0 + ts ! 1
      else if ty = ''Sub'' then ts ! 0 - ts ! 1
      else if ty = ''Mul'' then ts ! 0 * vs ! 1 + vs ! 0 * ts ! 1
      else if ty = ''Div'' then (ts ! 0 * vs ! 1 - vs ! 0 * ts ! 1) / (vs ! 1 * vs ! 1)
      else if ty = ''Neg'' then - (ts ! 0)
      else if ty = ''Exp'' then exp (vs ! 0) * ts ! 0
      else if ty = ''Log'' then ts ! 0 / vs ! 0
      else if ty = ''Sqrt'' then ts ! 0 / (2 * sqrt (vs ! 0))
      else if ty = ''Sigmoid'' then sigmoid (vs ! 0) * (1 - sigmoid (vs ! 0)) * ts ! 0
      else if ty = ''Tanh'' then (1 - tanh (vs ! 0) * tanh (vs ! 0)) * ts ! 0
      else if ty = ''Relu'' then of_bool (0 < vs ! 0) * ts ! 0
      else if ty = ''Softplus'' then ts ! 0 / (1 + exp (- (vs ! 0)))
      else ts ! 0)"

lemma jvp_simps [simp]:
  "jvp ''Add'' [x, y] [s, t] = s + t" "jvp ''Sub'' [x, y] [s, t] = s - t"
  "jvp ''Mul'' [x, y] [s, t] = s * y + x * t" "jvp ''Div'' [x, y] [s, t] = (s * y - x * t) / (y * y)"
  "jvp ''Neg'' [x] [s] = - s" "jvp ''Exp'' [x] [s] = exp x * s" "jvp ''Log'' [x] [s] = s / x"
  "jvp ''Sqrt'' [x] [s] = s / (2 * sqrt x)" "jvp ''Sigmoid'' [x] [s] = sigmoid x * (1 - sigmoid x) * s"
  "jvp ''Tanh'' [x] [s] = (1 - tanh x * tanh x) * s" "jvp ''Relu'' [x] [s] = of_bool (0 < x) * s"
  "jvp ''Softplus'' [x] [s] = s / (1 + exp (- x))" "jvp ''Identity'' [x] [s] = s"
  by (simp_all add: jvp_def)

section \<open>The directional derivatives are derivatives\<close>

lemma DERIV_sigmoid:
  assumes "(f has_real_derivative t) (at s)"
  shows "((\<lambda>s. sigmoid (f s)) has_real_derivative sigmoid (f s) * (1 - sigmoid (f s)) * t) (at s)"
proof -
  have pos: "1 + exp (- f s) \<noteq> 0" using exp_gt_zero [of "- f s"] by linarith
  have "((\<lambda>s. 1 / (1 + exp (- f s))) has_real_derivative
      exp (- f s) * t / ((1 + exp (- f s)) * (1 + exp (- f s)))) (at s)"
    using pos by (auto intro!: derivative_eq_intros assms simp: field_simps)
  moreover have "exp (- f s) * t / ((1 + exp (- f s)) * (1 + exp (- f s))) =
      sigmoid (f s) * (1 - sigmoid (f s)) * t"
    using pos by (simp add: sigmoid_def field_simps)
  ultimately show ?thesis by (simp add: sigmoid_def)
qed

lemma DERIV_relu:
  assumes f: "(f has_real_derivative t) (at s)" and nz: "f s \<noteq> 0"
  shows "((\<lambda>s. max 0 (f s)) has_real_derivative of_bool (0 < f s) * t) (at s)"
proof -
  have cont: "isCont f s" using f by (rule DERIV_isCont)
  show ?thesis
  proof (cases "0 < f s")
    case True
    then have "\<forall>\<^sub>F x in at s. 0 < f x" using cont by (auto simp: isCont_def order_tendstoD)
    then have "\<forall>\<^sub>F x in nhds s. max 0 (f x) = f x"
      using True by (auto simp: eventually_at_filter elim: eventually_mono)
    then show ?thesis using f True by (subst DERIV_cong_ev [OF refl _ refl]) auto
  next
    case False
    with nz have "f s < 0" by simp
    then have "\<forall>\<^sub>F x in at s. f x < 0" using cont by (auto simp: isCont_def order_tendstoD)
    then have "\<forall>\<^sub>F x in nhds s. max 0 (f x) = 0"
      using \<open>f s < 0\<close> by (auto simp: eventually_at_filter elim: eventually_mono)
    then show ?thesis using False by (subst DERIV_cong_ev [OF refl _ refl]) auto
  qed
qed

lemma DERIV_softplus:
  assumes "(f has_real_derivative t) (at s)"
  shows "((\<lambda>s. ln (1 + exp (f s))) has_real_derivative t / (1 + exp (- f s))) (at s)"
proof -
  have pos: "0 < 1 + exp (f s)" using exp_gt_zero [of "f s"] by linarith
  have "((\<lambda>s. ln (1 + exp (f s))) has_real_derivative exp (f s) * t / (1 + exp (f s))) (at s)"
    using pos by (auto intro!: derivative_eq_intros assms simp: field_simps)
  moreover have "exp (f s) * t / (1 + exp (f s)) = t / (1 + exp (- f s))"
    using pos by (simp add: field_simps exp_minus)
  ultimately show ?thesis by simp
qed

lemma pw_deriv_Add:
  assumes f: "(f has_real_derivative t) (at s)" and g: "(g has_real_derivative u) (at s)"
  shows "((\<lambda>s. pw_op ''Add'' [f s, g s]) has_real_derivative jvp ''Add'' [f s, g s] [t, u]) (at s)"
  unfolding pw_op_simps jvp_simps by (rule DERIV_add [OF f g])

lemma pw_deriv_Sub:
  assumes f: "(f has_real_derivative t) (at s)" and g: "(g has_real_derivative u) (at s)"
  shows "((\<lambda>s. pw_op ''Sub'' [f s, g s]) has_real_derivative jvp ''Sub'' [f s, g s] [t, u]) (at s)"
  unfolding pw_op_simps jvp_simps by (rule DERIV_diff [OF f g])

lemma pw_deriv_Mul:
  assumes f: "(f has_real_derivative t) (at s)" and g: "(g has_real_derivative u) (at s)"
  shows "((\<lambda>s. pw_op ''Mul'' [f s, g s]) has_real_derivative jvp ''Mul'' [f s, g s] [t, u]) (at s)"
  unfolding pw_op_simps jvp_simps using DERIV_mult' [OF f g] by (simp only: add.commute)

lemma pw_deriv_Div:
  assumes f: "(f has_real_derivative t) (at s)" and g: "(g has_real_derivative u) (at s)" and nz: "g s \<noteq> 0"
  shows "((\<lambda>s. pw_op ''Div'' [f s, g s]) has_real_derivative jvp ''Div'' [f s, g s] [t, u]) (at s)"
  unfolding pw_op_simps jvp_simps by (rule DERIV_divide [OF f g nz])

lemma pw_deriv_Neg:
  assumes f: "(f has_real_derivative t) (at s)"
  shows "((\<lambda>s. pw_op ''Neg'' [f s]) has_real_derivative jvp ''Neg'' [f s] [t]) (at s)"
  unfolding pw_op_simps jvp_simps by (rule DERIV_minus [OF f])

lemma pw_deriv_Exp:
  assumes f: "(f has_real_derivative t) (at s)"
  shows "((\<lambda>s. pw_op ''Exp'' [f s]) has_real_derivative jvp ''Exp'' [f s] [t]) (at s)"
  unfolding pw_op_simps jvp_simps by (rule DERIV_fun_exp [OF f])

lemma pw_deriv_Log:
  assumes f: "(f has_real_derivative t) (at s)" and pos: "0 < f s"
  shows "((\<lambda>s. pw_op ''Log'' [f s]) has_real_derivative jvp ''Log'' [f s] [t]) (at s)"
  unfolding pw_op_simps jvp_simps using DERIV_chain2 [OF DERIV_ln_divide [OF pos] f] by simp

lemma pw_deriv_Sqrt:
  assumes f: "(f has_real_derivative t) (at s)" and pos: "0 < f s"
  shows "((\<lambda>s. pw_op ''Sqrt'' [f s]) has_real_derivative jvp ''Sqrt'' [f s] [t]) (at s)"
  unfolding pw_op_simps jvp_simps by (rule DERIV_cong [OF DERIV_chain2 [OF DERIV_real_sqrt [OF pos] f]]) (simp add: field_simps)

lemma pw_deriv_Sigmoid:
  assumes f: "(f has_real_derivative t) (at s)"
  shows "((\<lambda>s. pw_op ''Sigmoid'' [f s]) has_real_derivative jvp ''Sigmoid'' [f s] [t]) (at s)"
  unfolding pw_op_simps jvp_simps by (rule DERIV_sigmoid [OF f])

lemma pw_deriv_Tanh:
  assumes f: "(f has_real_derivative t) (at s)"
  shows "((\<lambda>s. pw_op ''Tanh'' [f s]) has_real_derivative jvp ''Tanh'' [f s] [t]) (at s)"
  unfolding pw_op_simps jvp_simps 
  by (rule DERIV_cong [OF has_field_derivative_tanh [OF _ f]])
    (use cosh_real_nonzero [of "f s"] in \<open>simp_all add: power2_eq_square\<close>)

lemma pw_deriv_Relu:
  assumes f: "(f has_real_derivative t) (at s)" and nz: "f s \<noteq> 0"
  shows "((\<lambda>s. pw_op ''Relu'' [f s]) has_real_derivative jvp ''Relu'' [f s] [t]) (at s)"
  unfolding pw_op_simps jvp_simps by (rule DERIV_relu [OF f nz])

lemma pw_deriv_Softplus:
  assumes f: "(f has_real_derivative t) (at s)"
  shows "((\<lambda>s. pw_op ''Softplus'' [f s]) has_real_derivative jvp ''Softplus'' [f s] [t]) (at s)"
  unfolding pw_op_simps jvp_simps by (rule DERIV_softplus [OF f])

lemma pw_deriv_Identity:
  assumes f: "(f has_real_derivative t) (at s)"
  shows "((\<lambda>s. pw_op ''Identity'' [f s]) has_real_derivative jvp ''Identity'' [f s] [t]) (at s)"
  unfolding pw_op_simps jvp_simps by (rule f)

lemma jvp_is_derivative_aux:
  assumes def: "pw_defined ty (map (\<lambda>f. f s) fs)"
    and fs: "list_all2 (\<lambda>f t. (f has_real_derivative t) (at s)) fs ts"
  shows "((\<lambda>s. pw_op ty (map (\<lambda>f. f s) fs)) has_real_derivative jvp ty (map (\<lambda>f. f s) fs) ts) (at s)"
proof -
  have two: "\<exists>f g t u. fs = [f, g] \<and> ts = [t, u] \<and> (f has_real_derivative t) (at s) \<and>
      (g has_real_derivative u) (at s) \<and> x = f s \<and> y = g s" if "map (\<lambda>f. f s) fs = [x, y]" for x y
    using that fs by (auto simp: map_eq_Cons_conv list_all2_Cons1)
  have one: "\<exists>f t. fs = [f] \<and> ts = [t] \<and> (f has_real_derivative t) (at s) \<and> x = f s"
    if "map (\<lambda>f. f s) fs = [x]" for x
    using that fs by (auto simp: map_eq_Cons_conv list_all2_Cons1)
  from def show ?thesis
  proof cases
    case (pw_Add x y)
    from two [OF pw_Add(2)] obtain f g t u where e: "fs = [f, g]" "ts = [t, u]" "y = g s"
      and d: "(f has_real_derivative t) (at s)" "(g has_real_derivative u) (at s)" by blast
    show ?thesis
      unfolding pw_Add(1) e list.map by (rule pw_deriv_Add [OF d])
  next
    case (pw_Sub x y)
    from two [OF pw_Sub(2)] obtain f g t u where e: "fs = [f, g]" "ts = [t, u]" "y = g s"
      and d: "(f has_real_derivative t) (at s)" "(g has_real_derivative u) (at s)" by blast
    show ?thesis
      unfolding pw_Sub(1) e list.map by (rule pw_deriv_Sub [OF d])
  next
    case (pw_Mul x y)
    from two [OF pw_Mul(2)] obtain f g t u where e: "fs = [f, g]" "ts = [t, u]" "y = g s"
      and d: "(f has_real_derivative t) (at s)" "(g has_real_derivative u) (at s)" by blast
    show ?thesis
      unfolding pw_Mul(1) e list.map by (rule pw_deriv_Mul [OF d])
  next
    case (pw_Div y x)
    from two [OF pw_Div(2)] obtain f g t u where e: "fs = [f, g]" "ts = [t, u]" "y = g s"
      and d: "(f has_real_derivative t) (at s)" "(g has_real_derivative u) (at s)" by blast
    show ?thesis
      unfolding pw_Div(1) e list.map by (rule pw_deriv_Div [OF d]) (use pw_Div(3) e in simp)
  next
    case (pw_Neg x)
    from one [OF pw_Neg(2)] obtain f t where e: "fs = [f]" "ts = [t]" "x = f s"
      and d: "(f has_real_derivative t) (at s)" by blast
    show ?thesis
      unfolding pw_Neg(1) e list.map by (rule pw_deriv_Neg [OF d])
  next
    case (pw_Exp x)
    from one [OF pw_Exp(2)] obtain f t where e: "fs = [f]" "ts = [t]" "x = f s"
      and d: "(f has_real_derivative t) (at s)" by blast
    show ?thesis
      unfolding pw_Exp(1) e list.map by (rule pw_deriv_Exp [OF d])
  next
    case (pw_Log x)
    from one [OF pw_Log(2)] obtain f t where e: "fs = [f]" "ts = [t]" "x = f s"
      and d: "(f has_real_derivative t) (at s)" by blast
    show ?thesis
      unfolding pw_Log(1) e list.map by (rule pw_deriv_Log [OF d]) (use pw_Log(3) e in simp)
  next
    case (pw_Sqrt x)
    from one [OF pw_Sqrt(2)] obtain f t where e: "fs = [f]" "ts = [t]" "x = f s"
      and d: "(f has_real_derivative t) (at s)" by blast
    show ?thesis
      unfolding pw_Sqrt(1) e list.map by (rule pw_deriv_Sqrt [OF d]) (use pw_Sqrt(3) e in simp)
  next
    case (pw_Sigmoid x)
    from one [OF pw_Sigmoid(2)] obtain f t where e: "fs = [f]" "ts = [t]" "x = f s"
      and d: "(f has_real_derivative t) (at s)" by blast
    show ?thesis
      unfolding pw_Sigmoid(1) e list.map by (rule pw_deriv_Sigmoid [OF d])
  next
    case (pw_Tanh x)
    from one [OF pw_Tanh(2)] obtain f t where e: "fs = [f]" "ts = [t]" "x = f s"
      and d: "(f has_real_derivative t) (at s)" by blast
    show ?thesis
      unfolding pw_Tanh(1) e list.map by (rule pw_deriv_Tanh [OF d])
  next
    case (pw_Relu x)
    from one [OF pw_Relu(2)] obtain f t where e: "fs = [f]" "ts = [t]" "x = f s"
      and d: "(f has_real_derivative t) (at s)" by blast
    show ?thesis
      unfolding pw_Relu(1) e list.map by (rule pw_deriv_Relu [OF d]) (use pw_Relu(3) e in simp)
  next
    case (pw_Softplus x)
    from one [OF pw_Softplus(2)] obtain f t where e: "fs = [f]" "ts = [t]" "x = f s"
      and d: "(f has_real_derivative t) (at s)" by blast
    show ?thesis
      unfolding pw_Softplus(1) e list.map by (rule pw_deriv_Softplus [OF d])
  next
    case (pw_Identity x)
    from one [OF pw_Identity(2)] obtain f t where e: "fs = [f]" "ts = [t]" "x = f s"
      and d: "(f has_real_derivative t) (at s)" by blast
    show ?thesis
      unfolding pw_Identity(1) e list.map by (rule pw_deriv_Identity [OF d])
  qed
qed

section \<open>The rules are adjoint to the directional derivatives\<close>

text \<open>Constants the rules use are exact in float32.\<close>

definition exact_consts :: "ext \<Rightarrow> bool" where
  "exact_consts E \<longleftrightarrow> f32 E 0 = 0 \<and> f32 E 1 = 1 \<and> f32 E (1 / 2) = 1 / 2"

lemma yields_scalar_const: "yields PW V (b_const E (scalar v) h) (\<lambda>x. V x = f32 E v)"
  by (rule yields_weaken [OF yields_const]) simp

lemma yields_unary_op: "yields PW V (b_op_in ty [x] h '''' attrs) (\<lambda>z. V z = pw_op ty [V x])"
  by (rule yields_weaken [OF yields_op]) simp

lemma yields_binary_op: "yields PW V (b_op_in ty [x, y] h '''' attrs) (\<lambda>z. V z = pw_op ty [V x, V y])"
  by (rule yields_weaken [OF yields_op]) simp

lemma yields_greater_mask:
  "f32 E t = t \<Longrightarrow> yields PW V (b_greater_mask E x t) (\<lambda>z. V z = of_bool (t < V x))"
  unfolding b_greater_mask_def b_cast_def
  by (rule yields_bnd [OF yields_scalar_const] yields_bnd [OF yields_binary_op]
      yields_weaken [OF yields_unary_op])+ simp

text \<open>Equal shapes leave nothing to reduce.\<close>

lemma reduce_to_same [simp]: "reduce_to g S S = ret g"
  by (simp add: reduce_to_def)

lemma template_values:
  "call_vals PW GRAD_ADD [g] = [g, g]"
  "call_vals PW GRAD_NEG [g] = [- g]"
  "call_vals PW GRAD_EXP [g, y] = [g * y]"
  "call_vals PW GRAD_SQRT [g, y, h] = [g * h / y]"
  "call_vals PW GRAD_LOG [g, x] = [g / x]"
  "call_vals PW GRAD_SIGMOID [g, y, o'] = [g * (y * (o' - y))]"
  "call_vals PW GRAD_TANH [g, y, o'] = [g * (o' - y * y)]"
  "call_vals PW GRAD_MUL [g, a, b] = [g * b, g * a]"
  "call_vals PW GRAD_DIV [g, a, b, y] = [g / b, - (g * y / b)]"
  by (simp_all add: call_vals_def eval_body_def eval_primitive_def bind_args_def templates)

text \<open>A forward node whose named tensors all have the slice's shape.\<close>

definition uniform :: "(string \<rightharpoonup> shape) \<Rightarrow> shape \<Rightarrow> node \<Rightarrow> bool" where
  "uniform shapes S nd \<longleftrightarrow> (\<forall>x \<in> set (inputs nd) \<union> set (outputs nd). x \<noteq> '''' \<and> shapes x = Some S)"

definition adjoint_of :: "real env \<Rightarrow> real env \<Rightarrow> node \<Rightarrow> string \<Rightarrow> string option list \<Rightarrow> bool" where
  "adjoint_of V T nd g cs \<longleftrightarrow>
     sum_list (map (contribution (*) V T) (zip (inputs nd) cs)) =
     V g * jvp (op_type nd) (map V (inputs nd)) (map T (inputs nd))"

lemma ctx_shape_uniform:
  "uniform shapes S nd \<Longrightarrow> c_shapes C = shapes \<Longrightarrow> x \<in> set (inputs nd) \<union> set (outputs nd) \<Longrightarrow>
     ctx_shape C x = Inr S"
  by (simp add: ctx_shape_def uniform_def)

lemma contribution_Some [simp]: "x \<noteq> '''' \<Longrightarrow> contribution ip V T (x, Some g) = ip (V g) (T x)"
  by (simp add: contribution_def)

text \<open>
  What a rule's adjointness may use: the node has uniform shapes, its output's value is the
  operator's value at its inputs, and the operator is differentiable there.
\<close>

definition pw_node :: "ext \<Rightarrow> (string \<rightharpoonup> shape) \<Rightarrow> shape \<Rightarrow> real env \<Rightarrow> node \<Rightarrow> bool" where
  "pw_node E shapes S V nd \<longleftrightarrow>
     exact_consts E \<and> uniform shapes S nd \<and> pw_defined (op_type nd) (map V (inputs nd)) \<and>
     (\<exists>out. outputs nd = [out] \<and> V out = pw_op (op_type nd) (map V (inputs nd)))"

lemma pw_node_shape:
  "pw_node E shapes S V nd \<Longrightarrow> c_shapes C = shapes \<Longrightarrow> x \<in> set (inputs nd) \<union> set (outputs nd) \<Longrightarrow>
     ctx_shape C x = Inr S \<and> x \<noteq> ''''"
  by (auto simp: pw_node_def uniform_def ctx_shape_def)

lemma pw_node_two:
  assumes "pw_node E shapes S V nd" and "c_shapes C = shapes" "c_ext C = E" and "inputs nd = [a, b]" "outputs nd = [out]"
  shows "ctx_shape C a = Inr S" "ctx_shape C b = Inr S" "ctx_shape C out = Inr S" "a \<noteq> ''''" "b \<noteq> ''''"
    and "V out = pw_op (op_type nd) [V a, V b]" and "exact_consts (c_ext C)" and "pw_defined (op_type nd) [V a, V b]"
  using assms pw_node_shape [OF assms(1,2)] by (auto simp: pw_node_def)

lemma pw_node_one:
  assumes "pw_node E shapes S V nd" and "c_shapes C = shapes" "c_ext C = E" and "inputs nd = [a]" "outputs nd = [out]"
  shows "ctx_shape C a = Inr S" "ctx_shape C out = Inr S" "a \<noteq> ''''"
    and "V out = pw_op (op_type nd) [V a]" and "exact_consts (c_ext C)" and "pw_defined (op_type nd) [V a]"
  using assms pw_node_shape [OF assms(1,2)] by (auto simp: pw_node_def)

lemmas yields_steps = yields_bnd [OF yields_call] yields_bnd [OF yields_scalar_const]
  yields_bnd [OF yields_unary_op] yields_bnd [OF yields_binary_op] yields_bnd [OF yields_binary(1)]
  yields_bnd [OF yields_binary(2)] yields_bnd [OF yields_binary(3)] yields_bnd [OF yields_binary(4)]
  yields_lift_bnd yields_ret

lemma TEMPLATES_members [simp]:
  "GRAD_ADD \<in> set TEMPLATES" "GRAD_NEG \<in> set TEMPLATES" "GRAD_EXP \<in> set TEMPLATES"
  "GRAD_SQRT \<in> set TEMPLATES" "GRAD_LOG \<in> set TEMPLATES" "GRAD_SIGMOID \<in> set TEMPLATES"
  "GRAD_TANH \<in> set TEMPLATES" "GRAD_MUL \<in> set TEMPLATES" "GRAD_DIV \<in> set TEMPLATES"
  by (simp_all add: TEMPLATES_def)

inductive_cases pw_defined_Div: "pw_defined ''Div'' vs"
inductive_cases pw_defined_Sqrt: "pw_defined ''Sqrt'' vs"

lemma case_prod_id: "(case p of (x, y) \<Rightarrow> f x y) = f (fst p) (snd p)"
  by (cases p) simp

lemma adjoint_Add:
  assumes nd: "pw_node E shapes S V nd" "op_type nd = ''Add''" "c_shapes C = shapes" "c_ext C = E"
    "inputs nd = [a, b]" "outputs nd = [out]"
  shows "yields PW V (grad_add_templated C nd g) (adjoint_of V T nd g)"
proof -
  note n = pw_node_two [OF nd(1,3,4,5,6), unfolded nd(2)]
  show ?thesis
    using n(1-6) nd(2,5,6) unfolding grad_add_templated_def
    by (simp add: case_prod_id)
      ((rule yields_steps TEMPLATES_members)+, auto simp: template_values adjoint_of_def algebra_simps intro!: yields_ret)
qed

lemma adjoint_Sub:
  assumes nd: "pw_node E shapes S V nd" "op_type nd = ''Sub''" "c_shapes C = shapes" "c_ext C = E"
    "inputs nd = [a, b]" "outputs nd = [out]"
  shows "yields PW V (grad_sub C nd g) (adjoint_of V T nd g)"
proof -
  note n = pw_node_two [OF nd(1,3,4,5,6), unfolded nd(2)]
  show ?thesis
    using n(1-6) nd(2,5,6) unfolding grad_sub_def
    by (simp add: case_prod_id)
      ((rule yields_steps TEMPLATES_members)+, auto simp: template_values adjoint_of_def algebra_simps intro!: yields_ret)
qed

lemma adjoint_Mul:
  assumes nd: "pw_node E shapes S V nd" "op_type nd = ''Mul''" "c_shapes C = shapes" "c_ext C = E"
    "inputs nd = [a, b]" "outputs nd = [out]"
  shows "yields PW V (grad_mul_templated C nd g) (adjoint_of V T nd g)"
proof -
  note n = pw_node_two [OF nd(1,3,4,5,6), unfolded nd(2)]
  show ?thesis
    using n(1-6) nd(2,5,6) unfolding grad_mul_templated_def
    by (simp add: case_prod_id)
      ((rule yields_steps TEMPLATES_members)+, auto simp: template_values adjoint_of_def algebra_simps intro!: yields_ret)
qed

lemma adjoint_Div:
  assumes nd: "pw_node E shapes S V nd" "op_type nd = ''Div''" "c_shapes C = shapes" "c_ext C = E"
    "inputs nd = [a, b]" "outputs nd = [out]"
  shows "yields PW V (grad_div_templated C nd g) (adjoint_of V T nd g)"
proof -
  note n = pw_node_two [OF nd(1,3,4,5,6), unfolded nd(2)]
  have nz: "V b \<noteq> 0" using n(8) by (auto elim: pw_defined_Div)
  show ?thesis
    using n(1-6) nd(2,5,6) unfolding grad_div_templated_def
    by (simp add: case_prod_id)
      ((rule yields_steps TEMPLATES_members)+, auto simp: template_values adjoint_of_def nz field_simps intro!: yields_ret)
qed

lemma adjoint_Neg:
  assumes nd: "pw_node E shapes S V nd" "op_type nd = ''Neg''" "c_shapes C = shapes" "c_ext C = E"
    "inputs nd = [a]" "outputs nd = [out]"
  shows "yields PW V (grad_neg_templated C nd g) (adjoint_of V T nd g)"
proof -
  note n = pw_node_one [OF nd(1,3,4,5,6), unfolded nd(2)]
  show ?thesis
    using n(1-4) nd(2,5,6) unfolding grad_neg_templated_def
    by (simp add: case_prod_id)
      ((rule yields_steps TEMPLATES_members)+, simp add: template_values adjoint_of_def algebra_simps)
qed

lemma adjoint_Exp:
  assumes nd: "pw_node E shapes S V nd" "op_type nd = ''Exp''" "c_shapes C = shapes" "c_ext C = E"
    "inputs nd = [a]" "outputs nd = [out]"
  shows "yields PW V (grad_exp_templated C nd g) (adjoint_of V T nd g)"
proof -
  note n = pw_node_one [OF nd(1,3,4,5,6), unfolded nd(2)]
  show ?thesis
    using n(1-4) nd(2,5,6) unfolding grad_exp_templated_def
    by (simp add: case_prod_id)
      ((rule yields_steps TEMPLATES_members)+, simp add: template_values adjoint_of_def algebra_simps)
qed

lemma adjoint_Log:
  assumes nd: "pw_node E shapes S V nd" "op_type nd = ''Log''" "c_shapes C = shapes" "c_ext C = E"
    "inputs nd = [a]" "outputs nd = [out]"
  shows "yields PW V (grad_log_templated C nd g) (adjoint_of V T nd g)"
proof -
  note n = pw_node_one [OF nd(1,3,4,5,6), unfolded nd(2)]
  show ?thesis
    using n(1-4) nd(2,5,6) unfolding grad_log_templated_def
    by (simp add: case_prod_id)
      ((rule yields_steps TEMPLATES_members)+, simp add: template_values adjoint_of_def )
qed

lemma adjoint_Sqrt:
  assumes nd: "pw_node E shapes S V nd" "op_type nd = ''Sqrt''" "c_shapes C = shapes" "c_ext C = E"
    "inputs nd = [a]" "outputs nd = [out]"
  shows "yields PW V (grad_sqrt_templated C nd g) (adjoint_of V T nd g)"
proof -
  note n = pw_node_one [OF nd(1,3,4,5,6), unfolded nd(2)]
  have nz: "0 < V a" using n(6) by (auto elim: pw_defined_Sqrt)
  have c: "f32 (c_ext C) 1 = 1" "f32 (c_ext C) (1 / 2) = 1 / 2" using n(5) by (simp_all add: exact_consts_def)
  show ?thesis
    using n(1-4) nd(2,5,6) unfolding grad_sqrt_templated_def
    by (simp add: case_prod_id)
      ((rule yields_steps TEMPLATES_members)+, simp add: template_values adjoint_of_def c nz del: eq_divide_eq_numeral1)
qed

lemma adjoint_Sigmoid:
  assumes nd: "pw_node E shapes S V nd" "op_type nd = ''Sigmoid''" "c_shapes C = shapes" "c_ext C = E"
    "inputs nd = [a]" "outputs nd = [out]"
  shows "yields PW V (grad_sigmoid_templated C nd g) (adjoint_of V T nd g)"
proof -
  note n = pw_node_one [OF nd(1,3,4,5,6), unfolded nd(2)]
  have c: "f32 (c_ext C) 1 = 1" "f32 (c_ext C) (1 / 2) = 1 / 2" using n(5) by (simp_all add: exact_consts_def)
  show ?thesis
    using n(1-4) nd(2,5,6) unfolding grad_sigmoid_templated_def
    by (simp add: case_prod_id)
      ((rule yields_steps TEMPLATES_members)+, simp add: template_values adjoint_of_def c)
qed

lemma adjoint_Tanh:
  assumes nd: "pw_node E shapes S V nd" "op_type nd = ''Tanh''" "c_shapes C = shapes" "c_ext C = E"
    "inputs nd = [a]" "outputs nd = [out]"
  shows "yields PW V (grad_tanh_templated C nd g) (adjoint_of V T nd g)"
proof -
  note n = pw_node_one [OF nd(1,3,4,5,6), unfolded nd(2)]
  have c: "f32 (c_ext C) 1 = 1" "f32 (c_ext C) (1 / 2) = 1 / 2" using n(5) by (simp_all add: exact_consts_def)
  show ?thesis
    using n(1-4) nd(2,5,6) unfolding grad_tanh_templated_def
    by (simp add: case_prod_id)
      ((rule yields_steps TEMPLATES_members)+, simp add: template_values adjoint_of_def c)
qed

lemma adjoint_Identity:
  assumes nd: "pw_node E shapes S V nd" "op_type nd = ''Identity''" "c_shapes C = shapes" "c_ext C = E"
    "inputs nd = [a]" "outputs nd = [out]"
  shows "yields PW V (grad_identity C nd g) (adjoint_of V T nd g)"
proof -
  note n = pw_node_one [OF nd(1,3,4,5,6), unfolded nd(2)]
  show ?thesis
    using n(1-4) nd(2,5,6) unfolding grad_identity_def
    by (simp add: case_prod_id)
      ((rule yields_steps TEMPLATES_members)+, simp add: template_values adjoint_of_def )
qed

lemma adjoint_Relu:
  assumes nd: "pw_node E shapes S V nd" "op_type nd = ''Relu''" "c_shapes C = shapes" "c_ext C = E"
    "inputs nd = [a]" "outputs nd = [out]"
  shows "yields PW V (grad_relu C nd g) (adjoint_of V T nd g)"
proof -
  note n = pw_node_one [OF nd(1,3,4,5,6), unfolded nd(2)]
  have c: "f32 (c_ext C) 0 = 0" using n(5) by (simp add: exact_consts_def)
  show ?thesis
    using n(1-4) nd(2,5,6) unfolding grad_relu_def
    by (simp add: case_prod_id)
      ((rule yields_bnd [OF yields_greater_mask [OF c]] yields_steps)+, simp add: adjoint_of_def)
qed

lemma adjoint_Softplus:
  assumes nd: "pw_node E shapes S V nd" "op_type nd = ''Softplus''" "c_shapes C = shapes" "c_ext C = E"
    "inputs nd = [a]" "outputs nd = [out]"
  shows "yields PW V (grad_softplus C nd g) (adjoint_of V T nd g)"
proof -
  note n = pw_node_one [OF nd(1,3,4,5,6), unfolded nd(2)]
  have c: "f32 (c_ext C) 1 = 1" using n(5) by (simp add: exact_consts_def)
  have "single_input nd = Inr a" using n(3) nd(5) by simp
  then show ?thesis
    using n(1-4) nd(2,5,6) unfolding grad_softplus_def
    by (simp add: case_prod_id del: single_input_Inr)
      ((rule yields_steps)+, simp add: adjoint_of_def c)
qed

section \<open>The default table\<close>

abbreviation builtin_rules :: "string \<rightharpoonup> rule" where
  "builtin_rules \<equiv> map_of RULES ++ map_of PYTHON_ONLY_RULES"

lemma builtin_lookup:
  "builtin_rules ''Add'' = Some grad_add_templated"
  "builtin_rules ''Sub'' = Some grad_sub"
  "builtin_rules ''Mul'' = Some grad_mul_templated"
  "builtin_rules ''Div'' = Some grad_div_templated"
  "builtin_rules ''Neg'' = Some grad_neg_templated"
  "builtin_rules ''Exp'' = Some grad_exp_templated"
  "builtin_rules ''Log'' = Some grad_log_templated"
  "builtin_rules ''Sqrt'' = Some grad_sqrt_templated"
  "builtin_rules ''Sigmoid'' = Some grad_sigmoid_templated"
  "builtin_rules ''Tanh'' = Some grad_tanh_templated"
  "builtin_rules ''Relu'' = Some grad_relu"
  "builtin_rules ''Identity'' = Some grad_identity"
  "builtin_rules ''Softplus'' = Some grad_softplus"
  by (simp_all add: RULES_def PYTHON_ONLY_RULES_def map_add_def)

lemma multi_lookup:
  "map_of MULTI_OUTPUT_RULES ty = None \<longleftrightarrow> ty \<noteq> ''Dropout'' \<and> ty \<noteq> ''Split''"
  by (simp add: MULTI_OUTPUT_RULES_def)

lemma pw_rule_adjoint:
  assumes nd: "pw_node E shapes S V nd" and rl: "builtin_rules (op_type nd) = Some rl"
    and out: "outputs nd = [out]" and C: "c_ext C = E" "c_shapes C = shapes"
  shows "yields PW V (rl C nd g) (adjoint_of V T nd g)"
proof -
  have two: "\<exists>a b. inputs nd = [a, b]" if "map V (inputs nd) = [x, y]" for x y
    using that by (auto simp: map_eq_Cons_conv)
  have one: "\<exists>a. inputs nd = [a]" if "map V (inputs nd) = [x]" for x
    using that by (auto simp: map_eq_Cons_conv)
  from nd have "pw_defined (op_type nd) (map V (inputs nd))" by (simp add: pw_node_def)
  then show ?thesis
  proof cases
    case (pw_Add x y)
    from two [OF pw_Add(2)] obtain a b where i: "inputs nd = [a, b]" by blast
    have "rl = grad_add_templated" using rl by (simp only: pw_Add(1) builtin_lookup option.inject)
    then show ?thesis using adjoint_Add [OF nd pw_Add(1) C(2,1) i out] by simp
  next
    case (pw_Sub x y)
    from two [OF pw_Sub(2)] obtain a b where i: "inputs nd = [a, b]" by blast
    have "rl = grad_sub" using rl by (simp only: pw_Sub(1) builtin_lookup option.inject)
    then show ?thesis using adjoint_Sub [OF nd pw_Sub(1) C(2,1) i out] by simp
  next
    case (pw_Mul x y)
    from two [OF pw_Mul(2)] obtain a b where i: "inputs nd = [a, b]" by blast
    have "rl = grad_mul_templated" using rl by (simp only: pw_Mul(1) builtin_lookup option.inject)
    then show ?thesis using adjoint_Mul [OF nd pw_Mul(1) C(2,1) i out] by simp
  next
    case (pw_Div y x)
    from two [OF pw_Div(2)] obtain a b where i: "inputs nd = [a, b]" by blast
    have "rl = grad_div_templated" using rl by (simp only: pw_Div(1) builtin_lookup option.inject)
    then show ?thesis using adjoint_Div [OF nd pw_Div(1) C(2,1) i out] by simp
  next
    case (pw_Neg x)
    from one [OF pw_Neg(2)] obtain a where i: "inputs nd = [a]" by blast
    have "rl = grad_neg_templated" using rl by (simp only: pw_Neg(1) builtin_lookup option.inject)
    then show ?thesis using adjoint_Neg [OF nd pw_Neg(1) C(2,1) i out] by simp
  next
    case (pw_Exp x)
    from one [OF pw_Exp(2)] obtain a where i: "inputs nd = [a]" by blast
    have "rl = grad_exp_templated" using rl by (simp only: pw_Exp(1) builtin_lookup option.inject)
    then show ?thesis using adjoint_Exp [OF nd pw_Exp(1) C(2,1) i out] by simp
  next
    case (pw_Log x)
    from one [OF pw_Log(2)] obtain a where i: "inputs nd = [a]" by blast
    have "rl = grad_log_templated" using rl by (simp only: pw_Log(1) builtin_lookup option.inject)
    then show ?thesis using adjoint_Log [OF nd pw_Log(1) C(2,1) i out] by simp
  next
    case (pw_Sqrt x)
    from one [OF pw_Sqrt(2)] obtain a where i: "inputs nd = [a]" by blast
    have "rl = grad_sqrt_templated" using rl by (simp only: pw_Sqrt(1) builtin_lookup option.inject)
    then show ?thesis using adjoint_Sqrt [OF nd pw_Sqrt(1) C(2,1) i out] by simp
  next
    case (pw_Sigmoid x)
    from one [OF pw_Sigmoid(2)] obtain a where i: "inputs nd = [a]" by blast
    have "rl = grad_sigmoid_templated" using rl by (simp only: pw_Sigmoid(1) builtin_lookup option.inject)
    then show ?thesis using adjoint_Sigmoid [OF nd pw_Sigmoid(1) C(2,1) i out] by simp
  next
    case (pw_Tanh x)
    from one [OF pw_Tanh(2)] obtain a where i: "inputs nd = [a]" by blast
    have "rl = grad_tanh_templated" using rl by (simp only: pw_Tanh(1) builtin_lookup option.inject)
    then show ?thesis using adjoint_Tanh [OF nd pw_Tanh(1) C(2,1) i out] by simp
  next
    case (pw_Relu x)
    from one [OF pw_Relu(2)] obtain a where i: "inputs nd = [a]" by blast
    have "rl = grad_relu" using rl by (simp only: pw_Relu(1) builtin_lookup option.inject)
    then show ?thesis using adjoint_Relu [OF nd pw_Relu(1) C(2,1) i out] by simp
  next
    case (pw_Identity x)
    from one [OF pw_Identity(2)] obtain a where i: "inputs nd = [a]" by blast
    have "rl = grad_identity" using rl by (simp only: pw_Identity(1) builtin_lookup option.inject)
    then show ?thesis using adjoint_Identity [OF nd pw_Identity(1) C(2,1) i out] by simp
  next
    case (pw_Softplus x)
    from one [OF pw_Softplus(2)] obtain a where i: "inputs nd = [a]" by blast
    have "rl = grad_softplus" using rl by (simp only: pw_Softplus(1) builtin_lookup option.inject)
    then show ?thesis using adjoint_Softplus [OF nd pw_Softplus(1) C(2,1) i out] by simp
  qed
qed

text \<open>The nodes whose tangents follow the directional derivatives form a slice of the walk.\<close>

definition pw_slice :: "ext \<Rightarrow> (string \<rightharpoonup> shape) \<Rightarrow> shape \<Rightarrow> real env \<Rightarrow> real env \<Rightarrow> node set" where
  "pw_slice E shapes S V T =
     {nd. pw_node E shapes S V nd \<and>
          (\<forall>out. outputs nd = [out] \<longrightarrow>
             T out = jvp (op_type nd) (map V (inputs nd)) (map T (inputs nd)))}"

lemma pw_single: "pw_defined ty vs \<Longrightarrow> map_of MULTI_OUTPUT_RULES ty = None"
  by (induction rule: pw_defined.induct) (simp_all add: multi_lookup)

interpretation pw: adjoint_rules PW V T "(*)" "\<lambda>_ _. True" builtin_rules E shapes "pw_slice E shapes S V T"
  for V T E shapes S
proof
  fix x and u v :: real
  show "op_val PW ''Add'' [] [u, v] * T x = u * T x + v * T x" by (simp add: distrib_right)
next
  fix nd
  assume "nd \<in> pw_slice E shapes S V T"
  then show "map_of MULTI_OUTPUT_RULES (op_type nd) = None"
    by (auto simp: pw_slice_def pw_node_def intro: pw_single)
next
  fix nd rl out and C :: ctx and g
  assume nd: "nd \<in> pw_slice E shapes S V T" and a: "builtin_rules (op_type nd) = Some rl" "outputs nd = [out]"
    and C: "c_ext C = E" "c_shapes C = shapes"
  from nd have "pw_node E shapes S V nd"
    and T: "T out = jvp (op_type nd) (map V (inputs nd)) (map T (inputs nd))"
    using a(2) by (auto simp: pw_slice_def)
  from pw_rule_adjoint [OF this(1) a C, where T = T]
  show "yields PW V (rl C nd g) (\<lambda>cs. length cs = length (inputs nd) \<and> True \<longrightarrow>
      (\<forall>nc \<in> set (zip (inputs nd) cs). contribution_fits (\<lambda>_ _. True) V nc) \<and>
      sum_list (map (contribution (*) V T) (zip (inputs nd) cs)) = V g * T out)"
    by (rule yields_weaken) (simp add: adjoint_of_def T contribution_fits_def split: prod.splits option.split)
qed simp_all

section \<open>The forward slice\<close>

abbreviation forward :: "node list \<Rightarrow> real env \<Rightarrow> real env" where
  "forward \<equiv> eval_body PW"

lemmas forward_other = eval_body_other [where I = PW]
lemmas forward_holds = eval_body_holds [where I = PW, unfolded PW_sel]

lemma forward_derivatives:
  assumes "ssa L nodes" and "'''' \<notin> defs nodes"
    and "\<forall>nd \<in> set nodes. pw_defined (op_type nd) (map (forward nodes (\<theta> 0)) (inputs nd))"
    and "\<forall>nd \<in> set nodes. \<exists>out. outputs nd = [out]"
    and "\<And>x. \<exists>D. ((\<lambda>s. \<theta> s x) has_real_derivative D) (at 0)"
  shows "\<exists>D. ((\<lambda>s. forward nodes (\<theta> s) x) has_real_derivative D) (at 0)"
  using assms
proof (induction nodes arbitrary: L \<theta>)
  case Nil
  then show ?case by simp
next
  case (Cons nd ns)
  from Cons.prems(4) obtain out where out: "outputs nd = [out]" by auto
  let ?\<theta> = "\<lambda>s. eval_primitive PW (\<theta> s) nd"
  have "\<exists>D. ((\<lambda>s. ?\<theta> s y) has_real_derivative D) (at 0)" for y
  proof (cases "y = out")
    case False
    then show ?thesis using Cons.prems(5) out by (simp add: eval_primitive_other)
  next
    case True
    have ssa: "reads nd \<subseteq> L" "set (outputs nd) \<inter> L = {}" "ssa (L \<union> set (outputs nd)) ns"
      using Cons.prems(1) by auto
    have "forward (nd # ns) (\<theta> 0) z = \<theta> 0 z" if "z \<in> set (inputs nd)" for z
      using that ssa ssa_defs_disjoint [OF ssa(3)] Cons.prems(2)
      by (intro forward_other) (auto simp: reads_def)
    then have "pw_defined (op_type nd) (map (\<lambda>f. f 0) (map (\<lambda>z s. \<theta> s z) (inputs nd)))"
      using Cons.prems(3) by (simp cong: map_cong add: comp_def)
    moreover from Cons.prems(5) obtain T where "\<And>z. ((\<lambda>s. \<theta> s z) has_real_derivative T z) (at 0)"
      by metis
    then have "list_all2 (\<lambda>f t. (f has_real_derivative t) (at 0)) (map (\<lambda>z s. \<theta> s z) (inputs nd)) (map T (inputs nd))"
      by (simp add: list_all2_conv_all_nth)
    ultimately have "((\<lambda>s. pw_op (op_type nd) (map (\<lambda>f. f s) (map (\<lambda>z s. \<theta> s z) (inputs nd))))
        has_real_derivative jvp (op_type nd) (map (\<lambda>f. f 0) (map (\<lambda>z s. \<theta> s z) (inputs nd))) (map T (inputs nd))) (at 0)"
      by (rule jvp_is_derivative_aux)
    then show ?thesis
      using True out by (auto simp: eval_primitive_def comp_def)
  qed
  with Cons.prems show ?case
    by (auto intro!: Cons.IH [of "L \<union> set (outputs nd)"])
qed

end
