(* ===== verification/Ndarray.thy ===== *)
theory Ndarray
  imports Prelude
begin

text \<open>
  Arrays over the reals as the ONNX operators see them: a shape and the row-major list of the
  entries.  Entries are read by multi-index; \<open>box\<close> is the set of legal ones.  The theory holds
  numpy's broadcasting rule, the pairing of two arrays, and the one fact about sums that undoing a
  broadcast rests on: reading through a broadcast is adjoint to summing over its fibres.
\<close>

section \<open>Multi-indices\<close>

type_synonym real_array = "nat list \<times> real list"

text \<open>The legal multi-indices in row-major order, and the position of one in that order.\<close>

fun cells :: "nat list \<Rightarrow> nat list list" where
  "cells [] = [[]]"
| "cells (n # ns) = concat (map (\<lambda>i. map ((#) i) (cells ns)) [0..<n])"

fun pos :: "nat list \<Rightarrow> nat list \<Rightarrow> nat" where
  "pos (n # ns) (i # ix) = i * prod_list ns + pos ns ix"
| "pos _ _ = 0"

abbreviation box :: "nat list \<Rightarrow> nat list set" where
  "box ds \<equiv> set (cells ds)"

lemma in_box_iff: "ix \<in> box ds \<longleftrightarrow> list_all2 (<) ix ds"
proof (induction ds arbitrary: ix)
  case Nil
  then show ?case by simp
next
  case (Cons n ds)
  then show ?case by (cases ix) (auto simp: image_iff Bex_def)
qed

lemma box_length: "ix \<in> box ds \<Longrightarrow> length ix = length ds"
  by (simp add: in_box_iff list_all2_lengthD)

lemma length_cells [simp]: "length (cells ds) = prod_list ds"
proof (induction ds)
  case Nil
  then show ?case by simp
next
  case (Cons n ds)
  have "length (concat (map (\<lambda>i. map ((#) i) (cells ds)) ks)) = length ks * prod_list ds" for ks
    by (induction ks) (simp_all add: Cons.IH)
  then show ?case by simp
qed

lemma map_concat_upt:
  "concat (map (\<lambda>i. map ((+) (i * m)) [0..<m]) [0..<n]) = [0..<n * m]"
proof (induction n)
  case 0
  then show ?case by simp
next
  case (Suc n)
  have "map ((+) (n * m)) [0..<m] = [n * m..<n * m + m]"
    by (rule nth_equalityI) simp_all
  then have "concat (map (\<lambda>i. map ((+) (i * m)) [0..<m]) [0..<Suc n]) = [0..<n * m] @ [n * m..<n * m + m]"
    using Suc by simp
  also have "\<dots> = [0..<n * m + m]"
    by (rule upt_add_eq_append [symmetric]) simp
  finally show ?case by (simp only: mult_Suc add.commute [of m])
qed

lemma map_pos_cells: "map (pos ds) (cells ds) = [0..<prod_list ds]"
proof (induction ds)
  case Nil
  then show ?case by simp
next
  case (Cons n ds)
  have "map (pos (n # ds)) (cells (n # ds)) =
      concat (map (\<lambda>i. map ((+) (i * prod_list ds)) (map (pos ds) (cells ds))) [0..<n])"
    by (simp add: map_concat comp_def)
  also have "\<dots> = [0..<n * prod_list ds]"
    by (simp only: Cons.IH map_concat_upt)
  finally show ?case by simp
qed

declare cells.simps(2) [simp del]

lemma distinct_cells [simp]: "distinct (cells ds)"
  using distinct_map [of "pos ds" "cells ds"] by (simp add: map_pos_cells)

lemma pos_less: "ix \<in> box ds \<Longrightarrow> pos ds ix < prod_list ds"
proof -
  assume "ix \<in> box ds"
  then have "pos ds ix \<in> set (map (pos ds) (cells ds))" by simp
  then show ?thesis unfolding map_pos_cells by simp
qed

lemma cells_pos:
  assumes "ix \<in> box ds"
  shows "cells ds ! pos ds ix = ix"
proof -
  obtain k where k: "k < prod_list ds" "ix = cells ds ! k"
    using assms by (metis in_set_conv_nth length_cells)
  have "pos ds (cells ds ! k) = k"
    using nth_map [of k "cells ds" "pos ds"] k(1) by (simp add: map_pos_cells)
  with k show ?thesis by simp
qed

section \<open>Arrays\<close>

abbreviation dims :: "real_array \<Rightarrow> nat list" where
  "dims \<equiv> fst"

definition entry :: "real_array \<Rightarrow> nat list \<Rightarrow> real" where
  "entry a ix = snd a ! pos (dims a) ix"

definition shaped :: "nat list \<Rightarrow> real_array \<Rightarrow> bool" where
  "shaped ds a \<longleftrightarrow> dims a = ds \<and> length (snd a) = prod_list ds"

definition tabulate :: "nat list \<Rightarrow> (nat list \<Rightarrow> real) \<Rightarrow> real_array" where
  "tabulate ds f = (ds, map f (cells ds))"

lemma shaped_tabulate [simp]: "shaped ds (tabulate ds f)"
  by (simp add: shaped_def tabulate_def)

lemma dims_tabulate [simp]: "dims (tabulate ds f) = ds"
  by (simp add: tabulate_def)

lemma entry_tabulate [simp]: "ix \<in> box ds \<Longrightarrow> entry (tabulate ds f) ix = f ix"
  using pos_less [of ix ds] by (simp add: entry_def tabulate_def cells_pos)

lemma shaped_dims: "shaped ds a \<Longrightarrow> dims a = ds"
  by (simp add: shaped_def)

lemma tabulate_entry: "shaped ds a \<Longrightarrow> tabulate ds (entry a) = a"
proof -
  assume a: "shaped ds a"
  then have "map (entry a) (cells ds) = map ((!) (snd a)) (map (pos ds) (cells ds))"
    by (simp add: entry_def shaped_def)
  also have "\<dots> = snd a"
    unfolding map_pos_cells using a map_nth [of "snd a"] by (simp add: shaped_def)
  finally show ?thesis using a by (simp add: tabulate_def shaped_def prod_eq_iff)
qed

lemma tabulate_cong: "(\<And>ix. ix \<in> box ds \<Longrightarrow> f ix = g ix) \<Longrightarrow> tabulate ds f = tabulate ds g"
  by (simp add: tabulate_def)

lemma shaped_eqI:
  "shaped ds a \<Longrightarrow> shaped ds b \<Longrightarrow> (\<And>ix. ix \<in> box ds \<Longrightarrow> entry a ix = entry b ix) \<Longrightarrow> a = b"
  by (metis tabulate_entry tabulate_cong)

subsection \<open>The pairing\<close>

definition dot :: "real_array \<Rightarrow> real_array \<Rightarrow> real" where
  "dot u v = sum_list (map2 (*) (snd u) (snd v))"

lemma dot_shaped:
  assumes "shaped ds u" and "shaped ds v"
  shows "dot u v = (\<Sum>ix\<in>box ds. entry u ix * entry v ix)"
proof -
  have "dot (tabulate ds f) (tabulate ds g) = (\<Sum>ix\<in>box ds. f ix * g ix)" for f g
    by (simp add: dot_def tabulate_def zip_map_map comp_def zip_same_conv_map
        sum_list_distinct_conv_sum_set)
  from this [of "entry u" "entry v"] show ?thesis
    by (simp add: tabulate_entry [OF assms(1)] tabulate_entry [OF assms(2)])
qed

section \<open>Broadcasting\<close>

text \<open>An array of shape \<open>ts\<close> can be read as one of shape \<open>ds\<close>, and where.\<close>

definition bcasts :: "nat list \<Rightarrow> nat list \<Rightarrow> bool" where
  "bcasts ts ds \<longleftrightarrow> length ts \<le> length ds \<and>
     list_all2 (\<lambda>t d. t = d \<or> t = 1) ts (drop (length ds - length ts) ds)"

definition bix :: "nat list \<Rightarrow> nat list \<Rightarrow> nat list" where
  "bix ts ix = map2 (\<lambda>t i. if t = 1 then 0 else i) ts (drop (length ix - length ts) ix)"

definition bread :: "real_array \<Rightarrow> nat list \<Rightarrow> real" where
  "bread a ix = entry a (bix (dims a) ix)"

text \<open>The common shape of two operands, each dimension the larger of the two where one is 1.\<close>

definition bshape :: "nat list \<Rightarrow> nat list \<Rightarrow> nat list" where
  "bshape xs ys =
     (let n = max (length xs) (length ys)
      in map2 (\<lambda>x y. if x = 1 then y else x)
           (replicate (n - length xs) 1 @ xs) (replicate (n - length ys) 1 @ ys))"

lemma list_all2_map2_less:
  "list_all2 (<) ix ds \<Longrightarrow> list_all2 (\<lambda>t d. t = d \<or> t = 1) ts ds \<Longrightarrow>
     list_all2 (<) (map2 (\<lambda>t i. if t = 1 then 0 else i) ts ix) ts"
  for ix ds ts :: "nat list"
proof (induction ix arbitrary: ds ts)
  case Nil
  then show ?case by simp
next
  case (Cons i ix)
  then show ?case by (auto simp: list_all2_Cons1 list_all2_Cons2)
qed

lemma list_all2_drop_lt: "list_all2 P xs ys \<Longrightarrow> list_all2 P (drop n xs) (drop n ys)"
  by (rule list_all2_dropI)

lemma bix_in_box: "bcasts ts ds \<Longrightarrow> ix \<in> box ds \<Longrightarrow> bix ts ix \<in> box ts"
  unfolding in_box_iff bcasts_def bix_def
  by (rule list_all2_map2_less [where ds = "drop (length ds - length ts) ds"])
    (simp_all add: list_all2_lengthD list_all2_drop_lt)

lemma map2_self_box:
  "list_all2 (<) ix ds \<Longrightarrow> map2 (\<lambda>t i. if t = 1 then 0 else i) ds ix = ix"
  for ix ds :: "nat list"
  by (induction rule: list_all2_induct) auto

lemma bix_self [simp]: "ix \<in> box ds \<Longrightarrow> bix ds ix = ix"
  by (simp add: bix_def in_box_iff list_all2_lengthD map2_self_box del: One_nat_def)

lemma bread_self: "shaped ds a \<Longrightarrow> ix \<in> box ds \<Longrightarrow> bread a ix = entry a ix"
  by (simp add: bread_def shaped_def)

lemma bcasts_self [simp]: "bcasts ds ds"
  by (simp add: bcasts_def list_all2_same)

lemma bcasts_Nil [simp]: "bcasts [] ds"
  by (simp add: bcasts_def)

lemma map2_replicate_1:
  "map2 (\<lambda>x y. if x = (1::nat) then y else x) (replicate (length ys) 1) ys = ys"
  by (induction ys) auto

lemma map2_stretch:
  "list_all2 (\<lambda>t d. t = d \<or> t = 1) ts ds \<Longrightarrow> map2 (\<lambda>x y. if x = 1 then y else x) ts ds = ds"
  "list_all2 (\<lambda>t d. t = d \<or> t = 1) ts ds \<Longrightarrow> map2 (\<lambda>x y. if x = 1 then y else x) ds ts = ds"
  for ts ds :: "nat list"
  by (induction rule: list_all2_induct) auto

lemma list_all2_pad:
  assumes "bcasts ts ds"
  shows "list_all2 (\<lambda>t d. t = d \<or> t = 1) (replicate (length ds - length ts) 1 @ ts) ds"
proof -
  have "list_all2 (\<lambda>t d. t = d \<or> t = (1::nat)) (replicate n 1) xs" if "length xs = n" for n xs
    using that by (auto simp: list_all2_conv_all_nth simp del: One_nat_def)
  then have "list_all2 (\<lambda>t d. t = d \<or> t = 1) (replicate (length ds - length ts) 1 @ ts)
      (take (length ds - length ts) ds @ drop (length ds - length ts) ds)"
    using assms by (intro list_all2_appendI) (auto simp: bcasts_def list_all2_conv_all_nth simp del: One_nat_def)
  then show ?thesis by simp
qed

lemma bshape_absorb:
  assumes "bcasts ts ds"
  shows "bshape ts ds = ds" and "bshape ds ts = ds"
proof -
  have n: "max (length ts) (length ds) = length ds" "max (length ds) (length ts) = length ds"
    using assms by (simp_all add: bcasts_def max_def)
  show "bshape ts ds = ds" "bshape ds ts = ds"
    using map2_stretch [OF list_all2_pad [OF assms]]
    by (simp_all add: bshape_def n del: One_nat_def)
qed

lemma bshape_Nil [simp]: "bshape [] ds = ds" "bshape ds [] = ds"
  by (rule bshape_absorb, simp)+

section \<open>Sums over the fibres of a broadcast\<close>

lemma sum_fibres:
  fixes X :: "nat list \<Rightarrow> real"
  assumes "bcasts ts ds"
  shows "(\<Sum>jx\<in>box ts. (\<Sum>ix | ix \<in> box ds \<and> bix ts ix = jx. G ix) * X jx) =
    (\<Sum>ix\<in>box ds. G ix * X (bix ts ix))"
proof -
  have "(\<Sum>jx\<in>box ts. (\<Sum>ix | ix \<in> box ds \<and> bix ts ix = jx. G ix) * X jx) =
      (\<Sum>jx\<in>box ts. \<Sum>ix | ix \<in> box ds \<and> bix ts ix = jx. G ix * X (bix ts ix))"
    by (intro sum.cong refl) (simp add: sum_distrib_right)
  also have "\<dots> = (\<Sum>ix\<in>box ds. G ix * X (bix ts ix))"
    using assms by (intro sum.group) (auto intro: bix_in_box)
  finally show ?thesis .
qed

text \<open>The array of the fibre sums: what undoing a broadcast has to compute.\<close>

definition unbcast :: "nat list \<Rightarrow> real_array \<Rightarrow> real_array" where
  "unbcast ts g =
     tabulate ts (\<lambda>jx. \<Sum>ix\<leftarrow>filter (\<lambda>ix. bix ts ix = jx) (cells (dims g)). entry g ix)"

lemma sum_filter_cells: "(\<Sum>ix\<leftarrow>filter P (cells ds). f ix) = (\<Sum>ix | ix \<in> box ds \<and> P ix. f ix)"
  by (simp add: sum_list_distinct_conv_sum_set)

lemma shaped_unbcast [simp]: "shaped ts (unbcast ts g)"
  by (simp add: unbcast_def)

lemma dot_unbcast:
  assumes "shaped ds g" and "bcasts ts ds" and "shaped ts x"
  shows "dot (unbcast ts g) x = (\<Sum>ix\<in>box ds. entry g ix * bread x ix)"
proof -
  have "dot (unbcast ts g) x =
      (\<Sum>jx\<in>box ts. (\<Sum>ix | ix \<in> box ds \<and> bix ts ix = jx. entry g ix) * entry x jx)"
    using assms(3) by (simp add: dot_shaped [of ts] unbcast_def sum_filter_cells shaped_dims [OF assms(1)])
  also have "\<dots> = (\<Sum>ix\<in>box ds. entry g ix * bread x ix)"
    using assms(3) by (simp add: sum_fibres [OF assms(2)] bread_def shaped_def)
  finally show ?thesis .
qed

lemma unbcast_self: "shaped ds g \<Longrightarrow> unbcast ds g = g"
proof (rule shaped_eqI [of ds])
  fix jx
  assume g: "shaped ds g" and jx: "jx \<in> box ds"
  then have "{ix. ix \<in> box ds \<and> bix ds ix = jx} = {jx}" by auto
  with g jx show "entry (unbcast ds g) jx = entry g jx"
    by (simp add: unbcast_def sum_filter_cells shaped_def)
qed simp_all

section \<open>Reductions and reshapes\<close>

definition ones_at :: "nat list \<Rightarrow> nat list \<Rightarrow> nat list" where
  "ones_at axes ds = map (\<lambda>(k, d). if k \<in> set axes then 1 else d) (enumerate 0 ds)"

definition zero_at :: "nat list \<Rightarrow> nat list \<Rightarrow> nat list" where
  "zero_at axes ix = map (\<lambda>(k, i). if k \<in> set axes then 0 else i) (enumerate 0 ix)"

definition sum_keep :: "nat list \<Rightarrow> real_array \<Rightarrow> real_array" where
  "sum_keep axes a =
     tabulate (ones_at axes (dims a))
       (\<lambda>jx. \<Sum>ix\<leftarrow>filter (\<lambda>ix. zero_at axes ix = jx) (cells (dims a)). entry a ix)"

definition reshape :: "nat list \<Rightarrow> real_array \<Rightarrow> real_array" where
  "reshape ds a = (ds, snd a)"

lemma cells_ones: "cells (replicate n 1 @ ts) = map ((@) (replicate n 0)) (cells ts)"
  by (induction n) (simp_all add: cells.simps comp_def)

text \<open>Summing over the leading axes and the stretched ones, then dropping the former.\<close>

lemma unbcast_as_sum:
  assumes b: "bcasts ts ds" and g: "shaped ds g"
    and axes: "set axes = {..<length ds - length ts} \<union>
      (\<lambda>i. length ds - length ts + i) ` {i. i < length ts \<and> ts ! i \<noteq> ds ! (length ds - length ts + i)}"
  shows "ones_at axes ds = replicate (length ds - length ts) 1 @ ts"
    and "reshape ts (sum_keep axes g) = unbcast ts g"
proof -
  define n where "n = length ds - length ts"
  have n: "length ds = n + length ts" using b by (simp add: n_def bcasts_def)
  have one: "ts ! i = 1" if "i < length ts" "ts ! i \<noteq> ds ! (n + i)" for i
    using b that n by (auto simp: bcasts_def list_all2_conv_all_nth simp del: One_nat_def)
  have mem: "k \<in> set axes \<longleftrightarrow> k < n \<or> (n \<le> k \<and> k < length ds \<and> ts ! (k - n) \<noteq> ds ! k)" for k
  proof (cases "n \<le> k")
    case True
    then obtain i where "k = n + i" using le_Suc_ex by blast
    with n show ?thesis unfolding axes n_def [symmetric] by auto
  next
    case False
    then show ?thesis unfolding axes n_def [symmetric] by simp
  qed
  show ones: "ones_at axes ds = replicate (length ds - length ts) 1 @ ts"
    unfolding n_def [symmetric]
  proof (rule nth_equalityI)
    fix k
    assume "k < length (ones_at axes ds)"
    then have "k < length ds" by (simp add: ones_at_def)
    with one [of "k - n"] n show "ones_at axes ds ! k = (replicate n 1 @ ts) ! k"
      by (auto simp: ones_at_def nth_enumerate_eq mem nth_append)
  qed (simp add: ones_at_def n)
  have zero: "zero_at axes ix = replicate n 0 @ bix ts ix" if "ix \<in> box ds" for ix
  proof (rule nth_equalityI)
    from that have ix: "length ix = length ds" "\<And>k. k < length ds \<Longrightarrow> ix ! k < ds ! k"
      by (auto simp: in_box_iff list_all2_conv_all_nth)
    show "length (zero_at axes ix) = length (replicate n 0 @ bix ts ix)"
      using ix n by (simp add: zero_at_def bix_def)
    fix k
    assume "k < length (zero_at axes ix)"
    then have k: "k < length ds" using ix by (simp add: zero_at_def)
    show "zero_at axes ix ! k = (replicate n 0 @ bix ts ix) ! k"
    proof (cases "k < n")
      case True
      with k ix(1) show ?thesis by (simp add: zero_at_def nth_enumerate_eq mem nth_append)
    next
      case False
      then have "(replicate n 0 @ bix ts ix) ! k = (if ts ! (k - n) = 1 then 0 else ix ! k)"
        using k ix(1) n by (simp add: bix_def nth_append del: One_nat_def)
      moreover have "zero_at axes ix ! k = (if ts ! (k - n) \<noteq> ds ! k then 0 else ix ! k)"
        using False k ix(1) by (simp add: zero_at_def nth_enumerate_eq mem)
      moreover have "ts ! (k - n) = 1" if "ts ! (k - n) \<noteq> ds ! k"
        using that False k n by (intro one) simp_all
      ultimately show ?thesis
        using ix(2) [OF k] by (cases "ts ! (k - n) = ds ! k") simp_all
    qed
  qed
  have "snd (sum_keep axes g) = map (\<lambda>jx. \<Sum>ix | ix \<in> box ds \<and> zero_at axes ix = jx. entry g ix)
      (cells (replicate n 1 @ ts))"
    using ones g by (simp add: sum_keep_def tabulate_def sum_filter_cells shaped_def n_def)
  also have "\<dots> = map (\<lambda>jx. \<Sum>ix | ix \<in> box ds \<and> bix ts ix = jx. entry g ix) (cells ts)"
    unfolding cells_ones map_map comp_def
    by (intro map_cong refl sum.cong Collect_cong conj_cong) (simp_all add: zero)
  finally show "reshape ts (sum_keep axes g) = unbcast ts g"
    using g by (simp add: reshape_def unbcast_def tabulate_def sum_filter_cells shaped_def)
qed

section \<open>Elementwise operators\<close>

definition elementwise :: "(real list \<Rightarrow> real) \<Rightarrow> real_array list \<Rightarrow> real_array" where
  "elementwise f vs =
     tabulate (foldl bshape [] (map dims vs)) (\<lambda>ix. f (map (\<lambda>v. bread v ix) vs))"

lemma bread_tabulate [simp]: "ix \<in> box ds \<Longrightarrow> bread (tabulate ds f) ix = f ix"
  by (simp add: bread_def)

lemma elementwise_one: "elementwise f [tabulate ds p] = tabulate ds (\<lambda>ix. f [p ix])"
  unfolding elementwise_def by (auto intro: tabulate_cong)

lemma elementwise_two:
  assumes "bcasts (dims v) ds"
  shows "elementwise f [tabulate ds p, v] = tabulate ds (\<lambda>ix. f [p ix, bread v ix])"
    and "elementwise f [v, tabulate ds p] = tabulate ds (\<lambda>ix. f [bread v ix, p ix])"
  unfolding elementwise_def by (auto simp: bshape_absorb [OF assms] intro: tabulate_cong)

lemma elementwise_both:
  "elementwise f [tabulate ds p, tabulate ds q] = tabulate ds (\<lambda>ix. f [p ix, q ix])"
  unfolding elementwise_def by (auto simp: bshape_absorb intro: tabulate_cong)

section \<open>Transposition and the matrix product\<close>

definition transpose_array :: "nat list \<Rightarrow> real_array \<Rightarrow> real_array" where
  "transpose_array perm a =
     tabulate (map (\<lambda>p. dims a ! p) perm)
       (\<lambda>jx. entry a (map (\<lambda>q. jx ! length (takeWhile (\<lambda>p. p \<noteq> q) perm)) [0..<length (dims a)]))"

text \<open>numpy's \<open>matmul\<close> on operands of rank two or more: leading dimensions broadcast.\<close>

definition matmul :: "real_array \<Rightarrow> real_array \<Rightarrow> real_array" where
  "matmul a b =
     (let r = length (dims a); s = length (dims b);
          batch = bshape (take (r - 2) (dims a)) (take (s - 2) (dims b))
      in tabulate (batch @ [dims a ! (r - 2), dims b ! (s - 1)])
           (\<lambda>ix. let c = take (length batch) ix; i = ix ! length batch; j = ix ! Suc (length batch)
                 in \<Sum>l\<leftarrow>[0..<dims a ! (r - 1)]. bread a (c @ [i, l]) * bread b (c @ [l, j])))"

lemma in_box_append:
  "length c = length xs \<Longrightarrow> c @ d \<in> box (xs @ ys) \<longleftrightarrow> c \<in> box xs \<and> d \<in> box ys"
  by (simp add: in_box_iff list_all2_append)

lemma in_box_two [simp]: "[i, j] \<in> box [m, n] \<longleftrightarrow> i < m \<and> j < n"
  by (simp add: in_box_iff)

lemma box_two_cases:
  assumes "ix \<in> box (xs @ [m, n])"
  obtains c i j where "ix = c @ [i, j]" "c \<in> box xs" "i < m" "j < n"
proof -
  from assms obtain c d where cd: "ix = c @ d" "list_all2 (<) c xs" "list_all2 (<) d [m, n]"
    by (auto simp: in_box_iff list_all2_append2)
  then obtain i j where "d = [i, j]" "i < m" "j < n" by (auto simp: list_all2_Cons2)
  with cd that show thesis by (simp add: in_box_iff)
qed

lemma sum_box_two:
  "(\<Sum>ix\<in>box (xs @ [m, n]). F ix) = (\<Sum>c\<in>box xs. \<Sum>i<m. \<Sum>j<n. F (c @ [i, j]))"
proof -
  have "(\<Sum>(c, i, j)\<in>box xs \<times> {..<m} \<times> {..<n}. F (c @ [i, j])) = (\<Sum>ix\<in>box (xs @ [m, n]). F ix)"
    by (rule sum.reindex_bij_witness [where
          i = "\<lambda>ix. (take (length xs) ix, ix ! length xs, ix ! Suc (length xs))" and j = "\<lambda>(c, i, j). c @ [i, j]"])
      (auto simp: in_box_append box_length nth_append simp del: append_assoc elim!: box_two_cases)
  then show ?thesis by (simp add: sum.cartesian_product')
qed

lemma matmul_dims:
  assumes "dims a = pa @ [m, k]" and "dims b = pb @ [k, n]"
  shows "matmul a b = tabulate (bshape pa pb @ [m, n])
    (\<lambda>ix. let c = take (length (bshape pa pb)) ix; i = ix ! length (bshape pa pb);
              j = ix ! Suc (length (bshape pa pb))
          in \<Sum>l<k. bread a (c @ [i, l]) * bread b (c @ [l, j]))"
  by (simp add: matmul_def assms Let_def nth_append interv_sum_list_conv_sum_set_nat atLeast0LessThan)

lemma entry_matmul:
  assumes "dims a = pa @ [m, k]" and "dims b = pb @ [k, n]"
    and "c \<in> box (bshape pa pb)" "i < m" "j < n"
  shows "entry (matmul a b) (c @ [i, j]) = (\<Sum>l<k. bread a (c @ [i, l]) * bread b (c @ [l, j]))"
  using assms(3-5) by (simp add: matmul_dims [OF assms(1,2)] in_box_append box_length nth_append Let_def)

lemma bix_two:
  "length ts \<le> length c \<Longrightarrow> i < m \<Longrightarrow> j < n \<Longrightarrow> bix (ts @ [m, n]) (c @ [i, j]) = bix ts c @ [i, j]"
  by (simp add: bix_def Suc_diff_le)

lemma bread_two:
  assumes "dims a = pa @ [m, n]" and "bcasts pa B" and "c \<in> box B" "i < m" "j < n"
  shows "bread a (c @ [i, j]) = entry a (bix pa c @ [i, j])"
  using assms box_length [of c B] by (simp add: bread_def bix_two bcasts_def)

text \<open>The permutation that swaps the last two of \<open>r + 2\<close> axes.\<close>

lemma length_takeWhile_index:
  assumes "distinct xs" and "i < length xs"
  shows "length (takeWhile (\<lambda>p. p \<noteq> xs ! i) xs) = i"
proof -
  have "takeWhile (\<lambda>p. p \<noteq> xs ! i) xs = take i xs"
    using assms by (intro takeWhile_eq_take_P_nth) (auto simp: nth_eq_iff_index_eq)
  with assms show ?thesis by simp
qed

lemma entry_transpose_last:
  assumes "dims a = pa @ [k, n]" and "c \<in> box pa" "j < n" "l < k"
  shows "entry (transpose_array ([0..<length pa] @ [Suc (length pa), length pa]) a) (c @ [j, l]) = entry a (c @ [l, j])"
proof -
  let ?r = "length pa" and ?perm = "[0..<length pa] @ [Suc (length pa), length pa]"
  have dims: "map (\<lambda>p. dims a ! p) ?perm = pa @ [n, k]"
    using assms(1) by (simp add: nth_append map_upt_eqI)
  have ix: "map (\<lambda>q. (c @ [j, l]) ! length (takeWhile (\<lambda>p. p \<noteq> q) ?perm)) [0..<length (dims a)] = c @ [l, j]"
  proof (rule nth_equalityI)
    fix q
    assume "q < length (map (\<lambda>q. (c @ [j, l]) ! length (takeWhile (\<lambda>p. p \<noteq> q) ?perm)) [0..<length (dims a)])"
    then have q: "q < Suc (Suc ?r)" using assms(1) by simp
    have c: "length c = ?r" by (rule box_length [OF assms(2)])
    have at: "length (takeWhile (\<lambda>p. p \<noteq> ?perm ! i) ?perm) = i" if "i < Suc (Suc ?r)" for i
      using that by (intro length_takeWhile_index) simp_all
    consider "q < ?r" | "q = ?r" | "q = Suc ?r" using q by linarith
    then have "(c @ [j, l]) ! length (takeWhile (\<lambda>p. p \<noteq> q) ?perm) = (c @ [l, j]) ! q"
    proof cases
      case 1
      with at [of q] c show ?thesis by (simp add: nth_append)
    next
      case 2
      with at [of "Suc ?r"] c show ?thesis by (simp add: nth_append)
    next
      case 3
      with at [of ?r] c show ?thesis by (simp add: nth_append)
    qed
    then show "map (\<lambda>q. (c @ [j, l]) ! length (takeWhile (\<lambda>p. p \<noteq> q) ?perm)) [0..<length (dims a)] ! q = (c @ [l, j]) ! q"
      using q assms(1) by (simp del: upt_Suc)
  qed (use assms(1) box_length [OF assms(2)] in simp)
  show ?thesis
    using assms(2-4) by (simp only: transpose_array_def dims ix entry_tabulate in_box_append box_length in_box_two)
qed

lemma dims_transpose_last:
  "dims a = pa @ [k, n] \<Longrightarrow>
     dims (transpose_array ([0..<length pa] @ [Suc (length pa), length pa]) a) = pa @ [n, k]"
  by (simp add: transpose_array_def nth_append map_upt_eqI)

end
