(* ===== verification/Tensor_Gradient.thy ===== *)
theory Tensor_Gradient
  imports Pointwise_Gradient Ndarray
begin

text \<open>
  The gradient rules on whole tensors, with numpy broadcasting between operands of different
  shapes.  \<open>onnx_reals\<close> names what the ONNX operators the rules emit are documented to compute; the
  runtime that executes them is outside the repository, so the interpretation is a parameter.
  \<open>reduce_to\<close> is shown to compute the fibre sums of the broadcast it undoes, and from that the
  elementwise rules and \<open>MatMul\<close>'s are shown adjoint to their directional derivatives.
\<close>

section \<open>The documented operators\<close>

definition ELEMENTWISE :: "string set" where
  "ELEMENTWISE = {''Add'', ''Sub'', ''Mul'', ''Div'', ''Neg'', ''Exp'', ''Log'', ''Sqrt'', ''Sigmoid'',
     ''Tanh'', ''Relu'', ''Softplus'', ''Greater'', ''Less'', ''Cast'', ''Identity''}"

text \<open>A vector of indices, the value of an int64 initializer.\<close>

definition nat_vector :: "nat list \<Rightarrow> real_array" where
  "nat_vector ns = ([length ns], map real ns)"

definition broadcastable :: "real_array list \<Rightarrow> bool" where
  "broadcastable vs \<longleftrightarrow> (\<exists>ds. \<forall>v \<in> set vs. shaped (dims v) v \<and> bcasts (dims v) ds)"

text \<open>The operands of a matrix product: rank two or more, equal inner and broadcastable leading dimensions.\<close>

definition matmul_shapes :: "nat list \<Rightarrow> nat list \<Rightarrow> bool" where
  "matmul_shapes p q \<longleftrightarrow>
     (\<exists>pa pb m k n. p = pa @ [m, k] \<and> q = pb @ [k, n] \<and>
        bcasts pa (bshape pa pb) \<and> bcasts pb (bshape pa pb))"

definition onnx_reals :: "real_array interp \<Rightarrow> bool" where
  "onnx_reals I \<longleftrightarrow>
     (\<forall>ty attrs vs. ty \<in> ELEMENTWISE \<and> broadcastable vs \<longrightarrow>
        op_val I ty attrs vs = elementwise (pw_op ty) vs) \<and>
     (\<forall>x axes. set axes \<subseteq> {..<length (dims x)} \<longrightarrow>
        op_val I ''ReduceSum'' [(''keepdims'', AInt 1)] [x, nat_vector axes] = sum_keep axes x) \<and>
     (\<forall>x ds. 0 \<notin> set ds \<and> prod_list ds = length (snd x) \<longrightarrow>
        op_val I ''Reshape'' [] [x, nat_vector ds] = reshape ds x) \<and>
     (\<forall>x perm. distinct perm \<and> set perm = {..<length (dims x)} \<longrightarrow>
        op_val I ''Transpose'' [(''perm'', AInts (map int perm))] [x] = transpose_array perm x) \<and>
     (\<forall>attrs a b. matmul_shapes (dims a) (dims b) \<longrightarrow>
        op_val I ''MatMul'' attrs [a, b] = matmul a b) \<and>
     (\<forall>x v. const_val I \<lparr>t_name = x, t_dims = [], t_data = TFloat [v]\<rparr> = ([], [v])) \<and>
     (\<forall>x ns. const_val I \<lparr>t_name = x, t_dims = [int (length ns)], t_data = TInt True (map int ns)\<rparr> =
        nat_vector ns)"

lemma onnx_realsD:
  assumes "onnx_reals I"
  shows "ty \<in> ELEMENTWISE \<Longrightarrow> broadcastable vs \<Longrightarrow> op_val I ty attrs vs = elementwise (pw_op ty) vs"
    and "set axes \<subseteq> {..<length (dims x)} \<Longrightarrow>
      op_val I ''ReduceSum'' [(''keepdims'', AInt 1)] [x, nat_vector axes] = sum_keep axes x"
    and "0 \<notin> set ds \<Longrightarrow> prod_list ds = length (snd x) \<Longrightarrow>
      op_val I ''Reshape'' [] [x, nat_vector ds] = reshape ds x"
    and "distinct perm \<Longrightarrow> set perm = {..<length (dims x)} \<Longrightarrow>
      op_val I ''Transpose'' [(''perm'', AInts (map int perm))] [x] = transpose_array perm x"
    and "matmul_shapes (dims a) (dims b) \<Longrightarrow> op_val I ''MatMul'' attrs [a, b] = matmul a b"
    and "const_val I \<lparr>t_name = y, t_dims = [], t_data = TFloat [v]\<rparr> = ([], [v])"
    and "const_val I \<lparr>t_name = y, t_dims = [int (length ns)], t_data = TInt True (map int ns)\<rparr> = nat_vector ns"
  using assms unfolding onnx_reals_def by blast+

section \<open>What \<open>reduce_to\<close> computes\<close>

lemma as_int64_nats: "as_int64 (nats ns) = Inr arr \<Longrightarrow> arr = map int ns"
proof -
  have "mapE dim_int (nats ns) = Inr (map int ns)"
    using mapE_dim_int [of "map int ns"] by (simp add: comp_def)
  then show "as_int64 (nats ns) = Inr arr \<Longrightarrow> arr = map int ns" by (simp add: as_int64_def res_iff)
qed

lemma yields_int64:
  assumes I: "onnx_reals I"
  shows "yields I V (int64_const (nats ns) h) (\<lambda>x. V x = nat_vector ns)"
proof (rule yieldsI)
  fix b r b'
  assume ok: "builder_ok b" and run: "int64_const (nats ns) h b = (r, b')"
  have "builder_ok b' \<and> (sound I V b' \<longrightarrow> sound I V b) \<and>
      (sound I V b' \<longrightarrow> r = Inr x \<longrightarrow> V x = nat_vector ns)" for x
  proof (cases "as_int64 (nats ns)")
    case (Inl e)
    with ok run show ?thesis by (auto simp: int64_const_def lift_run)
  next
    case (Inr arr)
    with ok run onnx_realsD(7) [OF I] show ?thesis
      by (auto simp: int64_const_def bnd_def b_name_run add_initializer_def ret_run builder_ok_def sound_def
          dest!: as_int64_nats)
  qed
  then show "builder_ok b' \<and> (sound I V b' \<longrightarrow> sound I V b \<and> (\<forall>x. r = Inr x \<longrightarrow> V x = nat_vector ns))"
    by blast
qed

lemma stretched_axes_nats:
  assumes "stretched_axes k (nats ts) (nats ds) = Inr axes" and "length ts = length ds"
  shows "list_all2 (\<lambda>t d. t = d \<or> t = 1) ts ds"
    and "set axes = (\<lambda>i. k + i) ` {i. i < length ts \<and> ts ! i \<noteq> ds ! i}"
proof -
  have "list_all2 (\<lambda>t d. t = d \<or> t = 1) ts ds \<and>
      set axes = (\<lambda>i. k + i) ` {i. i < length ts \<and> ts ! i \<noteq> ds ! i}"
    using assms
  proof (induction ts arbitrary: k ds axes)
    case Nil
    then show ?case by simp
  next
    case (Cons t ts)
    then obtain d ds' where ds: "ds = d # ds'" "length ts = length ds'" by (cases ds) auto
    have shift: "(\<lambda>i. k + i) ` {i. i < length (t # ts) \<and> (t # ts) ! i \<noteq> (d # ds') ! i} =
        (if t = d then {} else {k}) \<union> (\<lambda>i. Suc k + i) ` {i. i < length ts \<and> ts ! i \<noteq> ds' ! i}"
    proof -
      have "{i. i < length (t # ts) \<and> (t # ts) ! i \<noteq> (d # ds') ! i} =
          (if t = d then {} else {0}) \<union> Suc ` {i. i < length ts \<and> ts ! i \<noteq> ds' ! i}"
        by (auto simp: less_Suc_eq_0_disj)
      then show ?thesis by (simp add: image_Un image_image)
    qed
    show ?case
    proof (cases "t = d")
      case True
      with Cons.prems ds have "stretched_axes (Suc k) (nats ts) (nats ds') = Inr axes" by simp
      from Cons.IH [OF this ds(2)] True shift ds show ?thesis by simp
    next
      case False
      with Cons.prems ds obtain ax where ax: "t = 1" "axes = k # ax"
          "stretched_axes (Suc k) (nats ts) (nats ds') = Inr ax"
        by (auto simp: res_iff split: if_splits)
      from Cons.IH [OF ax(3) ds(2)] False ax shift ds show ?thesis by simp
    qed
  qed
  then show "list_all2 (\<lambda>t d. t = d \<or> t = 1) ts ds"
    "set axes = (\<lambda>i. k + i) ` {i. i < length ts \<and> ts ! i \<noteq> ds ! i}" by blast+
qed

lemma summed_shape_nats: "summed_shape axes (nats ds) = nats (ones_at axes ds)"
  unfolding summed_shape_def ones_at_def by (rule nth_equalityI) (auto simp: nth_enumerate_eq)

text \<open>The axes \<open>reduce_to\<close> sums over are those of \<open>unbcast_as_sum\<close>.\<close>

lemma reduce_axes:
  assumes "length ts \<le> length ds"
    and "stretched_axes (length ds - length ts) (nats ts) (drop (length ds - length ts) (nats ds)) = Inr inner"
  shows "bcasts ts ds"
    and "set ([0..<length ds - length ts] @ inner) = {..<length ds - length ts} \<union>
      (\<lambda>i. length ds - length ts + i) ` {i. i < length ts \<and> ts ! i \<noteq> ds ! (length ds - length ts + i)}"
    and "set ([0..<length ds - length ts] @ inner) \<subseteq> {..<length ds}"
proof -
  let ?n = "length ds - length ts"
  from assms have s: "stretched_axes ?n (nats ts) (nats (drop ?n ds)) = Inr inner" by (simp add: drop_map)
  note s = stretched_axes_nats [OF this]
  from s(1) assms(1) show "bcasts ts ds" by (simp add: bcasts_def)
  have "{i. i < length ts \<and> ts ! i \<noteq> drop ?n ds ! i} = {i. i < length ts \<and> ts ! i \<noteq> ds ! (?n + i)}"
    by auto
  with s(2) assms(1) show set: "set ([0..<?n] @ inner) = {..<?n} \<union>
      (\<lambda>i. ?n + i) ` {i. i < length ts \<and> ts ! i \<noteq> ds ! (?n + i)}"
    by (simp add: atLeast0LessThan)
  show "set ([0..<?n] @ inner) \<subseteq> {..<length ds}"
    unfolding set using assms(1) by auto
qed

lemma yields_reduce_to:
  assumes I: "onnx_reals I" and pos: "0 \<notin> set ts"
  shows "yields I V (reduce_to x (nats ds) (nats ts))
    (\<lambda>z. shaped ds (V x) \<longrightarrow> bcasts ts ds \<and> V z = unbcast ts (V x))"
proof (cases "ts = ds")
  case True
  then show ?thesis by (simp add: yields_ret unbcast_self)
next
  case False
  then have ne: "nats ds \<noteq> nats ts"
    by (metis (no_types, lifting) dim.inject(1) injI inj_map_eq_map of_nat_eq_iff)
  show ?thesis
  proof (cases "length ds < length ts")
    case True
    then have "reduce_to x (nats ds) (nats ts) = raise ValueError" by (simp add: reduce_to_def ne)
    then show ?thesis by (simp only:) (rule yields_lift, simp)
  next
    case len: False
    let ?n = "length ds - length ts"
    let ?rest = "\<lambda>axes. bnd (if axes \<noteq> []
              then bnd (int64_const (nats axes) ''axes'') (\<lambda>ax.
                b_op_in ''ReduceSum'' [x, ax] ''unbcast'' '''' [(''keepdims'', AInt 1)])
              else ret x) (\<lambda>out.
         if summed_shape axes (nats ds) \<noteq> nats ts
         then bnd (int64_const (nats ts) ''shape'') (\<lambda>sh. b_op_in ''Reshape'' [out, sh] ''unbcast'' '''' [])
         else ret out)"
    have eq: "reduce_to x (nats ds) (nats ts) =
        bnd (lift (stretched_axes ?n (nats ts) (drop ?n (nats ds)))) (\<lambda>inner. ?rest ([0..<?n] @ inner))"
      by (simp only: reduce_to_def Let_def ne len length_map if_False)
    show ?thesis
      unfolding eq
    proof (rule yields_lift_bnd)
      fix inner
      assume inner: "stretched_axes ?n (nats ts) (drop ?n (nats ds)) = Inr inner"
      let ?axes = "[0..<?n] @ inner"
      from len have len': "length ts \<le> length ds" by simp
      note ax = reduce_axes [OF len' inner]
      have nonempty: "?axes \<noteq> []"
      proof
        assume "?axes = []"
        then have "length ts = length ds" "list_all2 (=) ts ds"
          using len' ax(2) by (auto simp: list_all2_conv_all_nth)
        with False show False by (simp add: list_all2_eq)
      qed
      have sum: "yields I V (bnd (int64_const (nats ?axes) ''axes'') (\<lambda>ax.
            b_op_in ''ReduceSum'' [x, ax] ''unbcast'' '''' [(''keepdims'', AInt 1)]))
          (\<lambda>z. shaped ds (V x) \<longrightarrow> V z = sum_keep ?axes (V x))"
        by (rule yields_bnd [OF yields_int64 [OF I]], rule yields_weaken [OF yields_op])
          (use ax(3) in \<open>auto simp: onnx_realsD(2) [OF I] shaped_dims\<close>)
      have restore: "yields I V (bnd (int64_const (nats ts) ''shape'') (\<lambda>sh.
            b_op_in ''Reshape'' [out, sh] ''unbcast'' '''' []))
          (\<lambda>z. prod_list ts = length (snd (V out)) \<longrightarrow> V z = reshape ts (V out))" for out
        by (rule yields_bnd [OF yields_int64 [OF I]], rule yields_weaken [OF yields_op])
          (use pos in \<open>simp add: onnx_realsD(3) [OF I]\<close>)
      have size: "prod_list ts = length (snd (sum_keep ?axes (V x)))" if "shaped ds (V x)"
        using unbcast_as_sum [OF ax(1) that ax(2)] that
        by (simp add: sum_keep_def shaped_dims tabulate_def)
      have same: "sum_keep ?axes (V x) = unbcast ts (V x)"
        if "shaped ds (V x)" "summed_shape ?axes (nats ds) = nats ts"
      proof -
        have "ones_at ?axes ds = ts"
          using that(2) unfolding summed_shape_nats
          by (metis (no_types, lifting) dim.inject(1) injI inj_map_eq_map of_nat_eq_iff)
        then have "reshape ts (sum_keep ?axes (V x)) = sum_keep ?axes (V x)"
          using that(1) by (simp add: reshape_def sum_keep_def tabulate_def shaped_dims)
        with unbcast_as_sum(2) [OF ax(1) that(1) ax(2)] show ?thesis by simp
      qed
      show "yields I V (?rest ?axes)
          (\<lambda>z. shaped ds (V x) \<longrightarrow> bcasts ts ds \<and> V z = unbcast ts (V x))"
      proof (simp only: nonempty if_True not_False_eq_True, rule yields_bnd [OF sum])
        fix out
        show "yields I V (if summed_shape ?axes (nats ds) \<noteq> nats ts
           then bnd (int64_const (nats ts) ''shape'') (\<lambda>sh. b_op_in ''Reshape'' [out, sh] ''unbcast'' '''' [])
           else ret out)
          (\<lambda>z. (shaped ds (V x) \<longrightarrow> V out = sum_keep ?axes (V x)) \<longrightarrow>
             shaped ds (V x) \<longrightarrow> bcasts ts ds \<and> V z = unbcast ts (V x))"
          using ax(1) size same unbcast_as_sum(2) [OF ax(1) _ ax(2), of "V x"]
          by (auto intro!: yields_ret yields_weaken [OF restore])
      qed
    qed
  qed
qed

section \<open>Shapes and values\<close>

definition dims_of :: "(string \<rightharpoonup> shape) \<Rightarrow> string \<Rightarrow> nat list" where
  "dims_of shapes x =
     (case shapes x of None \<Rightarrow> [] | Some s \<Rightarrow> map (\<lambda>d. case d of DInt n \<Rightarrow> nat n | DSym _ \<Rightarrow> 0) s)"

text \<open>A real tensor whose shape is known and has no empty dimension.\<close>

definition static :: "(string \<rightharpoonup> shape) \<Rightarrow> string \<Rightarrow> bool" where
  "static shapes x \<longleftrightarrow> x \<noteq> '''' \<and> shapes x = Some (nats (dims_of shapes x)) \<and> 0 \<notin> set (dims_of shapes x)"

definition typed :: "(string \<rightharpoonup> shape) \<Rightarrow> string \<Rightarrow> real_array \<Rightarrow> bool" where
  "typed shapes x v \<longleftrightarrow> shaped (dims_of shapes x) v"

definition jvp_array :: "string \<Rightarrow> real_array list \<Rightarrow> real_array list \<Rightarrow> real_array" where
  "jvp_array ty vs ts =
     tabulate (foldl bshape [] (map dims vs))
       (\<lambda>ix. jvp ty (map (\<lambda>v. bread v ix) vs) (map (\<lambda>t. bread t ix) ts))"

text \<open>
  What the adjointness of an elementwise rule may use: shapes are known and respected, the operands
  broadcast to the output, the operator is differentiable at every position, and value and tangent
  of the output are the operator's.
\<close>

definition elementwise_node :: "(string \<rightharpoonup> shape) \<Rightarrow> real_array env \<Rightarrow> real_array env \<Rightarrow> node \<Rightarrow> bool" where
  "elementwise_node shapes V T nd \<longleftrightarrow>
     (\<forall>x \<in> set (inputs nd) \<union> set (outputs nd). static shapes x \<and> typed shapes x (V x)) \<and>
     (\<forall>x \<in> set (inputs nd). typed shapes x (T x)) \<and>
     (\<exists>out. outputs nd = [out] \<and>
        foldl bshape [] (map (dims_of shapes) (inputs nd)) = dims_of shapes out \<and>
        (\<forall>x \<in> set (inputs nd). bcasts (dims_of shapes x) (dims_of shapes out)) \<and>
        (\<forall>ix \<in> box (dims_of shapes out). pw_defined (op_type nd) (map (\<lambda>x. bread (V x) ix) (inputs nd))) \<and>
        V out = elementwise (pw_op (op_type nd)) (map V (inputs nd)) \<and>
        T out = jvp_array (op_type nd) (map V (inputs nd)) (map T (inputs nd)))"

text \<open>What a rule owes: gradients of the right shapes whose pairings add up.\<close>

definition tensor_adjoint ::
    "(string \<rightharpoonup> shape) \<Rightarrow> real_array env \<Rightarrow> real_array env \<Rightarrow> node \<Rightarrow> string \<Rightarrow> string \<Rightarrow> string option list \<Rightarrow> bool" where
  "tensor_adjoint shapes V T nd out g cs \<longleftrightarrow>
     (typed shapes out (V g) \<longrightarrow>
        (\<forall>nc \<in> set (zip (inputs nd) cs). contribution_fits (typed shapes) V nc) \<and>
        sum_list (map (contribution dot V T) (zip (inputs nd) cs)) = dot (V g) (T out))"

lemma static_ctx_shape: "static (c_shapes C) x \<Longrightarrow> ctx_shape C x = Inr (nats (dims_of (c_shapes C) x))"
  by (simp add: static_def ctx_shape_def)

lemma elementwise_node_two:
  assumes nd: "elementwise_node shapes V T nd" and C: "c_shapes C = shapes"
    and io: "inputs nd = [a, b]" "outputs nd = [out]"
  defines "sa \<equiv> dims_of shapes a" and "sb \<equiv> dims_of shapes b" and "ds \<equiv> dims_of shapes out"
  shows "ctx_shape C a = Inr (nats sa)" "ctx_shape C b = Inr (nats sb)" "ctx_shape C out = Inr (nats ds)"
    and "0 \<notin> set sa" "0 \<notin> set sb" "a \<noteq> ''''" "b \<noteq> ''''"
    and "shaped sa (V a)" "shaped sb (V b)" "shaped sa (T a)" "shaped sb (T b)"
    and "bcasts sa ds" "bcasts sb ds"
    and "\<And>ix. ix \<in> box ds \<Longrightarrow> pw_defined (op_type nd) [bread (V a) ix, bread (V b) ix]"
    and "V out = tabulate ds (\<lambda>ix. pw_op (op_type nd) [bread (V a) ix, bread (V b) ix])"
    and "T out = tabulate ds (\<lambda>ix. jvp (op_type nd) [bread (V a) ix, bread (V b) ix] [bread (T a) ix, bread (T b) ix])"
proof -
  have e: "bshape sa sb = ds" "bcasts sa ds" "bcasts sb ds" "static shapes a" "static shapes b" "static shapes out"
    "shaped sa (V a)" "shaped sb (V b)" "shaped sa (T a)" "shaped sb (T b)"
    "V out = elementwise (pw_op (op_type nd)) [V a, V b]" "T out = jvp_array (op_type nd) [V a, V b] [T a, T b]"
    and def: "\<forall>ix \<in> box ds. pw_defined (op_type nd) [bread (V a) ix, bread (V b) ix]"
    using nd unfolding elementwise_node_def sa_def sb_def ds_def by (simp_all add: io typed_def)
  show "ctx_shape C a = Inr (nats sa)" "ctx_shape C b = Inr (nats sb)" "ctx_shape C out = Inr (nats ds)"
    "0 \<notin> set sa" "0 \<notin> set sb" "a \<noteq> ''''" "b \<noteq> ''''"
    using e(4-6) static_ctx_shape [of C] C by (auto simp: static_def sa_def sb_def ds_def)
  show "V out = tabulate ds (\<lambda>ix. pw_op (op_type nd) [bread (V a) ix, bread (V b) ix])"
    "T out = tabulate ds (\<lambda>ix. jvp (op_type nd) [bread (V a) ix, bread (V b) ix] [bread (T a) ix, bread (T b) ix])"
    unfolding e(11,12) by (simp_all add: elementwise_def jvp_array_def e(1) shaped_dims [OF e(7)] shaped_dims [OF e(8)])
qed (use nd in \<open>simp_all add: elementwise_node_def sa_def sb_def ds_def io typed_def\<close>)

lemma elementwise_node_one:
  assumes nd: "elementwise_node shapes V T nd" and C: "c_shapes C = shapes"
    and io: "inputs nd = [a]" "outputs nd = [out]"
  defines "ds \<equiv> dims_of shapes out"
  shows "ctx_shape C a = Inr (nats ds)" "ctx_shape C out = Inr (nats ds)" "a \<noteq> ''''"
    and "shaped ds (V a)" "shaped ds (T a)" "dims_of shapes a = ds"
    and "\<And>ix. ix \<in> box ds \<Longrightarrow> pw_defined (op_type nd) [entry (V a) ix]"
    and "V out = tabulate ds (\<lambda>ix. pw_op (op_type nd) [entry (V a) ix])"
    and "T out = tabulate ds (\<lambda>ix. jvp (op_type nd) [entry (V a) ix] [entry (T a) ix])"
proof -
  from nd have out: "dims_of shapes a = ds"
    unfolding elementwise_node_def ds_def by (simp add: io)
  with nd static_ctx_shape [of C] show "ctx_shape C a = Inr (nats ds)" "ctx_shape C out = Inr (nats ds)" "a \<noteq> ''''"
    "dims_of shapes a = ds" and t: "shaped ds (V a)" "shaped ds (T a)"
    unfolding elementwise_node_def C ds_def by (simp_all add: io static_def typed_def)
  show "\<And>ix. ix \<in> box ds \<Longrightarrow> pw_defined (op_type nd) [entry (V a) ix]"
    using nd bread_self [OF t(1)] unfolding elementwise_node_def by (simp add: io ds_def)
  show "V out = tabulate ds (\<lambda>ix. pw_op (op_type nd) [entry (V a) ix])"
    "T out = tabulate ds (\<lambda>ix. jvp (op_type nd) [entry (V a) ix] [entry (T a) ix])"
    using nd bread_self [OF t(1)] bread_self [OF t(2)] t unfolding elementwise_node_def
    by (auto simp: io elementwise_def jvp_array_def shaped_def intro: tabulate_cong)
qed

subsection \<open>Elementwise operators on tabulated arrays\<close>

lemma broadcastable_tabulate:
  "shaped (dims v) v \<Longrightarrow> bcasts (dims v) ds \<Longrightarrow> broadcastable [tabulate ds p, v]"
  "shaped (dims v) v \<Longrightarrow> bcasts (dims v) ds \<Longrightarrow> broadcastable [v, tabulate ds p]"
  "broadcastable [tabulate ds p, tabulate ds q]" "broadcastable [tabulate ds p]"
  unfolding broadcastable_def by (rule exI [of _ ds], simp)+

lemma op_tabulate:
  assumes "onnx_reals I" and "ty \<in> ELEMENTWISE"
  shows "op_val I ty attrs [tabulate ds p] = tabulate ds (\<lambda>ix. pw_op ty [p ix])"
    and "op_val I ty attrs [tabulate ds p, tabulate ds q] = tabulate ds (\<lambda>ix. pw_op ty [p ix, q ix])"
    and "shaped sv v \<Longrightarrow> bcasts sv ds \<Longrightarrow>
      op_val I ty attrs [tabulate ds p, v] = tabulate ds (\<lambda>ix. pw_op ty [p ix, bread v ix])"
    and "shaped sv v \<Longrightarrow> bcasts sv ds \<Longrightarrow>
      op_val I ty attrs [v, tabulate ds p] = tabulate ds (\<lambda>ix. pw_op ty [bread v ix, p ix])"
  by (simp_all add: onnx_realsD(1) [OF assms] broadcastable_tabulate elementwise_one elementwise_both
      elementwise_two shaped_dims)

lemma ELEMENTWISE_members [simp]:
  "''Add'' \<in> ELEMENTWISE" "''Sub'' \<in> ELEMENTWISE" "''Mul'' \<in> ELEMENTWISE" "''Div'' \<in> ELEMENTWISE"
  "''Neg'' \<in> ELEMENTWISE" "''Exp'' \<in> ELEMENTWISE" "''Greater'' \<in> ELEMENTWISE" "''Cast'' \<in> ELEMENTWISE"
  "''Identity'' \<in> ELEMENTWISE"
  by (simp_all add: ELEMENTWISE_def)

section \<open>The elementwise rules are adjoint\<close>

lemma tensor_adjoint_two:
  assumes io: "inputs nd = [a, b]" and names: "a \<noteq> ''''" "b \<noteq> ''''"
    and b: "bcasts (dims_of shapes a) ds" "bcasts (dims_of shapes b) ds"
    and T: "shaped (dims_of shapes a) (T a)" "shaped (dims_of shapes b) (T b)" "T out = tabulate ds t"
    and r: "V ra = unbcast (dims_of shapes a) (tabulate ds p)" "V rb = unbcast (dims_of shapes b) (tabulate ds q)"
    and g: "shaped ds (V g)"
    and eq: "\<And>ix. ix \<in> box ds \<Longrightarrow> p ix * bread (T a) ix + q ix * bread (T b) ix = entry (V g) ix * t ix"
  shows "tensor_adjoint shapes V T nd out g [Some ra, Some rb]"
proof -
  have "dot (V ra) (T a) + dot (V rb) (T b) =
      (\<Sum>ix\<in>box ds. p ix * bread (T a) ix) + (\<Sum>ix\<in>box ds. q ix * bread (T b) ix)"
    by (simp add: r dot_unbcast [OF shaped_tabulate b(1) T(1)] dot_unbcast [OF shaped_tabulate b(2) T(2)])
  also have "\<dots> = (\<Sum>ix\<in>box ds. entry (V g) ix * t ix)"
    by (simp add: sum.distrib [symmetric] eq)
  also have "\<dots> = dot (V g) (T out)"
    by (simp add: dot_shaped [OF g shaped_tabulate] T(3))
  finally show ?thesis
    using names r by (simp add: tensor_adjoint_def io contribution_fits_def typed_def)
qed

lemma tensor_adjoint_one:
  assumes io: "inputs nd = [a]" and names: "a \<noteq> ''''" and a: "dims_of shapes a = ds"
    and T: "shaped ds (T a)" "T out = tabulate ds t"
    and r: "V dx = tabulate ds p" and g: "shaped ds (V g)"
    and eq: "\<And>ix. ix \<in> box ds \<Longrightarrow> p ix * entry (T a) ix = entry (V g) ix * t ix"
  shows "tensor_adjoint shapes V T nd out g [Some dx]"
proof -
  have "dot (V dx) (T a) = dot (V g) (T out)"
    using r by (simp add: dot_shaped [OF _ T(1)] dot_shaped [OF g shaped_tabulate] T(2) eq)
  then show ?thesis
    using names a r by (simp add: tensor_adjoint_def io contribution_fits_def typed_def)
qed

text \<open>A program whose result is adjoint whenever the incoming gradient has its tensor's shape.\<close>

lemma tensor_adjointI:
  "(shaped (dims_of shapes out) (V g) \<Longrightarrow> tensor_adjoint shapes V T nd out g cs) \<Longrightarrow>
     tensor_adjoint shapes V T nd out g cs"
  by (auto simp: tensor_adjoint_def typed_def)

lemma tensor_template_values:
  assumes I: "onnx_reals I"
  shows "call_vals I GRAD_ADD [tabulate ds p] = [tabulate ds p, tabulate ds p]"
    and "call_vals I GRAD_NEG [tabulate ds p] = [tabulate ds (\<lambda>ix. - p ix)]"
    and "shaped sa a \<Longrightarrow> bcasts sa ds \<Longrightarrow>
      call_vals I GRAD_EXP [tabulate ds p, a] = [tabulate ds (\<lambda>ix. p ix * bread a ix)]"
    and "shaped sa a \<Longrightarrow> bcasts sa ds \<Longrightarrow>
      call_vals I GRAD_SQRT [tabulate ds p, a, ([], [h])] = [tabulate ds (\<lambda>ix. p ix * h / bread a ix)]"
    and "shaped sa a \<Longrightarrow> bcasts sa ds \<Longrightarrow>
      call_vals I GRAD_LOG [tabulate ds p, a] = [tabulate ds (\<lambda>ix. p ix / bread a ix)]"
    and "call_vals I GRAD_SIGMOID [tabulate ds p, tabulate ds y, ([], [c])] =
      [tabulate ds (\<lambda>ix. p ix * (y ix * (c - y ix)))]"
    and "call_vals I GRAD_TANH [tabulate ds p, tabulate ds y, ([], [c])] =
      [tabulate ds (\<lambda>ix. p ix * (c - y ix * y ix))]"
    and "shaped sa a \<Longrightarrow> bcasts sa ds \<Longrightarrow> shaped sb b \<Longrightarrow> bcasts sb ds \<Longrightarrow>
      call_vals I GRAD_MUL [tabulate ds p, a, b] =
        [tabulate ds (\<lambda>ix. p ix * bread b ix), tabulate ds (\<lambda>ix. p ix * bread a ix)]"
    and "shaped sb b \<Longrightarrow> bcasts sb ds \<Longrightarrow>
      call_vals I GRAD_DIV [tabulate ds p, a, b, tabulate ds y] =
        [tabulate ds (\<lambda>ix. p ix / bread b ix), tabulate ds (\<lambda>ix. - (p ix * y ix / bread b ix))]"
proof -
  have c: "shaped [] ([], [x])" "bread ([], [x]) ix = x" for x :: real and ix
    by (simp_all add: shaped_def bread_def entry_def bix_def)
  note s = call_vals_def eval_body_def eval_primitive_def bind_args_def templates op_tabulate [OF I]
    op_tabulate(3,4) [OF I _ c(1)] c
  show "call_vals I GRAD_ADD [tabulate ds p] = [tabulate ds p, tabulate ds p]"
    "call_vals I GRAD_NEG [tabulate ds p] = [tabulate ds (\<lambda>ix. - p ix)]"
    "call_vals I GRAD_SIGMOID [tabulate ds p, tabulate ds y, ([], [c])] =
      [tabulate ds (\<lambda>ix. p ix * (y ix * (c - y ix)))]"
    "call_vals I GRAD_TANH [tabulate ds p, tabulate ds y, ([], [c])] =
      [tabulate ds (\<lambda>ix. p ix * (c - y ix * y ix))]"
    by (simp_all add: s)
  assume a: "shaped sa a" "bcasts sa ds"
  show "call_vals I GRAD_EXP [tabulate ds p, a] = [tabulate ds (\<lambda>ix. p ix * bread a ix)]"
    "call_vals I GRAD_LOG [tabulate ds p, a] = [tabulate ds (\<lambda>ix. p ix / bread a ix)]"
    "call_vals I GRAD_SQRT [tabulate ds p, a, ([], [h])] = [tabulate ds (\<lambda>ix. p ix * h / bread a ix)]"
    by (simp_all add: s op_tabulate(3,4) [OF I _ a])
  assume b: "shaped sb b" "bcasts sb ds"
  show "call_vals I GRAD_MUL [tabulate ds p, a, b] =
      [tabulate ds (\<lambda>ix. p ix * bread b ix), tabulate ds (\<lambda>ix. p ix * bread a ix)]"
    by (simp add: s op_tabulate(3,4) [OF I _ a] op_tabulate(3,4) [OF I _ b])
next
  have c: "shaped [] ([], [x])" "bread ([], [x]) ix = x" for x :: real and ix
    by (simp_all add: shaped_def bread_def entry_def bix_def)
  note s = call_vals_def eval_body_def eval_primitive_def bind_args_def templates op_tabulate [OF I]
  assume b: "shaped sb b" "bcasts sb ds"
  show "call_vals I GRAD_DIV [tabulate ds p, a, b, tabulate ds y] =
        [tabulate ds (\<lambda>ix. p ix / bread b ix), tabulate ds (\<lambda>ix. - (p ix * y ix / bread b ix))]"
    by (simp add: s op_tabulate(3,4) [OF I _ b])
qed

lemma yields_case_prod:
  "(\<And>x y. p = (x, y) \<Longrightarrow> yields I V (f x y) Q) \<Longrightarrow> yields I V (case p of (x, y) \<Rightarrow> f x y) Q"
  by (cases p) simp

lemmas tensor_steps = yields_case_prod yields_bnd [OF yields_call] yields_bnd [OF yields_reduce_to]
  yields_bnd [OF yields_const] yields_bnd [OF yields_op] yields_lift_bnd yields_ret

lemma tensor_Mul:
  assumes I: "onnx_reals I" and nd: "elementwise_node (c_shapes C) V T nd" "op_type nd = ''Mul''"
    and io: "inputs nd = [a, b]" "outputs nd = [out]"
  shows "yields I V (grad_mul_templated C nd g) (tensor_adjoint (c_shapes C) V T nd out g)"
proof -
  note n = elementwise_node_two [OF nd(1) refl io, unfolded nd(2)]
  let ?ds = "dims_of (c_shapes C) out"
  have vals: "call_vals I GRAD_MUL [V g, V a, V b] =
      [tabulate ?ds (\<lambda>ix. entry (V g) ix * bread (V b) ix), tabulate ?ds (\<lambda>ix. entry (V g) ix * bread (V a) ix)]"
    if "shaped ?ds (V g)"
    using tensor_template_values(8) [OF I n(8) n(12) n(9) n(13), of "entry (V g)"]
    by (simp add: tabulate_entry [OF that])
  have fin: "tensor_adjoint (c_shapes C) V T nd out g [Some ra, Some rb]"
    if g: "shaped ?ds (V g)" and outs: "[V da, V db] = call_vals I GRAD_MUL [V g, V a, V b]"
      and ra: "shaped ?ds (V da) \<longrightarrow> V ra = unbcast (dims_of (c_shapes C) a) (V da)"
      and rb: "shaped ?ds (V db) \<longrightarrow> V rb = unbcast (dims_of (c_shapes C) b) (V db)" for da db ra rb
    by (rule tensor_adjoint_two [where t = "\<lambda>ix. jvp ''Mul'' [bread (V a) ix, bread (V b) ix] [bread (T a) ix, bread (T b) ix]"
        and p = "\<lambda>ix. entry (V g) ix * bread (V b) ix" and q = "\<lambda>ix. entry (V g) ix * bread (V a) ix",
        OF io(1) n(6,7,12,13,10,11,16)])
      (use g outs ra rb in \<open>simp_all add: vals algebra_simps\<close>)
  show ?thesis
    using n(1-3) io unfolding grad_mul_templated_def
    by simp
      ((rule tensor_steps TEMPLATES_members I n(4,5))+, intro impI, rule tensor_adjointI, rule fin, auto)
qed

lemma tensor_Add:
  assumes I: "onnx_reals I" and nd: "elementwise_node (c_shapes C) V T nd" "op_type nd = ''Add''"
    and io: "inputs nd = [a, b]" "outputs nd = [out]"
  shows "yields I V (grad_add_templated C nd g) (tensor_adjoint (c_shapes C) V T nd out g)"
proof -
  note n = elementwise_node_two [OF nd(1) refl io, unfolded nd(2)]
  let ?ds = "dims_of (c_shapes C) out"
  have vals: "call_vals I GRAD_ADD [V g] = [tabulate ?ds (entry (V g)), tabulate ?ds (entry (V g))]"
    if "shaped ?ds (V g)"
    using tensor_template_values(1) [OF I, of ?ds "entry (V g)"] by (simp add: tabulate_entry [OF that])
  have fin: "tensor_adjoint (c_shapes C) V T nd out g [Some ra, Some rb]"
    if g: "shaped ?ds (V g)" and outs: "[V da, V db] = call_vals I GRAD_ADD [V g]"
      and ra: "shaped ?ds (V da) \<longrightarrow> V ra = unbcast (dims_of (c_shapes C) a) (V da)"
      and rb: "shaped ?ds (V db) \<longrightarrow> V rb = unbcast (dims_of (c_shapes C) b) (V db)" for da db ra rb
    by (rule tensor_adjoint_two [where t = "\<lambda>ix. jvp ''Add'' [bread (V a) ix, bread (V b) ix] [bread (T a) ix, bread (T b) ix]"
        and p = "entry (V g)" and q = "entry (V g)", OF io(1) n(6,7,12,13,10,11,16)])
      (use g outs ra rb in \<open>simp_all add: vals algebra_simps\<close>)
  show ?thesis
    using n(1-3) io unfolding grad_add_templated_def
    by simp
      ((rule tensor_steps TEMPLATES_members I n(4,5))+, intro impI, rule tensor_adjointI, rule fin, auto)
qed

lemma op_neg_unbcast:
  assumes "onnx_reals I" and "shaped ds u"
  shows "op_val I ''Neg'' attrs [unbcast ts u] = unbcast ts (tabulate ds (\<lambda>ix. - entry u ix))"
proof -
  have "(\<Sum>ix\<leftarrow>filter P (cells ds). - entry u ix) =
      (\<Sum>ix\<leftarrow>filter P (cells ds). entry (tabulate ds (\<lambda>ix. - entry u ix)) ix)" for P
    by (intro arg_cong [where f = sum_list] map_cong) auto
  then show ?thesis
    using assms(2) unfolding unbcast_def
    by (simp add: op_tabulate(1) [OF assms(1)] uminus_sum_list_map comp_def shaped_dims)
qed

lemma tensor_Sub:
  assumes I: "onnx_reals I" and nd: "elementwise_node (c_shapes C) V T nd" "op_type nd = ''Sub''"
    and io: "inputs nd = [a, b]" "outputs nd = [out]"
  shows "yields I V (grad_sub C nd g) (tensor_adjoint (c_shapes C) V T nd out g)"
proof -
  note n = elementwise_node_two [OF nd(1) refl io, unfolded nd(2)]
  let ?ds = "dims_of (c_shapes C) out"
  have fin: "tensor_adjoint (c_shapes C) V T nd out g [Some ra, Some rb]"
    if g: "shaped ?ds (V g)"
      and gb: "shaped ?ds (V g) \<longrightarrow> V gb = unbcast (dims_of (c_shapes C) b) (V g)"
      and ra: "shaped ?ds (V g) \<longrightarrow> V ra = unbcast (dims_of (c_shapes C) a) (V g)"
      and rb: "V rb = op_val I ''Neg'' [] [V gb]" for gb ra rb
    by (rule tensor_adjoint_two [where t = "\<lambda>ix. jvp ''Sub'' [bread (V a) ix, bread (V b) ix] [bread (T a) ix, bread (T b) ix]"
        and p = "entry (V g)" and q = "\<lambda>ix. - entry (V g) ix", OF io(1) n(6,7,12,13,10,11,16)])
      (use g gb ra rb in \<open>simp_all add: op_neg_unbcast [OF I g] tabulate_entry [OF g] algebra_simps\<close>)
  show ?thesis
    using n(1-3) io unfolding grad_sub_def
    by simp
      ((rule tensor_steps I n(4,5))+, intro impI, rule tensor_adjointI, rule fin, auto)
qed

lemma tensor_Div:
  assumes I: "onnx_reals I" and nd: "elementwise_node (c_shapes C) V T nd" "op_type nd = ''Div''"
    and io: "inputs nd = [a, b]" "outputs nd = [out]"
  shows "yields I V (grad_div_templated C nd g) (tensor_adjoint (c_shapes C) V T nd out g)"
proof -
  note n = elementwise_node_two [OF nd(1) refl io, unfolded nd(2)]
  let ?ds = "dims_of (c_shapes C) out"
  have nz: "bread (V b) ix \<noteq> 0" if "ix \<in> box ?ds" for ix
    using n(14) [OF that] by (auto elim: pw_defined_Div)
  have vals: "call_vals I GRAD_DIV [V g, V a, V b, V out] =
      [tabulate ?ds (\<lambda>ix. entry (V g) ix / bread (V b) ix),
       tabulate ?ds (\<lambda>ix. - (entry (V g) ix * (bread (V a) ix / bread (V b) ix) / bread (V b) ix))]"
    if "shaped ?ds (V g)"
    using tensor_template_values(9) [OF I n(9) n(13), of "entry (V g)" "V a"]
    by (simp add: tabulate_entry [OF that] n(15))
  have fin: "tensor_adjoint (c_shapes C) V T nd out g [Some ra, Some rb]"
    if g: "shaped ?ds (V g)" and outs: "[V da, V db] = call_vals I GRAD_DIV [V g, V a, V b, V out]"
      and ra: "shaped ?ds (V da) \<longrightarrow> V ra = unbcast (dims_of (c_shapes C) a) (V da)"
      and rb: "shaped ?ds (V db) \<longrightarrow> V rb = unbcast (dims_of (c_shapes C) b) (V db)" for da db ra rb
    by (rule tensor_adjoint_two [where t = "\<lambda>ix. jvp ''Div'' [bread (V a) ix, bread (V b) ix] [bread (T a) ix, bread (T b) ix]"
        and p = "\<lambda>ix. entry (V g) ix / bread (V b) ix"
        and q = "\<lambda>ix. - (entry (V g) ix * (bread (V a) ix / bread (V b) ix) / bread (V b) ix)",
        OF io(1) n(6,7,12,13,10,11,16)])
      (use g outs ra rb in \<open>simp_all add: vals nz field_simps\<close>)
  show ?thesis
    using n(1-3) io unfolding grad_div_templated_def
    by simp
      ((rule tensor_steps TEMPLATES_members I n(4,5))+, intro impI, rule tensor_adjointI, rule fin, auto)
qed

subsection \<open>One operand\<close>

lemma yields_scalar_array:
  "onnx_reals I \<Longrightarrow> yields I V (b_const E (scalar v) h) (\<lambda>x. V x = ([], [f32 E v]))"
  by (rule yields_weaken [OF yields_const]) (simp add: onnx_realsD(6))

lemma scalar_array: "shaped [] ([], [x])" "bread ([], [x]) ix = x"
  by (simp_all add: shaped_def bread_def entry_def bix_def)

lemmas unary_steps = yields_case_prod yields_bnd [OF yields_call] yields_bnd [OF yields_scalar_array]
  yields_bnd [OF yields_op] yields_lift_bnd yields_ret

text \<open>
  A rule for an operator of one operand is adjoint once its result is known to be, entry by entry,
  the gradient times the operator's derivative.
\<close>

lemma tensor_unary:
  fixes C :: ctx
  assumes nd: "elementwise_node (c_shapes C) V T nd" and io: "inputs nd = [a]" "outputs nd = [out]"
    and dx: "shaped (dims_of (c_shapes C) out) (V g) \<Longrightarrow> V dx = tabulate (dims_of (c_shapes C) out) p"
    and eq: "\<And>ix t. pw_defined (op_type nd) [entry (V a) ix] \<Longrightarrow>
      p ix * t = entry (V g) ix * jvp (op_type nd) [entry (V a) ix] [t]"
  shows "tensor_adjoint (c_shapes C) V T nd out g [Some dx]"
proof (rule tensor_adjointI)
  assume g: "shaped (dims_of (c_shapes C) out) (V g)"
  note n = elementwise_node_one [OF nd refl io]
  show "tensor_adjoint (c_shapes C) V T nd out g [Some dx]"
    by (rule tensor_adjoint_one [OF io(1) n(3,6,5,9) dx [OF g] g]) (rule eq [OF n(7)])
qed

lemma tensor_Neg:
  assumes I: "onnx_reals I" and nd: "elementwise_node (c_shapes C) V T nd" "op_type nd = ''Neg''"
    and io: "inputs nd = [a]" "outputs nd = [out]"
  shows "yields I V (grad_neg_templated C nd g) (tensor_adjoint (c_shapes C) V T nd out g)"
proof -
  let ?ds = "dims_of (c_shapes C) out"
  have vals: "call_vals I GRAD_NEG [V g] = [tabulate ?ds (\<lambda>ix. - entry (V g) ix)]" if "shaped ?ds (V g)"
    using tensor_template_values(2) [OF I, of ?ds "entry (V g)"] by (simp add: tabulate_entry [OF that])
  have fin: "tensor_adjoint (c_shapes C) V T nd out g [Some dx]" if "[V dx] = call_vals I GRAD_NEG [V g]" for dx
    by (rule tensor_unary [OF nd(1) io]) (use that vals nd(2) in auto)
  show ?thesis
    unfolding grad_neg_templated_def
    by ((rule unary_steps TEMPLATES_members I)+, intro impI, rule fin, simp)
qed

lemma tensor_Exp:
  assumes I: "onnx_reals I" and nd: "elementwise_node (c_shapes C) V T nd" "op_type nd = ''Exp''"
    and io: "inputs nd = [a]" "outputs nd = [out]"
  shows "yields I V (grad_exp_templated C nd g) (tensor_adjoint (c_shapes C) V T nd out g)"
proof -
  note n = elementwise_node_one [OF nd(1) refl io, unfolded nd(2)]
  let ?ds = "dims_of (c_shapes C) out"
  have vals: "call_vals I GRAD_EXP [V g, V out] = [tabulate ?ds (\<lambda>ix. entry (V g) ix * exp (entry (V a) ix))]"
    if "shaped ?ds (V g)"
    using tensor_template_values(3) [OF I shaped_tabulate bcasts_self, of ?ds "entry (V g)" "\<lambda>ix. exp (entry (V a) ix)"]
    by (simp add: tabulate_entry [OF that] n(8) cong: tabulate_cong)
  have fin: "tensor_adjoint (c_shapes C) V T nd out g [Some dx]" if "[V dx] = call_vals I GRAD_EXP [V g, V out]" for dx
    by (rule tensor_unary [OF nd(1) io]) (use that vals nd(2) in auto)
  show ?thesis
    using io unfolding grad_exp_templated_def
    by simp ((rule unary_steps TEMPLATES_members I)+, intro impI, rule fin, simp)
qed

lemma tensor_Log:
  assumes I: "onnx_reals I" and nd: "elementwise_node (c_shapes C) V T nd" "op_type nd = ''Log''"
    and io: "inputs nd = [a]" "outputs nd = [out]"
  shows "yields I V (grad_log_templated C nd g) (tensor_adjoint (c_shapes C) V T nd out g)"
proof -
  note n = elementwise_node_one [OF nd(1) refl io, unfolded nd(2)]
  let ?ds = "dims_of (c_shapes C) out"
  have vals: "call_vals I GRAD_LOG [V g, V a] = [tabulate ?ds (\<lambda>ix. entry (V g) ix / entry (V a) ix)]"
    if "shaped ?ds (V g)"
    using tensor_template_values(5) [OF I shaped_tabulate bcasts_self, of ?ds "entry (V g)" "entry (V a)"]
    by (simp add: tabulate_entry [OF that] tabulate_entry [OF n(4)] bread_self [OF n(4)] cong: tabulate_cong)
  have fin: "tensor_adjoint (c_shapes C) V T nd out g [Some dx]" if "[V dx] = call_vals I GRAD_LOG [V g, V a]" for dx
    by (rule tensor_unary [OF nd(1) io]) (use that vals nd(2) in auto)
  show ?thesis
    using io unfolding grad_log_templated_def
    by simp ((rule unary_steps TEMPLATES_members I)+, intro impI, rule fin, simp)
qed

lemma tensor_Sqrt:
  assumes I: "onnx_reals I" and E: "exact_consts (c_ext C)"
    and nd: "elementwise_node (c_shapes C) V T nd" "op_type nd = ''Sqrt''"
    and io: "inputs nd = [a]" "outputs nd = [out]"
  shows "yields I V (grad_sqrt_templated C nd g) (tensor_adjoint (c_shapes C) V T nd out g)"
proof -
  note n = elementwise_node_one [OF nd(1) refl io, unfolded nd(2)]
  let ?ds = "dims_of (c_shapes C) out"
  have vals: "call_vals I GRAD_SQRT [V g, V out, ([], [h])] =
      [tabulate ?ds (\<lambda>ix. entry (V g) ix * h / sqrt (entry (V a) ix))]" if "shaped ?ds (V g)" for h
    using tensor_template_values(4) [OF I shaped_tabulate bcasts_self, of ?ds "entry (V g)" "\<lambda>ix. sqrt (entry (V a) ix)"]
    by (simp add: tabulate_entry [OF that] n(8) cong: tabulate_cong)
  have fin: "tensor_adjoint (c_shapes C) V T nd out g [Some dx]"
    if "[V dx] = call_vals I GRAD_SQRT [V g, V out, ([], [f32 (c_ext C) (1 / 2)])]" for dx
  proof -
    have "f32 (c_ext C) (1 / 2) = 1 / 2" using E by (simp add: exact_consts_def)
    from that [unfolded this] show ?thesis
      by (intro tensor_unary [OF nd(1) io]) (use vals nd(2) in auto)
  qed
  show ?thesis
    using io unfolding grad_sqrt_templated_def
    by simp ((rule unary_steps TEMPLATES_members I)+, intro impI, rule fin, simp)
qed

lemma tensor_Sigmoid:
  assumes I: "onnx_reals I" and E: "exact_consts (c_ext C)"
    and nd: "elementwise_node (c_shapes C) V T nd" "op_type nd = ''Sigmoid''"
    and io: "inputs nd = [a]" "outputs nd = [out]"
  shows "yields I V (grad_sigmoid_templated C nd g) (tensor_adjoint (c_shapes C) V T nd out g)"
proof -
  note n = elementwise_node_one [OF nd(1) refl io, unfolded nd(2)]
  let ?ds = "dims_of (c_shapes C) out" and ?y = "\<lambda>ix. sigmoid (entry (V a) ix)"
  have vals: "call_vals I GRAD_SIGMOID [V g, V out, ([], [c])] =
      [tabulate ?ds (\<lambda>ix. entry (V g) ix * (?y ix * (c - ?y ix)))]" if "shaped ?ds (V g)" for c
    using tensor_template_values(6) [OF I, of ?ds "entry (V g)" ?y c]
    by (simp add: tabulate_entry [OF that] n(8))
  have fin: "tensor_adjoint (c_shapes C) V T nd out g [Some dx]"
    if "[V dx] = call_vals I GRAD_SIGMOID [V g, V out, ([], [f32 (c_ext C) 1])]" for dx
    by (rule tensor_unary [OF nd(1) io]) (use that vals nd(2) E in \<open>auto simp: exact_consts_def\<close>)
  show ?thesis
    using io unfolding grad_sigmoid_templated_def
    by simp ((rule unary_steps TEMPLATES_members I)+, intro impI, rule fin, simp)
qed

lemma tensor_Tanh:
  assumes I: "onnx_reals I" and E: "exact_consts (c_ext C)"
    and nd: "elementwise_node (c_shapes C) V T nd" "op_type nd = ''Tanh''"
    and io: "inputs nd = [a]" "outputs nd = [out]"
  shows "yields I V (grad_tanh_templated C nd g) (tensor_adjoint (c_shapes C) V T nd out g)"
proof -
  note n = elementwise_node_one [OF nd(1) refl io, unfolded nd(2)]
  let ?ds = "dims_of (c_shapes C) out" and ?y = "\<lambda>ix. tanh (entry (V a) ix)"
  have vals: "call_vals I GRAD_TANH [V g, V out, ([], [c])] =
      [tabulate ?ds (\<lambda>ix. entry (V g) ix * (c - ?y ix * ?y ix))]" if "shaped ?ds (V g)" for c
    using tensor_template_values(7) [OF I, of ?ds "entry (V g)" ?y c]
    by (simp add: tabulate_entry [OF that] n(8))
  have fin: "tensor_adjoint (c_shapes C) V T nd out g [Some dx]"
    if "[V dx] = call_vals I GRAD_TANH [V g, V out, ([], [f32 (c_ext C) 1])]" for dx
    by (rule tensor_unary [OF nd(1) io]) (use that vals nd(2) E in \<open>auto simp: exact_consts_def\<close>)
  show ?thesis
    using io unfolding grad_tanh_templated_def
    by simp ((rule unary_steps TEMPLATES_members I)+, intro impI, rule fin, simp)
qed

lemma tensor_Identity:
  assumes nd: "elementwise_node (c_shapes C) V T nd" "op_type nd = ''Identity''"
    and io: "inputs nd = [a]" "outputs nd = [out]"
  shows "yields I V (grad_identity C nd g) (tensor_adjoint (c_shapes C) V T nd out g)"
  unfolding grad_identity_def
  by (rule yields_ret, rule tensor_unary [OF nd(1) io, where p = "entry (V g)"])
    (simp_all add: tabulate_entry nd(2))

lemma yields_mask_array:
  assumes "onnx_reals I"
  shows "yields I V (b_greater_mask E x t) (\<lambda>m. V m =
    op_val I ''Cast'' [(''to'', AInt TP_FLOAT)] [op_val I ''Greater'' [] [V x, ([], [f32 E t])]])"
  unfolding b_greater_mask_def b_cast_def
  by (rule yields_bnd [OF yields_scalar_array [OF assms]] yields_bnd [OF yields_op]
      yields_weaken [OF yields_op])+ simp

lemma tensor_Relu:
  assumes I: "onnx_reals I" and E: "exact_consts (c_ext C)"
    and nd: "elementwise_node (c_shapes C) V T nd" "op_type nd = ''Relu''"
    and io: "inputs nd = [a]" "outputs nd = [out]"
  shows "yields I V (grad_relu C nd g) (tensor_adjoint (c_shapes C) V T nd out g)"
proof -
  note n = elementwise_node_one [OF nd(1) refl io, unfolded nd(2)]
  let ?ds = "dims_of (c_shapes C) out"
  have mask: "op_val I ''Cast'' at2 [op_val I ''Greater'' at1 [V a, ([], [c])]] =
      tabulate ?ds (\<lambda>ix. of_bool (c < entry (V a) ix))" for at1 at2 c
    using op_tabulate(3) [OF I _ scalar_array(1) bcasts_Nil, of "''Greater''" at1 ?ds "entry (V a)" c]
    by (simp add: tabulate_entry [OF n(4)] op_tabulate(1) [OF I] scalar_array)
  have prod: "op_val I ''Mul'' [] [V g, tabulate ?ds m] = tabulate ?ds (\<lambda>ix. entry (V g) ix * m ix)"
    if "shaped ?ds (V g)" for m
    using op_tabulate(2) [OF I, of "''Mul''" "[]" ?ds "entry (V g)" m] by (simp add: tabulate_entry [OF that])
  have fin: "tensor_adjoint (c_shapes C) V T nd out g [Some dx]"
    if "V dx = op_val I ''Mul'' [] [V g, op_val I ''Cast'' at2 [op_val I ''Greater'' at1
         [V a, ([], [f32 (c_ext C) 0])]]]" for dx at1 at2
    by (rule tensor_unary [OF nd(1) io])
      (use that mask prod nd(2) E in \<open>auto simp: exact_consts_def\<close>)
  show ?thesis
    using io unfolding grad_relu_def b_mul_def
    by simp ((rule yields_bnd [OF yields_mask_array] unary_steps I)+, intro impI, rule fin, simp)
qed

lemma tensor_Softplus:
  assumes I: "onnx_reals I" and E: "exact_consts (c_ext C)"
    and nd: "elementwise_node (c_shapes C) V T nd" "op_type nd = ''Softplus''"
    and io: "inputs nd = [a]" "outputs nd = [out]"
  shows "yields I V (grad_softplus C nd g) (tensor_adjoint (c_shapes C) V T nd out g)"
proof -
  note n = elementwise_node_one [OF nd(1) refl io, unfolded nd(2)]
  let ?ds = "dims_of (c_shapes C) out"
  have den: "op_val I ''Add'' [] [([], [c]), op_val I ''Exp'' [] [op_val I ''Neg'' [] [V a]]] =
      tabulate ?ds (\<lambda>ix. c + exp (- entry (V a) ix))" for c
    using op_tabulate(4) [OF I _ scalar_array(1) bcasts_Nil, of "''Add''" "[]" c ?ds "\<lambda>ix. exp (- entry (V a) ix)"]
      op_tabulate(1) [OF I, of "''Neg''" "[]" ?ds "entry (V a)"]
    by (simp add: tabulate_entry [OF n(4)] op_tabulate(1) [OF I] scalar_array)
  have quot: "op_val I ''Div'' [] [V g, tabulate ?ds m] = tabulate ?ds (\<lambda>ix. entry (V g) ix / m ix)"
    if "shaped ?ds (V g)" for m
    using op_tabulate(2) [OF I, of "''Div''" "[]" ?ds "entry (V g)" m] by (simp add: tabulate_entry [OF that])
  have fin: "tensor_adjoint (c_shapes C) V T nd out g [Some dx]"
    if "V dx = op_val I ''Div'' [] [V g, op_val I ''Add'' []
         [([], [f32 (c_ext C) 1]), op_val I ''Exp'' [] [op_val I ''Neg'' [] [V a]]]]" for dx
    by (rule tensor_unary [OF nd(1) io])
      (use that den quot nd(2) E in \<open>auto simp: exact_consts_def\<close>)
  have "single_input nd = Inr a" using n(3) io by simp
  then show ?thesis
    unfolding grad_softplus_def b_add_def b_div_def
    by (simp del: single_input_Inr)
      ((rule unary_steps I)+, intro impI, rule fin, simp)
qed

section \<open>The matrix product's rule is adjoint\<close>

text \<open>\<open>numpy.broadcast_shapes\<close> on operands that broadcast.\<close>

definition numpy_broadcast :: "ext \<Rightarrow> bool" where
  "numpy_broadcast E \<longleftrightarrow>
     (\<forall>p q. bcasts p (bshape p q) \<and> bcasts q (bshape p q) \<longrightarrow>
        np_broadcast E (nats p) (nats q) = Inr (nats (bshape p q)))"

definition matmul_jvp :: "real_array \<Rightarrow> real_array \<Rightarrow> real_array \<Rightarrow> real_array \<Rightarrow> real_array" where
  "matmul_jvp a b ta tb =
     tabulate (dims (matmul a b)) (\<lambda>ix. entry (matmul ta b) ix + entry (matmul a tb) ix)"

definition matmul_node :: "(string \<rightharpoonup> shape) \<Rightarrow> real_array env \<Rightarrow> real_array env \<Rightarrow> node \<Rightarrow> bool" where
  "matmul_node shapes V T nd \<longleftrightarrow>
     (\<exists>a b out. inputs nd = [a, b] \<and> outputs nd = [out] \<and>
        (\<forall>x \<in> {a, b, out}. static shapes x \<and> typed shapes x (V x)) \<and>
        typed shapes a (T a) \<and> typed shapes b (T b) \<and>
        matmul_shapes (dims_of shapes a) (dims_of shapes b) \<and>
        dims_of shapes out = dims (matmul (V a) (V b)) \<and>
        V out = matmul (V a) (V b) \<and> T out = matmul_jvp (V a) (V b) (T a) (T b))"

lemma transpose_last_two_eq:
  "transpose_last_two x (nats (pa @ [m, n])) =
     b_op ''Transpose'' [x] [(''perm'', AInts (map int ([0..<length pa] @ [Suc (length pa), length pa])))]"
  by (simp add: transpose_last_two_def b_transpose_def range_int_def Let_def)

lemma yields_transpose_last_two:
  assumes I: "onnx_reals I" and x: "dims (V x) = pa @ [m, n]"
  shows "yields I V (transpose_last_two x (nats (pa @ [m, n])))
    (\<lambda>z. V z = transpose_array ([0..<length pa] @ [Suc (length pa), length pa]) (V x))"
proof -
  let ?perm = "[0..<length pa] @ [Suc (length pa), length pa]"
  have "distinct ?perm" "set ?perm = {..<length (dims (V x))}" using x by auto
  note t = onnx_realsD(4) [OF I this]
  show ?thesis
    unfolding transpose_last_two_eq
    by (rule yields_weaken [OF yields_op]) (simp only: list.map t)
qed

lemma yields_matmul:
  assumes I: "onnx_reals I"
  shows "yields I V (b_matmul x y) (\<lambda>z. matmul_shapes (dims (V x)) (dims (V y)) \<longrightarrow> V z = matmul (V x) (V y))"
  unfolding b_matmul_def by (rule yields_weaken [OF yields_op]) (simp add: onnx_realsD(5) [OF I])

lemma matmul_shapesI:
  "bcasts pa (bshape pa pb) \<Longrightarrow> bcasts pb (bshape pa pb) \<Longrightarrow> matmul_shapes (pa @ [m, k]) (pb @ [k, n])"
  unfolding matmul_shapes_def by blast

text \<open>The gradients of the two operands before the batch broadcast is undone.\<close>

definition swap_last :: "nat list \<Rightarrow> real_array \<Rightarrow> real_array" where
  "swap_last p x = transpose_array ([0..<length p] @ [Suc (length p), length p]) x"

lemma bread_swap_last:
  assumes "dims x = p @ [k, n]" and "bcasts p B" and "c \<in> box B" "j < n" "l < k"
  shows "bread (swap_last p x) (c @ [j, l]) = bread x (c @ [l, j])"
proof -
  have "dims (swap_last p x) = p @ [n, k]"
    unfolding swap_last_def by (rule dims_transpose_last [OF assms(1)])
  moreover have "bix p c \<in> box p" using assms(2,3) by (rule bix_in_box)
  ultimately show ?thesis
    using assms entry_transpose_last [OF assms(1)] by (simp add: bread_two [where B = B] swap_last_def)
qed

text \<open>The two products the rule forms, before the broadcast of the leading dimensions is undone.\<close>

lemma matmul_swap_right:
  assumes g: "shaped (B @ [m, n]) g" and b: "shaped (p @ [k, n]) b" and p: "bcasts p B"
  shows "shaped (B @ [m, k]) (matmul g (swap_last p b))"
    and "c \<in> box B \<Longrightarrow> i < m \<Longrightarrow> l < k \<Longrightarrow>
      entry (matmul g (swap_last p b)) (c @ [i, l]) = (\<Sum>j<n. entry g (c @ [i, j]) * bread b (c @ [l, j]))"
proof -
  have d: "dims g = B @ [m, n]" "dims (swap_last p b) = p @ [n, k]"
    using g dims_transpose_last [OF shaped_dims [OF b]] by (simp_all add: shaped_dims swap_last_def)
  have B: "bshape B p = B" by (rule bshape_absorb [OF p])
  show "shaped (B @ [m, k]) (matmul g (swap_last p b))"
    by (simp add: matmul_dims [OF d] B)
  assume c: "c \<in> box B" "i < m" "l < k"
  then have "bread g (c @ [i, j]) = entry g (c @ [i, j])" if "j < n" for j
    using that by (intro bread_self [OF g]) (simp add: in_box_append box_length)
  with c show "entry (matmul g (swap_last p b)) (c @ [i, l]) = (\<Sum>j<n. entry g (c @ [i, j]) * bread b (c @ [l, j]))"
    by (simp add: entry_matmul [OF d] B bread_swap_last [OF shaped_dims [OF b] p])
qed

lemma matmul_swap_left:
  assumes a: "shaped (p @ [m, k]) a" and g: "shaped (B @ [m, n]) g" and p: "bcasts p B"
  shows "shaped (B @ [k, n]) (matmul (swap_last p a) g)"
    and "c \<in> box B \<Longrightarrow> l < k \<Longrightarrow> j < n \<Longrightarrow>
      entry (matmul (swap_last p a) g) (c @ [l, j]) = (\<Sum>i<m. bread a (c @ [i, l]) * entry g (c @ [i, j]))"
proof -
  have d: "dims (swap_last p a) = p @ [k, m]" "dims g = B @ [m, n]"
    using g dims_transpose_last [OF shaped_dims [OF a]] by (simp_all add: shaped_dims swap_last_def)
  have B: "bshape p B = B" by (rule bshape_absorb [OF p])
  show "shaped (B @ [k, n]) (matmul (swap_last p a) g)"
    by (simp add: matmul_dims [OF d] B)
  assume c: "c \<in> box B" "l < k" "j < n"
  then have "bread g (c @ [i, j]) = entry g (c @ [i, j])" if "i < m" for i
    using that by (intro bread_self [OF g]) (simp add: in_box_append box_length)
  with c show "entry (matmul (swap_last p a) g) (c @ [l, j]) = (\<Sum>i<m. bread a (c @ [i, l]) * entry g (c @ [i, j]))"
    by (simp add: entry_matmul [OF d] B bread_swap_last [OF shaped_dims [OF a] p])
qed

text \<open>The product rule: the pairings of both gradients add up to that of the product's tangent.\<close>

lemma matmul_pairs:
  assumes a: "shaped (pa @ [m, k]) a" "shaped (pa @ [m, k]) ta"
    and b: "shaped (pb @ [k, n]) b" "shaped (pb @ [k, n]) tb"
    and B: "bshape pa pb = B" "bcasts pa B" "bcasts pb B" and g: "shaped (B @ [m, n]) g"
  shows "dot (unbcast (pa @ [m, k]) (matmul g (swap_last pb b))) ta +
      dot (unbcast (pb @ [k, n]) (matmul (swap_last pa a) g)) tb = dot g (matmul_jvp a b ta tb)"
proof -
  have wide: "bcasts (p @ [x, y]) (B @ [x, y])" if "bcasts p B" for p x y
    using that by (auto simp: bcasts_def Suc_diff_le list_all2_append simp del: One_nat_def)
  note r = matmul_swap_right [OF g b(1) B(3)] and l = matmul_swap_left [OF a(1) g B(2)]
  have da: "dot (unbcast (pa @ [m, k]) (matmul g (swap_last pb b))) ta =
      (\<Sum>c\<in>box B. \<Sum>i<m. \<Sum>l<k. (\<Sum>j<n. entry g (c @ [i, j]) * bread b (c @ [l, j])) * bread ta (c @ [i, l]))"
    by (simp add: dot_unbcast [OF r(1) wide [OF B(2)] a(2)] sum_box_two r(2))
  have db: "dot (unbcast (pb @ [k, n]) (matmul (swap_last pa a) g)) tb =
      (\<Sum>c\<in>box B. \<Sum>l<k. \<Sum>j<n. (\<Sum>i<m. bread a (c @ [i, l]) * entry g (c @ [i, j])) * bread tb (c @ [l, j]))"
    by (simp add: dot_unbcast [OF l(1) wide [OF B(3)] b(2)] sum_box_two l(2))
  have d: "dims a = pa @ [m, k]" "dims ta = pa @ [m, k]" "dims b = pb @ [k, n]" "dims tb = pb @ [k, n]"
    using a b by (simp_all add: shaped_dims)
  have dims: "dims (matmul a b) = B @ [m, n]" by (simp add: matmul_dims [OF d(1,3)] B(1))
  then have t: "shaped (B @ [m, n]) (matmul_jvp a b ta tb)" by (simp add: matmul_jvp_def)
  have "dot g (matmul_jvp a b ta tb) = (\<Sum>c\<in>box B. \<Sum>i<m. \<Sum>j<n. entry g (c @ [i, j]) *
      ((\<Sum>l<k. bread ta (c @ [i, l]) * bread b (c @ [l, j])) + (\<Sum>l<k. bread a (c @ [i, l]) * bread tb (c @ [l, j]))))"
    unfolding dot_shaped [OF g t] sum_box_two
    by (intro sum.cong refl)
      (simp add: matmul_jvp_def dims in_box_append box_length entry_matmul [OF d(2,3)] entry_matmul [OF d(1,4)] B(1))
  also have "\<dots> = (\<Sum>c\<in>box B. (\<Sum>i<m. \<Sum>l<k. (\<Sum>j<n. entry g (c @ [i, j]) * bread b (c @ [l, j])) * bread ta (c @ [i, l])) +
      (\<Sum>l<k. \<Sum>j<n. (\<Sum>i<m. bread a (c @ [i, l]) * entry g (c @ [i, j])) * bread tb (c @ [l, j])))"
  proof (intro sum.cong refl)
    fix c
    let ?g = "\<lambda>i j. entry g (c @ [i, j])" and ?a = "\<lambda>i l. bread a (c @ [i, l])" and ?b = "\<lambda>l j. bread b (c @ [l, j])"
      and ?ta = "\<lambda>i l. bread ta (c @ [i, l])" and ?tb = "\<lambda>l j. bread tb (c @ [l, j])"
    have "(\<Sum>i<m. \<Sum>j<n. ?g i j * ((\<Sum>l<k. ?ta i l * ?b l j) + (\<Sum>l<k. ?a i l * ?tb l j))) =
        (\<Sum>i<m. \<Sum>j<n. \<Sum>l<k. ?g i j * ?b l j * ?ta i l) + (\<Sum>i<m. \<Sum>j<n. \<Sum>l<k. ?a i l * ?g i j * ?tb l j)"
      by (simp add: distrib_left sum.distrib sum_distrib_left mult.assoc mult.commute mult.left_commute)
    also have "(\<Sum>i<m. \<Sum>j<n. \<Sum>l<k. ?g i j * ?b l j * ?ta i l) = (\<Sum>i<m. \<Sum>l<k. (\<Sum>j<n. ?g i j * ?b l j) * ?ta i l)"
      unfolding sum_distrib_right by (intro sum.cong refl sum.swap)
    also have "(\<Sum>i<m. \<Sum>j<n. \<Sum>l<k. ?a i l * ?g i j * ?tb l j) = (\<Sum>i<m. \<Sum>l<k. \<Sum>j<n. ?a i l * ?g i j * ?tb l j)"
      by (intro sum.cong refl sum.swap)
    also have "\<dots> = (\<Sum>l<k. \<Sum>i<m. \<Sum>j<n. ?a i l * ?g i j * ?tb l j)"
      by (rule sum.swap)
    also have "\<dots> = (\<Sum>l<k. \<Sum>j<n. (\<Sum>i<m. ?a i l * ?g i j) * ?tb l j)"
      unfolding sum_distrib_right by (intro sum.cong refl sum.swap)
    finally show "(\<Sum>i<m. \<Sum>j<n. ?g i j * ((\<Sum>l<k. ?ta i l * ?b l j) + (\<Sum>l<k. ?a i l * ?tb l j))) =
        (\<Sum>i<m. \<Sum>l<k. (\<Sum>j<n. ?g i j * ?b l j) * ?ta i l) + (\<Sum>l<k. \<Sum>j<n. (\<Sum>i<m. ?a i l * ?g i j) * ?tb l j)" .
  qed
  also have "\<dots> = dot (unbcast (pa @ [m, k]) (matmul g (swap_last pb b))) ta +
      dot (unbcast (pb @ [k, n]) (matmul (swap_last pa a) g)) tb"
    by (simp add: da db sum.distrib)
  finally show ?thesis by simp
qed

lemma tensor_MatMul:
  assumes I: "onnx_reals I" and E: "numpy_broadcast (c_ext C)"
    and nd: "matmul_node (c_shapes C) V T nd" and out: "outputs nd = [out]"
  shows "yields I V (grad_matmul C nd g) (tensor_adjoint (c_shapes C) V T nd out g)"
proof -
  let ?d = "dims_of (c_shapes C)"
  from nd out obtain a b where io: "inputs nd = [a, b]"
    and st: "static (c_shapes C) a" "static (c_shapes C) b" "static (c_shapes C) out"
    and t: "shaped (?d a) (V a)" "shaped (?d b) (V b)" "shaped (?d a) (T a)" "shaped (?d b) (T b)"
    and sh: "matmul_shapes (?d a) (?d b)" and o: "?d out = dims (matmul (V a) (V b))"
    and T: "T out = matmul_jvp (V a) (V b) (T a) (T b)"
    unfolding matmul_node_def typed_def by auto
  from sh obtain pa pb m k n where ab: "?d a = pa @ [m, k]" "?d b = pb @ [k, n]"
    and p: "bcasts pa (bshape pa pb)" "bcasts pb (bshape pa pb)"
    unfolding matmul_shapes_def by blast
  define B where "B = bshape pa pb"
  note pB = p [folded B_def]
  have out_dims: "?d out = B @ [m, n]"
    using o by (simp add: matmul_dims [OF trans [OF shaped_dims [OF t(1)] ab(1)] trans [OF shaped_dims [OF t(2)] ab(2)]] B_def)
  have batch: "np_broadcast (c_ext C) (nats pa) (nats pb) = Inr (nats B)"
    using E p by (simp add: numpy_broadcast_def B_def)
  have ctx: "ctx_shape C a = Inr (nats (pa @ [m, k]))" "ctx_shape C b = Inr (nats (pb @ [k, n]))"
    using static_ctx_shape [OF st(1)] static_ctx_shape [OF st(2)] by (simp_all only: ab)
  have pos: "0 \<notin> set (pa @ [m, k])" "0 \<notin> set (pb @ [k, n])"
    using st(1,2) unfolding static_def ab by blast+
  note ta = t(1) [unfolded ab] t(3) [unfolded ab] and tb = t(2) [unfolded ab] t(4) [unfolded ab]
  have dims: "dims (V a) = pa @ [m, k]" "dims (V b) = pb @ [k, n]"
    using ta(1) tb(1) by (simp_all add: shaped_dims)
  have prod: "dims (swap_last pb (V b)) = pb @ [n, k]" "dims (swap_last pa (V a)) = pa @ [k, m]"
    unfolding swap_last_def by (rule dims_transpose_last, rule dims)+
  have fits: "matmul_shapes (B @ [m, n]) (pb @ [n, k])" "matmul_shapes (pa @ [k, m]) (B @ [m, n])"
    using pB by (auto intro!: matmul_shapesI simp: bshape_absorb)
  have fin: "tensor_adjoint (c_shapes C) V T nd out g [Some ra, Some rb]"
    if g: "shaped (?d out) (V g)"
      and ga: "matmul_shapes (dims (V g)) (dims (V bt)) \<longrightarrow> V ga = matmul (V g) (V bt)" "V bt = swap_last pb (V b)"
      and gb: "matmul_shapes (dims (V a_t)) (dims (V g)) \<longrightarrow> V gb = matmul (V a_t) (V g)" "V a_t = swap_last pa (V a)"
      and ra: "shaped (B @ [m, k]) (V ga) \<longrightarrow> V ra = unbcast (pa @ [m, k]) (V ga)"
      and rb: "shaped (B @ [k, n]) (V gb) \<longrightarrow> V rb = unbcast (pb @ [k, n]) (V gb)" for bt ga a_t gb ra rb
  proof -
    have g': "shaped (B @ [m, n]) (V g)" using g by (simp add: out_dims)
    have "V ga = matmul (V g) (swap_last pb (V b))" "V gb = matmul (swap_last pa (V a)) (V g)"
      using ga gb fits by (simp_all add: shaped_dims [OF g'] prod)
    then have "V ra = unbcast (pa @ [m, k]) (matmul (V g) (swap_last pb (V b)))"
      "V rb = unbcast (pb @ [k, n]) (matmul (swap_last pa (V a)) (V g))"
      using ra rb matmul_swap_right(1) [OF g' tb(1) pB(2)] matmul_swap_left(1) [OF ta(1) g' pB(1)] by simp_all
    with matmul_pairs [OF ta tb B_def [symmetric] pB g'] st show ?thesis
      by (simp add: tensor_adjoint_def io contribution_fits_def typed_def ab T static_def)
  qed
  have last: "drop (length (nats (pa @ [m, k])) - 2) (nats (pa @ [m, k])) = nats [m, k]"
    "drop (length (nats (pb @ [k, n])) - 2) (nats (pb @ [k, n])) = nats [k, n]"
    "take (length (nats (pa @ [m, k])) - 2) (nats (pa @ [m, k])) = nats pa"
    "take (length (nats (pb @ [k, n])) - 2) (nats (pb @ [k, n])) = nats pb"
    "refuse_if (length (nats (pa @ [m, k])) < 2 \<or> length (nats (pb @ [k, n])) < 2) UnsupportedOpError = Inr ()"
    by (simp_all add: refuse_if_def)
  have eq: "grad_matmul C nd g =
      bnd (transpose_last_two b (nats (pb @ [k, n]))) (\<lambda>bt. bnd (b_matmul g bt) (\<lambda>ga.
      bnd (transpose_last_two a (nats (pa @ [m, k]))) (\<lambda>a_t. bnd (b_matmul a_t g) (\<lambda>gb.
      bnd (reduce_to ga (nats (B @ [m, k])) (nats (pa @ [m, k]))) (\<lambda>da.
      bnd (reduce_to gb (nats (B @ [k, n])) (nats (pb @ [k, n]))) (\<lambda>db.
      ret [Some da, Some db]))))))"
    unfolding grad_matmul_def
    by (simp add: io ctx batch last del: length_map)
  show ?thesis
    unfolding eq
    by ((rule yields_bnd [OF yields_transpose_last_two, OF I, folded swap_last_def] yields_bnd [OF yields_matmul, OF I]
        yields_bnd [OF yields_reduce_to, OF I] dims pos yields_ret)+, intro impI, rule tensor_adjointI, rule fin, auto)
qed

section \<open>The rules together\<close>

definition tensor_node :: "(string \<rightharpoonup> shape) \<Rightarrow> real_array env \<Rightarrow> real_array env \<Rightarrow> node \<Rightarrow> bool" where
  "tensor_node shapes V T nd \<longleftrightarrow>
     (if op_type nd = ''MatMul'' then matmul_node shapes V T nd else elementwise_node shapes V T nd)"

lemma box_nonempty: "0 \<notin> set ds \<Longrightarrow> replicate (length ds) 0 \<in> box ds"
  unfolding in_box_iff by (auto simp: list_all2_conv_all_nth in_set_conv_nth)

lemma elementwise_node_defined:
  "elementwise_node shapes V T nd \<Longrightarrow> \<exists>vs. length vs = length (inputs nd) \<and> pw_defined (op_type nd) vs"
  using box_nonempty unfolding elementwise_node_def static_def
  by (metis (no_types, lifting) UnCI length_map list.set_intros(1))

lemma tensor_rule_adjoint:
  assumes I: "onnx_reals I" and E: "exact_consts (c_ext C)" "numpy_broadcast (c_ext C)"
    and nd: "tensor_node (c_shapes C) V T nd" and rl: "builtin_rules (op_type nd) = Some rl"
    and out: "outputs nd = [out]"
  shows "yields I V (rl C nd g) (tensor_adjoint (c_shapes C) V T nd out g)"
proof (cases "op_type nd = ''MatMul''")
  case True
  then have "rl = grad_matmul" using rl by (simp add: RULES_def PYTHON_ONLY_RULES_def map_add_def)
  with True nd tensor_MatMul [OF I E(2) _ out] show ?thesis by (simp add: tensor_node_def)
next
  case False
  with nd have e: "elementwise_node (c_shapes C) V T nd" by (simp add: tensor_node_def)
  then obtain vs where len: "length vs = length (inputs nd)" and def: "pw_defined (op_type nd) vs"
    using elementwise_node_defined by blast
  have two: "\<exists>a b. inputs nd = [a, b]" if "vs = [x, y]" for x y
    using that len by (cases "inputs nd"; cases "tl (inputs nd)") auto
  have one: "\<exists>a. inputs nd = [a]" if "vs = [x]" for x
    using that len by (cases "inputs nd") auto
  from def show ?thesis
  proof cases
    case (pw_Add x y)
    then show ?thesis using two tensor_Add [OF I e _ _ out] rl by (auto simp: builtin_lookup)
  next
    case (pw_Sub x y)
    then show ?thesis using two tensor_Sub [OF I e _ _ out] rl by (auto simp: builtin_lookup)
  next
    case (pw_Mul x y)
    then show ?thesis using two tensor_Mul [OF I e _ _ out] rl by (auto simp: builtin_lookup)
  next
    case (pw_Div y x)
    then show ?thesis using two tensor_Div [OF I e _ _ out] rl by (auto simp: builtin_lookup)
  next
    case (pw_Neg x)
    then show ?thesis using one tensor_Neg [OF I e _ _ out] rl by (auto simp: builtin_lookup)
  next
    case (pw_Exp x)
    then show ?thesis using one tensor_Exp [OF I e _ _ out] rl by (auto simp: builtin_lookup)
  next
    case (pw_Log x)
    then show ?thesis using one tensor_Log [OF I e _ _ out] rl by (auto simp: builtin_lookup)
  next
    case (pw_Sqrt x)
    then show ?thesis using one tensor_Sqrt [OF I E(1) e _ _ out] rl by (auto simp: builtin_lookup)
  next
    case (pw_Sigmoid x)
    then show ?thesis using one tensor_Sigmoid [OF I E(1) e _ _ out] rl by (auto simp: builtin_lookup)
  next
    case (pw_Tanh x)
    then show ?thesis using one tensor_Tanh [OF I E(1) e _ _ out] rl by (auto simp: builtin_lookup)
  next
    case (pw_Relu x)
    then show ?thesis using one tensor_Relu [OF I E(1) e _ _ out] rl by (auto simp: builtin_lookup)
  next
    case (pw_Identity x)
    then show ?thesis using one tensor_Identity [OF e _ _ out] rl by (auto simp: builtin_lookup)
  next
    case (pw_Softplus x)
    then show ?thesis using one tensor_Softplus [OF I E(1) e _ _ out] rl by (auto simp: builtin_lookup)
  qed
qed

lemma tensor_single: "tensor_node shapes V T nd \<Longrightarrow> map_of MULTI_OUTPUT_RULES (op_type nd) = None"
  using elementwise_node_defined [of shapes V T nd] pw_single [of "op_type nd"]
  by (auto simp: tensor_node_def multi_lookup split: if_splits)

text \<open>Adding two gradients of one tensor keeps the shape and adds the pairings.\<close>

lemma sum_array:
  assumes I: "onnx_reals I" and uv: "shaped ds u" "shaped ds v"
  shows "op_val I ''Add'' [] [u, v] = tabulate ds (\<lambda>ix. entry u ix + entry v ix)"
  using op_tabulate(2) [OF I, of "''Add''" "[]" ds "entry u" "entry v"]
  by (simp add: tabulate_entry [OF uv(1)] tabulate_entry [OF uv(2)])

lemma dot_sum:
  assumes I: "onnx_reals I" and uv: "shaped ds u" "shaped ds v"
  shows "dot (op_val I ''Add'' [] [u, v]) t = dot u t + dot v t"
proof -
  have "sum_list (map2 (*) (map (\<lambda>x. f x + g x) xs) ys) =
      sum_list (map2 (*) (map f xs) ys) + sum_list (map2 (*) (map g xs) ys)"
    for f g :: "nat list \<Rightarrow> real" and xs ys
    by (induction xs ys rule: list_induct2') (simp_all add: distrib_right)
  then have "dot (tabulate ds (\<lambda>ix. entry u ix + entry v ix)) t =
      dot (tabulate ds (entry u)) t + dot (tabulate ds (entry v)) t"
    by (simp add: dot_def tabulate_def)
  then show ?thesis
    by (simp add: sum_array [OF assms] tabulate_entry [OF uv(1)] tabulate_entry [OF uv(2)])
qed

text \<open>A runtime that computes the documented operators over the reals, and the walk's contract on it.\<close>

locale real_runtime =
  fixes I :: "real_array interp"
  assumes runtime: "onnx_reals I"

definition tensor_slice :: "ext \<Rightarrow> (string \<rightharpoonup> shape) \<Rightarrow> real_array env \<Rightarrow> real_array env \<Rightarrow> node set" where
  "tensor_slice E shapes V T =
     {nd. exact_consts E \<and> numpy_broadcast E \<and> tensor_node shapes V T nd}"

sublocale real_runtime \<subseteq> whole: adjoint_rules I V T dot "typed shapes" builtin_rules E shapes "tensor_slice E shapes V T"
  for V T E shapes
proof
  fix x u v
  assume "typed shapes x u" "typed shapes x v"
  then have uv: "shaped (dims_of shapes x) u" "shaped (dims_of shapes x) v" by (simp_all add: typed_def)
  show "typed shapes x (op_val I ''Add'' [] [u, v])"
    by (simp add: typed_def sum_array [OF runtime uv])
  show "dot (op_val I ''Add'' [] [u, v]) (T x) = dot u (T x) + dot v (T x)"
    by (rule dot_sum [OF runtime uv])
next
  fix nd
  assume "nd \<in> tensor_slice E shapes V T"
  then show "map_of MULTI_OUTPUT_RULES (op_type nd) = None"
    by (auto simp: tensor_slice_def intro: tensor_single)
next
  fix nd rl out and C :: ctx and g
  assume "nd \<in> tensor_slice E shapes V T" "builtin_rules (op_type nd) = Some rl" "outputs nd = [out]"
    and C: "c_ext C = E" "c_shapes C = shapes"
  then have "yields I V (rl C nd g) (tensor_adjoint (c_shapes C) V T nd out g)"
    by (intro tensor_rule_adjoint [OF runtime]) (auto simp: tensor_slice_def)
  then show "yields I V (rl C nd g) (\<lambda>cs. length cs = length (inputs nd) \<and> typed shapes out (V g) \<longrightarrow>
      (\<forall>nc \<in> set (zip (inputs nd) cs). contribution_fits (typed shapes) V nc) \<and>
      sum_list (map (contribution dot V T) (zip (inputs nd) cs)) = dot (V g) (T out))"
    by (rule yields_weaken) (simp add: tensor_adjoint_def C)
qed

context real_runtime
begin

text \<open>The whole pass, on a slice of tensor nodes.\<close>

lemma tensor_pass:
  assumes "ssa K nodes" and "set nodes \<subseteq> tensor_slice E shapes V T" and "finite (dom seeds)"
    and "\<And>n g. seeds n = Some g \<Longrightarrow> typed shapes n (V g)"
    and "set targets \<inter> defs nodes = {}"
    and "\<And>n g. n \<notin> defs nodes \<Longrightarrow> n \<notin> set targets \<Longrightarrow> typed shapes n g \<Longrightarrow> dot g (T n) = 0"
  shows "yields I V (build_backward_with E builtin_rules nodes shapes seeds targets)
    (\<lambda>res. dom res = set targets \<and> (\<forall>t g. res t = Some g \<longrightarrow> typed shapes t (V g)) \<and>
       (\<Sum>t\<in>set targets. dot (V (the (res t))) (T t)) = pairing dot V T seeds {})"
  by (rule whole.pass_pairs [OF assms])

end

section \<open>A runtime\<close>

text \<open>The documented operators as one function: the runtime the hypotheses are met by.\<close>

definition indices :: "real_array \<Rightarrow> nat list" where
  "indices a = map (\<lambda>r. nat \<lfloor>r\<rfloor>) (snd a)"

definition real_op :: "string \<Rightarrow> attributes \<Rightarrow> real_array list \<Rightarrow> real_array" where
  "real_op ty attrs vs =
     (if ty = ''ReduceSum'' then sum_keep (indices (vs ! 1)) (vs ! 0)
      else if ty = ''Reshape'' then reshape (indices (vs ! 1)) (vs ! 0)
      else if ty = ''Transpose'' then
        (case map_of attrs ''perm'' of
           Some (AInts perm) \<Rightarrow> transpose_array (map nat perm) (vs ! 0)
         | _ \<Rightarrow> vs ! 0)
      else if ty = ''MatMul'' then matmul (vs ! 0) (vs ! 1)
      else if ty = ''ReduceMean'' then ([], [sum_list (snd (vs ! 0)) / real (length (snd (vs ! 0)))])
      else elementwise (pw_op ty) vs)"

definition REALS :: "real_array interp" where
  "REALS = \<lparr>op_val = real_op,
     const_val = (\<lambda>t. (map nat (t_dims t),
       case t_data t of TFloat rs \<Rightarrow> rs | TInt _ ns \<Rightarrow> map real_of_int ns
         | TBool bs \<Rightarrow> map of_bool bs | TUnreadable \<Rightarrow> []))\<rparr>"

lemma indices_nat_vector [simp]: "indices (nat_vector ns) = ns"
  by (simp add: indices_def nat_vector_def comp_def)

lemma ELEMENTWISE_others:
  "ty \<in> ELEMENTWISE \<Longrightarrow> ty \<noteq> ''ReduceSum'' \<and> ty \<noteq> ''Reshape'' \<and> ty \<noteq> ''Transpose'' \<and> ty \<noteq> ''MatMul'' \<and>
     ty \<noteq> ''ReduceMean''"
  by (auto simp: ELEMENTWISE_def)

lemma REALS_runtime: "onnx_reals REALS"
  unfolding onnx_reals_def
  by (intro conjI allI impI)
    (simp_all add: REALS_def real_op_def ELEMENTWISE_others comp_def, simp add: nat_vector_def)

text \<open>A float32 that rounds nothing, and numpy's broadcasting.\<close>

definition exact_ext :: ext where
  "exact_ext = \<lparr>f32 = (\<lambda>v. v), np_broadcast = (\<lambda>s t.
     Inr (nats (bshape (map (\<lambda>d. case d of DInt n \<Rightarrow> nat n | _ \<Rightarrow> 0) s) (map (\<lambda>d. case d of DInt n \<Rightarrow> nat n | _ \<Rightarrow> 0) t))))\<rparr>"

lemma exact_ext_arith: "exact_consts exact_ext" "numpy_broadcast exact_ext"
  by (simp_all add: exact_consts_def numpy_broadcast_def exact_ext_def comp_def)

interpretation exact: real_runtime REALS
  by unfold_locales (rule REALS_runtime)

text \<open>
  C2.  \<open>reduce_to\<close> is the adjoint of broadcasting.  Whatever program it emits, the tensor it returns
  has the target's shape, the target broadcasts to the gradient's shape, and pairing the result with
  any array of the target's shape gives the sum, over the gradient's positions, of the gradient
  times that array read through the broadcast.
\<close>

theorem reduce_to_undoes_broadcast:
  assumes "onnx_reals I" and "0 \<notin> set ts"
  shows "yields I V (reduce_to x (nats ds) (nats ts))
    (\<lambda>z. shaped ds (V x) \<longrightarrow> bcasts ts ds \<and> shaped ts (V z) \<and>
       (\<forall>y. shaped ts y \<longrightarrow> dot (V z) y = (\<Sum>ix\<in>box ds. entry (V x) ix * bread y ix)))"
  by (rule yields_weaken [OF yields_reduce_to [OF assms]]) (use dot_unbcast in auto)

text \<open>A gradient of shape (2, 2) summed to shape (2): the second column's sum is 2 + 4.\<close>

definition ex_reduce :: "string res \<times> builder" where
  "ex_reduce = reduce_to ''g'' (nats [2, 2]) (nats [2]) (new_builder ''bw_'')"

definition ex_values :: "builder \<Rightarrow> real_array env" where
  "ex_values b = run_builder REALS b (\<lambda>_. ([2, 2], [1, 2, 3, 4]))"

theorem reduce_to_undoes_broadcast_witness:
  "\<exists>z b'. ex_reduce = (Inr z, b') \<and> dot (ex_values b' z) ([2], [0, 1]) = 6"
proof -
  have "\<exists>z b'. ex_reduce = (Inr z, b')"
    unfolding ex_reduce_def
    by (simp add: reduce_to_def bnd_def ret_run lift_run int64_const_def as_int64_def in_int64_def
        refuse_if_def b_name_run add_initializer_def b_op_in_def add_node_def new_builder_def summed_shape_def Let_def)
  then obtain z b' where run: "ex_reduce = (Inr z, b')" by blast
  have wf0: "builder_wf {''g''} (new_builder ''bw_'')" "builder_ok (new_builder ''bw_'')"
    by (intro builder_wf_new) (simp_all add: unminted_def new_builder_def minted_def builder_ok_def)
  have "emits {''g''} {''g''} (reduce_to ''g'' (nats [2, 2]) (nats [2])) (\<lambda>z. {z})"
    by (rule emit_reduce_to) simp
  from emitD(1) [OF this wf0(1) _ run [unfolded ex_reduce_def]] have wf: "builder_wf {''g''} b'"
    by (simp add: avail_def)
  have g: "ex_values b' ''g'' = ([2, 2], [1, 2, 3, 4])"
    unfolding ex_values_def by (rule run_builder_external [OF wf]) simp
  have "yields REALS (ex_values b') (reduce_to ''g'' (nats [2, 2]) (nats [2]))
    (\<lambda>z. shaped [2, 2] (ex_values b' ''g'') \<longrightarrow> bcasts [2] [2, 2] \<and> shaped [2] (ex_values b' z) \<and>
       (\<forall>y. shaped [2] y \<longrightarrow>
          dot (ex_values b' z) y = (\<Sum>ix\<in>box [2, 2]. entry (ex_values b' ''g'') ix * bread y ix)))"
    by (rule reduce_to_undoes_broadcast [OF REALS_runtime]) simp
  note adjoint = yieldsD(3) [OF this wf0(2) run [unfolded ex_reduce_def] _ refl]
  have "sound REALS (ex_values b') b'"
    unfolding ex_values_def by (rule run_builder_sound [OF wf])
  from adjoint [OF this] have "\<forall>y. shaped [2] y \<longrightarrow>
      dot (ex_values b' z) y = (\<Sum>ix\<in>box [2, 2]. entry (ex_values b' ''g'') ix * bread y ix)"
    by (simp add: g shaped_def)
  then have "dot (ex_values b' z) ([2], [0, 1]) =
      (\<Sum>ix\<in>box [2, 2]. entry ([2, 2], [1, 2, 3, 4]) ix * bread ([2], [0, 1]) ix)"
    by (simp add: g shaped_def)
  also have "\<dots> = 6"
    by (simp add: cells.simps upt_rec entry_def bread_def bix_def)
  finally show ?thesis using run by blast
qed

end
