(* ===== verification/Tensor_Derivative.thy ===== *)
theory Tensor_Derivative
  imports Tensor_Gradient
begin

text \<open>
  The tangents the walk pairs gradients with are derivatives: when the leaves of a well-shaped slice
  move differentiably, so does every tensor it computes, and the tangent of each node's output is
  the one the rules are adjoint to.
\<close>

section \<open>Moving arrays\<close>

definition moves :: "nat list \<Rightarrow> (real \<Rightarrow> real_array) \<Rightarrow> real_array \<Rightarrow> bool" where
  "moves ds f t \<longleftrightarrow>
     (\<forall>s. shaped ds (f s)) \<and> shaped ds t \<and>
     (\<forall>ix \<in> box ds. ((\<lambda>s. entry (f s) ix) has_real_derivative entry t ix) (at 0))"

lemma movesD:
  assumes "moves ds f t"
  shows "shaped ds (f s)" "shaped ds t"
    and "ix \<in> box ds \<Longrightarrow> ((\<lambda>s. entry (f s) ix) has_real_derivative entry t ix) (at 0)"
  using assms by (simp_all add: moves_def)

lemma moves_unique: "moves ds f t \<Longrightarrow> moves ds f t' \<Longrightarrow> t = t'"
  by (rule shaped_eqI [of ds]) (auto simp: moves_def intro: DERIV_unique)

lemma moves_const: "shaped ds v \<Longrightarrow> moves ds (\<lambda>_. v) (tabulate ds (\<lambda>_. 0))"
  by (simp add: moves_def)

lemma moves_bread:
  assumes "moves d f t" and "bcasts d ds" and "ix \<in> box ds"
  shows "((\<lambda>s. bread (f s) ix) has_real_derivative bread t ix) (at 0)"
  using movesD [OF assms(1)] bix_in_box [OF assms(2,3)] by (simp add: bread_def shaped_def)

lemma moves_tabulate:
  "(\<And>ix. ix \<in> box ds \<Longrightarrow> ((\<lambda>s. f s ix) has_real_derivative t ix) (at 0)) \<Longrightarrow>
     moves ds (\<lambda>s. tabulate ds (f s)) (tabulate ds t)"
  by (simp add: moves_def)

lemma moves_dot:
  assumes "moves ds f t" and "shaped ds g"
  shows "((\<lambda>s. dot g (f s)) has_real_derivative dot g t) (at 0)"
  using movesD [OF assms(1)]
  by (auto simp: dot_shaped [OF assms(2)] intro!: derivative_eq_intros sum.cong)

lemma moves_elementwise:
  assumes ins: "\<forall>x \<in> set xs. moves (d x) (\<lambda>s. \<theta> s x) (T x) \<and> bcasts (d x) ds"
    and ds: "foldl bshape [] (map d xs) = ds"
    and def: "\<forall>ix \<in> box ds. pw_defined ty (map (\<lambda>x. bread (\<theta> 0 x) ix) xs)"
  shows "moves ds (\<lambda>s. elementwise (pw_op ty) (map (\<theta> s) xs)) (jvp_array ty (map (\<theta> 0) xs) (map T xs))"
proof -
  have dims: "map (\<lambda>x. dims (\<theta> s x)) xs = map d xs" for s
    using ins by (auto simp: moves_def shaped_def)
  have "((\<lambda>s. pw_op ty (map (\<lambda>x. bread (\<theta> s x) ix) xs)) has_real_derivative
      jvp ty (map (\<lambda>x. bread (\<theta> 0 x) ix) xs) (map (\<lambda>x. bread (T x) ix) xs)) (at 0)"
    if ix: "ix \<in> box ds" for ix
  proof -
    let ?fs = "map (\<lambda>x s. bread (\<theta> s x) ix) xs"
    have "list_all2 (\<lambda>f t. (f has_real_derivative t) (at 0)) ?fs (map (\<lambda>x. bread (T x) ix) xs)"
      using ins ix by (auto simp: list_all2_conv_all_nth intro: moves_bread)
    moreover have "pw_defined ty (map (\<lambda>f. f 0) ?fs)" using def ix by (simp add: comp_def)
    ultimately show ?thesis
      using jvp_is_derivative_aux [of ty 0 ?fs] by (simp add: comp_def)
  qed
  then show ?thesis
    unfolding elementwise_def jvp_array_def by (simp add: comp_def dims ds moves_tabulate)
qed

lemma moves_matmul:
  assumes f: "moves (pa @ [m, k]) f ta" and g: "moves (pb @ [k, n]) g tb"
    and B: "bshape pa pb = B" "bcasts pa B" "bcasts pb B"
  shows "moves (B @ [m, n]) (\<lambda>s. matmul (f s) (g s)) (matmul_jvp (f 0) (g 0) ta tb)"
proof -
  have wide: "bcasts (p @ [x, y]) (B @ [x, y])" if "bcasts p B" for p x y
    using that by (auto simp: bcasts_def Suc_diff_le list_all2_append simp del: One_nat_def)
  have d: "dims (f s) = pa @ [m, k]" "dims (g s) = pb @ [k, n]" "dims ta = pa @ [m, k]" "dims tb = pb @ [k, n]" for s
    using movesD(1,2) [OF f] movesD(1,2) [OF g] by (simp_all add: shaped_def)
  have shape: "shaped (B @ [m, n]) (matmul (f s) (g s))" for s
    by (simp add: matmul_dims [OF d(1,2)] B(1))
  then have jvp: "matmul_jvp (f 0) (g 0) ta tb = tabulate (B @ [m, n])
      (\<lambda>ix. entry (matmul ta (g 0)) ix + entry (matmul (f 0) tb) ix)"
    by (simp add: matmul_jvp_def shaped_dims [OF shape])
  have "((\<lambda>s. entry (matmul (f s) (g s)) ix) has_real_derivative
      entry (matmul ta (g 0)) ix + entry (matmul (f 0) tb) ix) (at 0)" if "ix \<in> box (B @ [m, n])" for ix
  proof -
    from that obtain c i j where ix: "ix = c @ [i, j]" and c: "c \<in> box B" "i < m" "j < n"
      by (rule box_two_cases)
    have "((\<lambda>s. bread (f s) (c @ [i, l])) has_real_derivative bread ta (c @ [i, l])) (at 0)"
      "((\<lambda>s. bread (g s) (c @ [l, j])) has_real_derivative bread tb (c @ [l, j])) (at 0)" if "l < k" for l
      using that c by (auto intro!: moves_bread [OF f wide [OF B(2)]] moves_bread [OF g wide [OF B(3)]]
          simp: in_box_append box_length)
    then have "((\<lambda>s. \<Sum>l<k. bread (f s) (c @ [i, l]) * bread (g s) (c @ [l, j])) has_real_derivative
        (\<Sum>l<k. bread ta (c @ [i, l]) * bread (g 0) (c @ [l, j]) + bread (f 0) (c @ [i, l]) * bread tb (c @ [l, j]))) (at 0)"
      by (intro DERIV_sum) (auto intro!: derivative_eq_intros)
    then show ?thesis
      using c by (simp add: ix entry_matmul [OF d(1,2)] entry_matmul [OF d(3,2)] entry_matmul [OF d(1,4)] B(1) sum.distrib)
  qed
  then show ?thesis
    using shape by (simp add: moves_def jvp)
qed

section \<open>Well-shaped slices\<close>

definition well_shaped :: "(string \<rightharpoonup> shape) \<Rightarrow> node \<Rightarrow> bool" where
  "well_shaped shapes nd \<longleftrightarrow>
     (\<forall>x \<in> set (inputs nd) \<union> set (outputs nd). static shapes x) \<and>
     (\<exists>out. outputs nd = [out] \<and>
        (if op_type nd = ''MatMul''
         then \<exists>a b pa pb m k n. inputs nd = [a, b] \<and> dims_of shapes a = pa @ [m, k] \<and>
                dims_of shapes b = pb @ [k, n] \<and> dims_of shapes out = bshape pa pb @ [m, n] \<and>
                bcasts pa (bshape pa pb) \<and> bcasts pb (bshape pa pb)
         else foldl bshape [] (map (dims_of shapes) (inputs nd)) = dims_of shapes out \<and>
                (\<forall>x \<in> set (inputs nd). bcasts (dims_of shapes x) (dims_of shapes out))))"

text \<open>Where the operator is differentiable: the matrix product everywhere, the others entry by entry.\<close>

definition differentiable_at :: "(string \<rightharpoonup> shape) \<Rightarrow> real_array env \<Rightarrow> node \<Rightarrow> bool" where
  "differentiable_at shapes env nd \<longleftrightarrow>
     op_type nd = ''MatMul'' \<or>
     (\<forall>out \<in> set (outputs nd). \<forall>ix \<in> box (dims_of shapes out).
        pw_defined (op_type nd) (map (\<lambda>x. bread (env x) ix) (inputs nd)))"

definition node_jvp :: "node \<Rightarrow> real_array list \<Rightarrow> real_array list \<Rightarrow> real_array" where
  "node_jvp nd vs ts =
     (if op_type nd = ''MatMul'' then matmul_jvp (vs ! 0) (vs ! 1) (ts ! 0) (ts ! 1)
      else jvp_array (op_type nd) vs ts)"

lemma pw_defined_ELEMENTWISE: "pw_defined ty vs \<Longrightarrow> ty \<in> ELEMENTWISE"
  by (induction rule: pw_defined.induct) (simp_all add: ELEMENTWISE_def)

lemma node_value:
  assumes I: "onnx_reals I" and nd: "well_shaped shapes nd"
    and ins: "\<forall>x \<in> set (inputs nd). typed shapes x (env x)"
    and def: "differentiable_at shapes env' nd"
  shows "op_val I (op_type nd) attrs (map env (inputs nd)) =
    (if op_type nd = ''MatMul'' then matmul (map env (inputs nd) ! 0) (map env (inputs nd) ! 1)
     else elementwise (pw_op (op_type nd)) (map env (inputs nd)))"
proof (cases "op_type nd = ''MatMul''")
  case True
  with nd obtain a b pa pb m k n where s: "inputs nd = [a, b]" "dims_of shapes a = pa @ [m, k]"
      "dims_of shapes b = pb @ [k, n]" "bcasts pa (bshape pa pb)" "bcasts pb (bshape pa pb)"
    unfolding well_shaped_def by auto
  then have "matmul_shapes (dims (env a)) (dims (env b))"
    using ins by (auto simp: typed_def shaped_def intro: matmul_shapesI)
  with True show ?thesis by (simp add: s(1) onnx_realsD(5) [OF I])
next
  case False
  with nd obtain out where s: "\<forall>x \<in> set (inputs nd). bcasts (dims_of shapes x) (dims_of shapes out)"
      and st: "static shapes out" "outputs nd = [out]"
    unfolding well_shaped_def by auto
  from st have ty: "op_type nd \<in> ELEMENTWISE"
    using def False box_nonempty pw_defined_ELEMENTWISE unfolding static_def differentiable_at_def
    by (metis list.set_intros(1))
  have "broadcastable (map env (inputs nd))"
    using s ins unfolding broadcastable_def
    by (intro exI [of _ "dims_of shapes out"]) (auto simp: typed_def shaped_def)
  with False show ?thesis by (simp add: onnx_realsD(1) [OF I ty])
qed

lemma node_moves:
  assumes I: "onnx_reals I" and nd: "well_shaped shapes nd" "outputs nd = [out]"
    and ins: "\<forall>x \<in> set (inputs nd). moves (dims_of shapes x) (\<lambda>s. \<theta> s x) (T x)"
    and def: "differentiable_at shapes (\<theta> 0) nd"
  shows "moves (dims_of shapes out) (\<lambda>s. op_val I (op_type nd) (attributes nd) (map (\<theta> s) (inputs nd)))
    (node_jvp nd (map (\<theta> 0) (inputs nd)) (map T (inputs nd)))"
proof -
  have "\<forall>x \<in> set (inputs nd). typed shapes x (\<theta> s x)" for s
    using ins by (auto simp: typed_def moves_def)
  note vals = node_value [OF I nd(1) this def]
  show ?thesis
proof (cases "op_type nd = ''MatMul''")
  case True
  with nd obtain a b pa pb m k n where s: "inputs nd = [a, b]" "dims_of shapes a = pa @ [m, k]"
      "dims_of shapes b = pb @ [k, n]" "dims_of shapes out = bshape pa pb @ [m, n]"
      "bcasts pa (bshape pa pb)" "bcasts pb (bshape pa pb)"
    unfolding well_shaped_def by auto
  have f: "moves (pa @ [m, k]) (\<lambda>s. \<theta> s a) (T a)" "moves (pb @ [k, n]) (\<lambda>s. \<theta> s b) (T b)"
    using ins s by simp_all
  from moves_matmul [OF f refl s(5,6)] True show ?thesis
    unfolding vals by (simp add: s(1,4) node_jvp_def)
next
  case False
  with nd have s: "foldl bshape [] (map (dims_of shapes) (inputs nd)) = dims_of shapes out"
      "\<forall>x \<in> set (inputs nd). bcasts (dims_of shapes x) (dims_of shapes out)"
    unfolding well_shaped_def by auto
  have def': "\<forall>ix \<in> box (dims_of shapes out). pw_defined (op_type nd) (map (\<lambda>x. bread (\<theta> 0 x) ix) (inputs nd))"
    using def False nd(2) by (simp add: differentiable_at_def)
  with moves_elementwise [of "inputs nd" "dims_of shapes" \<theta> T, OF _ s(1) def'] ins s(2) False show ?thesis
    unfolding vals by (simp add: node_jvp_def)
qed
qed

lemma slice_moves:
  assumes I: "onnx_reals I" and "ssa L nodes" and "'''' \<notin> defs nodes"
    and "\<forall>nd \<in> set nodes. well_shaped shapes nd \<and> differentiable_at shapes (eval_body I nodes (\<theta> 0)) nd"
    and "\<forall>x \<in> L. \<exists>t. moves (dims_of shapes x) (\<lambda>s. \<theta> s x) t"
  shows "\<forall>x \<in> L \<union> defs nodes. \<exists>t. moves (dims_of shapes x) (\<lambda>s. eval_body I nodes (\<theta> s) x) t"
  using assms(2-)
proof (induction nodes arbitrary: L \<theta>)
  case Nil
  then show ?case by simp
next
  case (Cons nd ns)
  from Cons.prems(3) have ws: "well_shaped shapes nd" by simp
  then obtain out where out: "outputs nd = [out]" by (auto simp: well_shaped_def)
  let ?\<theta> = "\<lambda>s. eval_primitive I (\<theta> s) nd"
  have ssa: "reads nd \<subseteq> L" "set (outputs nd) \<inter> L = {}" "ssa (L \<union> set (outputs nd)) ns"
    using Cons.prems(1) by auto
  have ins: "set (inputs nd) \<subseteq> L"
    using ssa(1) ws by (auto simp: reads_def well_shaped_def static_def)
  have "eval_body I (nd # ns) (\<theta> 0) z = \<theta> 0 z" if "z \<in> set (inputs nd)" for z
    using that ins ssa ssa_defs_disjoint [OF ssa(3)]
    by (intro eval_body_other) auto
  then have "map (\<lambda>x. bread (eval_body I (nd # ns) (\<theta> 0) x) ix) (inputs nd) =
      map (\<lambda>x. bread (\<theta> 0 x) ix) (inputs nd)" for ix
    by simp
  moreover have "differentiable_at shapes (eval_body I (nd # ns) (\<theta> 0)) nd" using Cons.prems(3) by simp
  ultimately have def: "differentiable_at shapes (\<theta> 0) nd" by (simp only: differentiable_at_def)
  obtain T where T: "\<forall>x \<in> L. moves (dims_of shapes x) (\<lambda>s. \<theta> s x) (T x)"
    using Cons.prems(4) by metis
  have "\<exists>t. moves (dims_of shapes x) (\<lambda>s. ?\<theta> s x) t" if "x \<in> L \<union> set (outputs nd)" for x
  proof (cases "x = out")
    case True
    have "\<forall>x \<in> set (inputs nd). moves (dims_of shapes x) (\<lambda>s. \<theta> s x) (T x)" using ins T by blast
    from node_moves [OF I ws out this def] True out show ?thesis
      by (intro exI) (simp add: eval_primitive_def)
  next
    case False
    with that T out show ?thesis by (intro exI [of _ "T x"]) (simp add: eval_primitive_other)
  qed
  with Cons.IH [OF ssa(3), of ?\<theta>] Cons.prems(2,3) show ?case by (simp add: Un_assoc)
qed

section \<open>Nodes of a moving slice\<close>

text \<open>
  Where every tensor of the slice moves and the environment \<open>V\<close> holds the slice's values, every node
  is one the rules are adjoint at.
\<close>

lemma slice_tensor_nodes:
  assumes I: "onnx_reals I" and ssa: "ssa L nodes" "'''' \<notin> defs nodes"
    and nodes: "\<forall>nd \<in> set nodes. domain nd = '''' \<and> well_shaped shapes nd \<and>
      differentiable_at shapes (eval_body I nodes (\<theta> 0)) nd"
    and T: "\<forall>x \<in> L \<union> defs nodes. moves (dims_of shapes x) (\<lambda>s. eval_body I nodes (\<theta> s) x) (T x)"
    and V: "\<forall>nd \<in> set nodes. \<forall>x \<in> set (inputs nd) \<union> set (outputs nd). V x = eval_body I nodes (\<theta> 0) x"
    and nd: "nd \<in> set nodes"
  shows "tensor_node shapes V T nd"
proof -
  from nodes nd have ws: "well_shaped shapes nd" and def: "differentiable_at shapes (eval_body I nodes (\<theta> 0)) nd" by auto
  then obtain out where out: "outputs nd = [out]" by (auto simp: well_shaped_def)
  have "'''' \<notin> set (inputs nd)" using ws by (auto simp: well_shaped_def static_def)
  then have names: "set (inputs nd) \<subseteq> L \<union> defs nodes" "out \<in> defs nodes"
    using nd out ssa_reads [OF ssa(1) nd] by (auto simp: reads_def defs_def intro!: bexI [of _ nd])
  let ?F = "eval_body I nodes"
  have val: "?F env out = op_val I (op_type nd) (attributes nd) (map (?F env) (inputs nd))" for env
    using eval_body_holds [OF ssa _ nd out] nodes by blast
  have ins: "\<forall>x \<in> set (inputs nd). moves (dims_of shapes x) (\<lambda>s. ?F (\<theta> s) x) (T x)"
    using T names by blast
  have "moves (dims_of shapes out) (\<lambda>s. ?F (\<theta> s) out) (node_jvp nd (map (?F (\<theta> 0)) (inputs nd)) (map T (inputs nd)))"
    unfolding val by (rule node_moves [OF I ws out ins def])
  moreover have "moves (dims_of shapes out) (\<lambda>s. ?F (\<theta> s) out) (T out)" using T names by blast
  ultimately have Tout: "T out = node_jvp nd (map (?F (\<theta> 0)) (inputs nd)) (map T (inputs nd))"
    using moves_unique by blast
  have Vs: "map (?F (\<theta> 0)) (inputs nd) = map V (inputs nd)" "V out = ?F (\<theta> 0) out"
    using V nd out by auto
  have st: "\<forall>x \<in> set (inputs nd) \<union> set (outputs nd). static shapes x \<and> typed shapes x (V x)"
    using ws V nd T names out unfolding well_shaped_def typed_def
    by (metis (no_types, lifting) Un_iff movesD(1) subsetD set_ConsD empty_iff list.set(1) list.set(2) insert_iff)
  have Ts: "\<forall>x \<in> set (inputs nd). typed shapes x (T x)"
    using ins by (auto simp: typed_def moves_def)
  have "map (\<lambda>x. bread (V x) ix) (inputs nd) = map (\<lambda>x. bread (?F (\<theta> 0) x) ix) (inputs nd)" for ix
    using V nd by simp
  with def have defV: "differentiable_at shapes V nd" by (simp only: differentiable_at_def)
  note vals = node_value [OF I ws _ def, of V "attributes nd"]
  have Vout: "V out = op_val I (op_type nd) (attributes nd) (map V (inputs nd))"
    unfolding Vs(2) val by (simp only: Vs(1))
  show ?thesis
  proof (cases "op_type nd = ''MatMul''")
    case True
    with ws out obtain a b pa pb m k n where s: "inputs nd = [a, b]" "dims_of shapes a = pa @ [m, k]"
        "dims_of shapes b = pb @ [k, n]" "dims_of shapes out = bshape pa pb @ [m, n]"
        "bcasts pa (bshape pa pb)" "bcasts pb (bshape pa pb)"
      unfolding well_shaped_def by auto
    have d: "dims (V a) = pa @ [m, k]" "dims (V b) = pb @ [k, n]"
      using st s by (auto simp: typed_def shaped_def)
    have "matmul_node shapes V T nd"
      unfolding matmul_node_def
      using True st Ts s out Vout vals Tout Vs(1)
      by (intro exI [of _ a] exI [of _ b] exI [of _ out])
        (auto simp: node_jvp_def matmul_dims [OF d] intro: matmul_shapesI)
    with True show ?thesis by (simp add: tensor_node_def)
  next
    case False
    have "elementwise_node shapes V T nd"
      unfolding elementwise_node_def
      using False st Ts ws out Vout vals Tout Vs(1) defV
      by (auto simp: node_jvp_def well_shaped_def differentiable_at_def)
    with False show ?thesis by (simp add: tensor_node_def)
  qed
qed

section \<open>Tangents of a whole slice\<close>

text \<open>
  The targets move along \<open>d\<close>, the other leaves stand still.  Then every tensor of the slice has a
  tangent, a target's is \<open>d\<close>, and a still leaf pairs to zero with every gradient.
\<close>

definition leaves_move :: "(string \<rightharpoonup> shape) \<Rightarrow> string set \<Rightarrow> string set \<Rightarrow> (real \<Rightarrow> real_array env) \<Rightarrow> real_array env \<Rightarrow> bool" where
  "leaves_move shapes L targets \<theta> d \<longleftrightarrow>
     targets \<subseteq> L \<and> (\<forall>t \<in> targets. moves (dims_of shapes t) (\<lambda>s. \<theta> s t) (d t)) \<and>
     (\<forall>x \<in> L - targets. \<exists>v. typed shapes x v \<and> (\<forall>s. \<theta> s x = v))"

lemma leaves_moveD:
  assumes "leaves_move shapes L targets \<theta> d"
  shows "t \<in> targets \<Longrightarrow> moves (dims_of shapes t) (\<lambda>s. \<theta> s t) (d t)"
    and "x \<in> L \<Longrightarrow> x \<notin> targets \<Longrightarrow> moves (dims_of shapes x) (\<lambda>s. \<theta> s x) (tabulate (dims_of shapes x) (\<lambda>_. 0))"
    and "targets \<subseteq> L"
proof -
  show "t \<in> targets \<Longrightarrow> moves (dims_of shapes t) (\<lambda>s. \<theta> s t) (d t)" "targets \<subseteq> L"
    using assms unfolding leaves_move_def by blast+
  assume "x \<in> L" "x \<notin> targets"
  then obtain v where v: "shaped (dims_of shapes x) v" and still: "\<And>s. \<theta> s x = v"
    using assms unfolding leaves_move_def typed_def by blast
  show "moves (dims_of shapes x) (\<lambda>s. \<theta> s x) (tabulate (dims_of shapes x) (\<lambda>_. 0))"
    unfolding still by (rule moves_const [OF v])
qed

lemma slice_tangents:
  assumes I: "onnx_reals I" and ssa: "ssa L nodes" "'''' \<notin> defs nodes"
    and nodes: "\<forall>nd \<in> set nodes. well_shaped shapes nd \<and> differentiable_at shapes (eval_body I nodes (\<theta> 0)) nd"
    and leaves: "leaves_move shapes L targets \<theta> d"
  obtains T where "\<forall>x \<in> L \<union> defs nodes. moves (dims_of shapes x) (\<lambda>s. eval_body I nodes (\<theta> s) x) (T x)"
    and "\<And>t. t \<in> targets \<Longrightarrow> T t = d t"
    and "\<And>n g. n \<notin> defs nodes \<Longrightarrow> n \<notin> targets \<Longrightarrow> typed shapes n g \<Longrightarrow> dot g (T n) = 0"
proof -
  note m = leaves_moveD [OF leaves]
  have "\<forall>x \<in> L. \<exists>t. moves (dims_of shapes x) (\<lambda>s. \<theta> s x) t"
    using m(1,2) by blast
  from slice_moves [OF I ssa nodes this]
  obtain T0 where T0: "\<forall>x \<in> L \<union> defs nodes. moves (dims_of shapes x) (\<lambda>s. eval_body I nodes (\<theta> s) x) (T0 x)"
    by metis
  define T where "T = (\<lambda>x. if x \<in> L \<union> defs nodes then T0 x else ([], []))"
  have T: "\<forall>x \<in> L \<union> defs nodes. moves (dims_of shapes x) (\<lambda>s. eval_body I nodes (\<theta> s) x) (T x)"
    using T0 by (simp add: T_def)
  have leaf: "moves (dims_of shapes x) (\<lambda>s. \<theta> s x) (T x)" if "x \<in> L" for x
  proof -
    have "x \<notin> defs nodes" using that ssa_defs_disjoint [OF ssa(1)] by blast
    then have "eval_body I nodes env x = env x" for env by (rule eval_body_other)
    moreover have "moves (dims_of shapes x) (\<lambda>s. eval_body I nodes (\<theta> s) x) (T x)" using T that by blast
    ultimately show ?thesis by simp
  qed
  have zero: "dot g (T n) = 0" if "n \<notin> defs nodes" "n \<notin> targets" "typed shapes n g" for n g
  proof (cases "n \<in> L")
    case True
    have "T n = tabulate (dims_of shapes n) (\<lambda>_. 0)"
      by (rule moves_unique [OF leaf [OF True] m(2) [OF True that(2)]])
    then show ?thesis using that(3) by (simp add: dot_shaped typed_def)
  next
    case False
    with that(1) show ?thesis by (simp add: T_def dot_def)
  qed
  have target: "T t = d t" if "t \<in> targets" for t
    using that m(3) by (intro moves_unique [OF leaf m(1)]) auto
  show thesis by (rule that [OF T target zero])
qed

lemma loss_derivative:
  assumes "\<forall>n \<in> N. moves (dims_of shapes n) (\<lambda>s. F s n) (T n) \<and> typed shapes n (w n)"
  shows "((\<lambda>s. \<Sum>n\<in>N. dot (w n) (F s n)) has_real_derivative (\<Sum>n\<in>N. dot (w n) (T n))) (at 0)"
  using assms by (intro DERIV_sum) (auto simp: typed_def intro: moves_dot)

section \<open>The pass on a slice\<close>

text \<open>
  What \<open>build_backward\<close> returns pairs to the derivative of the seeded sum, in every environment that
  satisfies the graph it leaves behind and holds the slice's values, wherever these come from: given
  from outside, or computed by nodes the builder already held.
\<close>

lemma pass_derivative:
  assumes runtime: "onnx_reals I" and arith: "exact_consts E" "numpy_broadcast E"
    and slice: "ssa L nodes" "'''' \<notin> defs nodes"
      "\<forall>nd \<in> set nodes. domain nd = '''' \<and> well_shaped shapes nd \<and>
         differentiable_at shapes (eval_body I nodes (\<theta> 0)) nd"
    and vals: "\<forall>nd \<in> set nodes. \<forall>x \<in> set (inputs nd) \<union> set (outputs nd). V x = eval_body I nodes (\<theta> 0) x"
    and seeds: "finite (dom seeds)" "dom seeds \<subseteq> L \<union> defs nodes"
      "\<And>n g. seeds n = Some g \<Longrightarrow> typed shapes n (V g)"
    and motion: "leaves_move shapes L (set targets) \<theta> d" "set targets \<inter> defs nodes = {}"
    and run: "build_backward E Map.empty nodes shapes seeds targets None b = (Inr res, b')"
    and sem: "builder_ok b" "sound I V b'"
  shows "dom res = set targets" and "t \<in> set targets \<Longrightarrow> typed shapes t (V (the (res t)))"
    and "((\<lambda>s. \<Sum>n\<in>dom seeds. dot (V (the (seeds n))) (eval_body I nodes (\<theta> s) n))
      has_real_derivative (\<Sum>t\<in>set targets. dot (V (the (res t))) (d t))) (at 0)"
proof -
  have run': "build_backward_with E builtin_rules nodes shapes seeds targets b = (Inr res, b')"
    using run by (simp add: build_backward_def default_rules_def)
  have nodes: "\<forall>nd \<in> set nodes. well_shaped shapes nd \<and> differentiable_at shapes (eval_body I nodes (\<theta> 0)) nd"
    using slice(3) by blast
  obtain T where T: "\<forall>x \<in> L \<union> defs nodes. moves (dims_of shapes x) (\<lambda>s. eval_body I nodes (\<theta> s) x) (T x)"
      "\<And>t. t \<in> set targets \<Longrightarrow> T t = d t"
      "\<And>n g. n \<notin> defs nodes \<Longrightarrow> n \<notin> set targets \<Longrightarrow> typed shapes n g \<Longrightarrow> dot g (T n) = 0"
    using slice_tangents [OF runtime slice(1,2) nodes motion(1)] by blast
  have "set nodes \<subseteq> tensor_slice E shapes V T"
    using slice_tensor_nodes [OF runtime slice(1-3) T(1) vals] arith
    by (auto simp: tensor_slice_def)
  then have "yields I V (build_backward_with E builtin_rules nodes shapes seeds targets)
      (\<lambda>res. dom res = set targets \<and> (\<forall>t g. res t = Some g \<longrightarrow> typed shapes t (V g)) \<and>
         (\<Sum>t\<in>set targets. dot (V (the (res t))) (T t)) = pairing dot V T seeds {})"
    using slice(1) seeds(1,3) motion(2) T(3)
    by (intro real_runtime.tensor_pass [OF real_runtime.intro [OF runtime]])
  from yieldsD(3) [OF this sem(1) run' sem(2) refl]
  have res: "dom res = set targets" "\<forall>t g. res t = Some g \<longrightarrow> typed shapes t (V g)"
    and sums: "(\<Sum>t\<in>set targets. dot (V (the (res t))) (T t)) = pairing dot V T seeds {}"
    by blast+
  show "dom res = set targets" by (fact res(1))
  show "t \<in> set targets \<Longrightarrow> typed shapes t (V (the (res t)))"
    using res by (metis domIff option.exhaust_sel)
  have "((\<lambda>s. \<Sum>n\<in>dom seeds. dot (V (the (seeds n))) (eval_body I nodes (\<theta> s) n)) has_real_derivative
      (\<Sum>n\<in>dom seeds. dot (V (the (seeds n))) (T n))) (at 0)"
    using T(1) seeds(2,3) by (intro loss_derivative [of _ shapes]) auto
  then show "((\<lambda>s. \<Sum>n\<in>dom seeds. dot (V (the (seeds n))) (eval_body I nodes (\<theta> s) n))
      has_real_derivative (\<Sum>t\<in>set targets. dot (V (the (res t))) (d t))) (at 0)"
    using sums T(2) by (simp add: pairing_def)
qed

end
