(* ===== verification/Reference_Evaluator.thy ===== *)
theory Reference_Evaluator
  imports Onnx
begin

text \<open>
  The reference-evaluator fallback of \<open>onnxsim/backend.py\<close>: the provider checks, the liveness scan,
  the pruned evaluation loop that drops a value once its last consumer has run, and the choice
  between it and the plain evaluator.  \<open>onnx.reference\<close> is outside the repository: a runtime node is
  a record of what the loop uses of it, its \<open>run\<close> any function.
\<close>

section \<open>Providers\<close>

text \<open>An execution provider: a name, or a name with an options dictionary.\<close>

datatype option_value = Ov_Int int | Ov_Str string | Ov_Other

datatype provider = Bare string | With_Options string "string \<rightharpoonup> option_value"

fun provider_name :: "provider \<Rightarrow> string" where
  "provider_name (Bare p) = p"
| "provider_name (With_Options p _) = p"

text \<open>\<open>available\<close> is None without onnxruntime, and its provider list with it.\<close>

definition validate_providers :: "string set option \<Rightarrow> provider list option \<Rightarrow> unit res" where
  "validate_providers available providers =
     (case providers of None \<Rightarrow> Inr ()
      | Some ps \<Rightarrow> (case available of
          Some av \<Rightarrow> refuse_if (\<exists>p \<in> set ps. provider_name p \<notin> av) ValueError
        | None \<Rightarrow> refuse_if (\<exists>p \<in> set ps. provider_name p \<noteq> ''CPUExecutionProvider'') ValueError))"

section \<open>Liveness\<close>

definition attr_has_graph :: "attr_val \<Rightarrow> bool" where
  "attr_has_graph v \<longleftrightarrow> (case v of AGraph \<Rightarrow> True | AGraphs n \<Rightarrow> 0 < n | _ \<Rightarrow> False)"

definition has_subgraphs :: "node list \<Rightarrow> bool" where
  "has_subgraphs nodes \<longleftrightarrow> (\<exists>n \<in> set nodes. \<exists>kv \<in> set (attributes n). attr_has_graph (snd kv))"

definition note_uses :: "(string \<rightharpoonup> nat) \<Rightarrow> nat \<times> node \<Rightarrow> (string \<rightharpoonup> nat)" where
  "note_uses uses p = (case p of (i, n) \<Rightarrow>
     foldl (\<lambda>m name. if name = '''' then m else m(name \<mapsto> i)) uses (inputs n))"

definition last_use_indices :: "node list \<Rightarrow> string \<rightharpoonup> nat" where
  "last_use_indices nodes = foldl note_uses Map.empty (enumerate 0 nodes)"

section \<open>Evaluation\<close>

text \<open>Python's \<open>None\<close>, the value of an omitted input, is \<open>None\<close>.\<close>

type_synonym 'v results = "string \<rightharpoonup> 'v option"

record 'v rt_node =
  rn_input :: "string list"
  rn_output :: "string list"
  rn_context :: bool
  rn_run :: "'v results option \<Rightarrow> 'v option list \<Rightarrow> 'v option list res"

definition look :: "'v results \<Rightarrow> string \<Rightarrow> 'v option res" where
  "look results name = (case results name of None \<Rightarrow> Inl KeyError | Some v \<Rightarrow> Inr v)"

text \<open>One iteration up to the pruning: read the inputs, run, store the outputs.\<close>

definition run_rt_node :: "'v rt_node \<Rightarrow> 'v results \<Rightarrow> 'v results res" where
  "run_rt_node n results =
     bindE (mapE (look results) (rn_input n)) (\<lambda>ins.
     bindE (rn_run n (if rn_context n then Some results else None) ins) (\<lambda>outs.
     Inr (foldl (\<lambda>m (name, v). m(name \<mapsto> v)) results (zip (rn_output n) outs))))"

definition prune ::
  "(string \<rightharpoonup> nat) \<Rightarrow> string set \<Rightarrow> nat \<Rightarrow> string list \<Rightarrow> 'v results \<Rightarrow> 'v results" where
  "prune last_use keep i names results =
     foldl (\<lambda>m name. if name \<noteq> '''' \<and> name \<notin> keep \<and> last_use name = Some i then m(name := None) else m)
       results names"

definition pruned_step ::
  "(string \<rightharpoonup> nat) \<Rightarrow> string set \<Rightarrow> 'v results \<Rightarrow> nat \<times> 'v rt_node \<Rightarrow> 'v results res" where
  "pruned_step last_use keep results p =
     (case p of (i, n) \<Rightarrow>
      bindE (run_rt_node n results) (\<lambda>results'. Inr (prune last_use keep i (rn_input n) results')))"

definition start_results :: "(string \<rightharpoonup> 'v) \<Rightarrow> (string \<rightharpoonup> 'v) \<Rightarrow> 'v results" where
  "start_results rt_inits feeds =
     (['''' \<mapsto> None] ++ (\<lambda>x. map_option Some (rt_inits x))) ++ (\<lambda>x. map_option Some (feeds x))"

definition run_reference_pruned ::
  "(string \<rightharpoonup> 'v) \<Rightarrow> 'v rt_node list \<Rightarrow> node list \<Rightarrow> string list \<Rightarrow> (string \<rightharpoonup> 'v) \<Rightarrow> 'v option list res" where
  "run_reference_pruned rt_inits rt_nodes graph output_names feeds =
     bindE (foldE (pruned_step (last_use_indices graph) (set output_names))
              (start_results rt_inits feeds) (enumerate 0 rt_nodes)) (\<lambda>results.
     mapE (look results) output_names)"

text \<open>
  The choice of the evaluation: \<open>plain\<close> stands for the \<open>run\<close> method of \<open>onnx.reference.ReferenceEvaluator\<close>,
  which is outside the repository.
\<close>

definition run_with_reference ::
  "(string list \<Rightarrow> (string \<rightharpoonup> 'v) \<Rightarrow> 'v option list res) \<Rightarrow> (string \<rightharpoonup> 'v) \<Rightarrow> 'v rt_node list \<Rightarrow> node list
     \<Rightarrow> string list \<Rightarrow> (string \<rightharpoonup> 'v) \<Rightarrow> string list option \<Rightarrow> string option \<Rightarrow> provider list option
     \<Rightarrow> (string \<times> 'v option) list res" where
  "run_with_reference plain rt_inits rt_nodes graph declared feeds output_names custom_lib providers =
     bindE (refuse_if (custom_lib \<noteq> None) ValueError) (\<lambda>_.
     bindE (validate_providers None providers) (\<lambda>_.
     let names = (case output_names of None \<Rightarrow> declared | Some ns \<Rightarrow> ns) in
     bindE (if \<not> has_subgraphs graph then run_reference_pruned rt_inits rt_nodes graph names feeds
            else plain names feeds) (\<lambda>outs.
     Inr (zip names outs))))"

section \<open>What a graph evaluates to\<close>

text \<open>The nodes run in order, each on the values of all earlier ones; nothing is ever dropped.\<close>

inductive evaluates :: "'v rt_node list \<Rightarrow> 'v results \<Rightarrow> 'v results \<Rightarrow> bool" where
  no_node: "evaluates [] r r"
| next_node: "run_rt_node n r = Inr r' \<Longrightarrow> evaluates ns r' r'' \<Longrightarrow> evaluates (n # ns) r r''"

inductive_simps evaluates_simps [simp]:
  "evaluates [] r r'"
  "evaluates (n # ns) r r'"

text \<open>
  What onnx documents of its evaluator: it runs the nodes of the graph in their order and returns the
  requested values, and when a node fails or a name has no value it raises, the exception unspecified.
\<close>

locale plain_evaluator =
  fixes inits :: "string \<rightharpoonup> 'v" and rts :: "'v rt_node list"
    and plain :: "string list \<Rightarrow> (string \<rightharpoonup> 'v) \<Rightarrow> 'v option list res"
  assumes plain_returns: "plain names feeds = Inr outs \<longleftrightarrow>
    (\<exists>r. evaluates rts (start_results inits feeds) r \<and> list_all2 (\<lambda>n v. r n = Some v) names outs)"

section \<open>The liveness scan is exact\<close>

lemma note_uses_apply:
  "note_uses uses (i, n) x = (if x \<noteq> '''' \<and> x \<in> set (inputs n) then Some i else uses x)"
proof -
  have "foldl (\<lambda>m name. if name = '''' then m else m(name \<mapsto> i)) m xs x =
      (if x \<noteq> '''' \<and> x \<in> set xs then Some i else m x)" for m xs
    by (induction xs arbitrary: m) auto
  then show ?thesis by (simp add: note_uses_def)
qed

lemma last_use_snoc:
  "last_use_indices (ns @ [n]) x =
     (if x \<noteq> '''' \<and> x \<in> set (inputs n) then Some (length ns) else last_use_indices ns x)"
  by (simp add: last_use_indices_def enumerate_append_eq note_uses_apply)

lemma last_use_spec:
  "last_use_indices ns x = Some i \<longleftrightarrow>
     x \<noteq> '''' \<and> i < length ns \<and> x \<in> set (inputs (ns ! i)) \<and> (\<forall>j < length ns. i < j \<longrightarrow> x \<notin> set (inputs (ns ! j)))"
proof (induction ns rule: rev_induct)
  case Nil
  then show ?case by (simp add: last_use_indices_def)
next
  case (snoc n ns)
  then show ?case
    by (auto simp: last_use_snoc nth_append less_Suc_eq split: if_splits)
qed

section \<open>Pruning changes nothing\<close>

text \<open>
  The live names from node \<open>i\<close> on: the empty name, the requested outputs, and what a later node reads.
  The two evaluations agree on them.
\<close>

definition live :: "node list \<Rightarrow> string set \<Rightarrow> nat \<Rightarrow> string set" where
  "live graph keep i = insert '''' keep \<union> (\<Union>n \<in> set (drop i graph). set (inputs n))"

lemma prune_apply:
  fixes m :: "'v results"
  shows "prune lu keep i names m x =
     (if x \<in> set names \<and> x \<noteq> '''' \<and> x \<notin> keep \<and> lu x = Some i then None else m x)"
proof -
  have "foldl (\<lambda>m name. if name \<noteq> '''' \<and> name \<notin> keep \<and> lu name = Some i then m(name := None) else m) m names x =
      (if x \<in> set names \<and> x \<noteq> '''' \<and> x \<notin> keep \<and> lu x = Some i then None else m x)" for m :: "'v results"
    by (induction names arbitrary: m) auto
  then show ?thesis by (simp only: prune_def)
qed

lemma live_step:
  assumes "i < length graph"
  shows "live graph keep i = set (inputs (graph ! i)) \<union> live graph keep (Suc i)"
  using assms by (auto simp: live_def Cons_nth_drop_Suc [symmetric])

lemma last_use_not_live:
  assumes "last_use_indices graph x = Some i" and "x \<notin> keep"
  shows "x \<notin> live graph keep (Suc i)"
proof
  assume "x \<in> live graph keep (Suc i)"
  with assms obtain n where "n \<in> set (drop (Suc i) graph)" "x \<in> set (inputs n)"
    by (auto simp: live_def last_use_spec)
  then obtain j where "j < length (drop (Suc i) graph)" "n = drop (Suc i) graph ! j"
    by (metis in_set_conv_nth)
  then have "Suc i + j < length graph" "x \<in> set (inputs (graph ! (Suc i + j)))"
    using \<open>x \<in> set (inputs n)\<close> by simp_all
  with assms(1) show False by (auto simp: last_use_spec)
qed

lemma stores_agree:
  assumes "\<And>x. x \<in> L \<Longrightarrow> p x = r x" and "x \<in> L"
  shows "foldl (\<lambda>m (name, v). m(name \<mapsto> v)) p nvs x = foldl (\<lambda>m (name, v). m(name \<mapsto> v)) r nvs x"
  using assms
proof (induction nvs arbitrary: p r)
  case Nil
  then show ?case by simp
next
  case (Cons nv nvs)
  obtain name v where nv: "nv = (name, v)" by (cases nv)
  have "foldl (\<lambda>m (name, v). m(name \<mapsto> v)) (p(name \<mapsto> v)) nvs x =
      foldl (\<lambda>m (name, v). m(name \<mapsto> v)) (r(name \<mapsto> v)) nvs x"
    using Cons.prems by (intro Cons.IH) auto
  then show ?case by (simp only: nv foldl_Cons prod.case)
qed

lemma run_rt_node_agree:
  assumes agree: "\<And>x. x \<in> L \<Longrightarrow> p x = r x" and "set (rn_input n) \<subseteq> L" and "\<not> rn_context n"
  shows "(\<exists>e. run_rt_node n p = Inl e \<and> run_rt_node n r = Inl e) \<or>
         (\<exists>p' r'. run_rt_node n p = Inr p' \<and> run_rt_node n r = Inr r' \<and> (\<forall>x \<in> L. p' x = r' x))"
proof -
  have "map (look p) (rn_input n) = map (look r) (rn_input n)"
    using assms(1,2) by (auto simp: look_def)
  then have ins: "mapE (look p) (rn_input n) = mapE (look r) (rn_input n)"
    by (rule mapE_map_cong)
  show ?thesis
  proof (cases "mapE (look r) (rn_input n)")
    case (Inl e)
    with ins show ?thesis by (simp add: run_rt_node_def)
  next
    case (Inr vs)
    show ?thesis
    proof (cases "rn_run n None vs")
      case Inl
      with ins Inr assms(3) show ?thesis by (simp add: run_rt_node_def)
    next
      case outs: (Inr outs)
      with ins Inr assms(3) stores_agree [of L p r] agree show ?thesis by (simp add: run_rt_node_def)
    qed
  qed
qed

text \<open>
  From node \<open>i\<close> on, starting from values that agree on the live names, the pruned loop returns exactly
  when the graph evaluates, with the same values of the names that are kept.
\<close>

lemma pruned_from:
  assumes "map rn_input rts = map inputs (drop i graph)" and "\<forall>n \<in> set rts. \<not> rn_context n"
    and "\<forall>x \<in> live graph keep i. p x = r x"
  shows "((\<exists>e. foldE (pruned_step (last_use_indices graph) keep) p (enumerate i rts) = Inl e) \<and>
            (\<forall>r'. \<not> evaluates rts r r')) \<or>
         (\<exists>p' r'. foldE (pruned_step (last_use_indices graph) keep) p (enumerate i rts) = Inr p' \<and>
              (\<forall>r''. evaluates rts r r'' \<longleftrightarrow> r'' = r') \<and> (\<forall>x \<in> keep. p' x = r' x))"
  using assms
proof (induction rts arbitrary: i p r)
  case Nil
  then show ?case by (auto simp: live_def)
next
  case (Cons n rts)
  have i: "i < length graph" using Cons.prems(1) by (cases "i < length graph") auto
  then have "drop i graph = graph ! i # drop (Suc i) graph" by (simp add: Cons_nth_drop_Suc)
  then have n: "rn_input n = inputs (graph ! i)" "map rn_input rts = map inputs (drop (Suc i) graph)"
    using Cons.prems(1) by simp_all
  have "set (rn_input n) \<subseteq> live graph keep i" using live_step [OF i] n(1) by auto
  with run_rt_node_agree [of "live graph keep i" p r n] Cons.prems(2,3)
  consider (err) e where "run_rt_node n p = Inl e" "run_rt_node n r = Inl e"
    | (ok) p1 r1 where "run_rt_node n p = Inr p1" "run_rt_node n r = Inr r1"
        "\<forall>x \<in> live graph keep i. p1 x = r1 x"
    by auto
  then show ?case
  proof cases
    case err
    then show ?thesis by (simp add: pruned_step_def)
  next
    case ok
    define p2 where "p2 = prune (last_use_indices graph) keep i (rn_input n) p1"
    have "p2 x = r1 x" if x: "x \<in> live graph keep (Suc i)" for x
    proof -
      have "\<not> (x \<in> set (rn_input n) \<and> x \<noteq> '''' \<and> x \<notin> keep \<and> last_use_indices graph x = Some i)"
        using x last_use_not_live by blast
      moreover have "p1 x = r1 x" using ok(3) x live_step [OF i] by blast
      ultimately show ?thesis by (auto simp: p2_def prune_apply)
    qed
    with Cons.IH [OF n(2)] Cons.prems(2) ok(1,2) show ?thesis
      by (simp add: pruned_step_def p2_def)
  qed
qed

lemma look_all: "mapE (look r) names = Inr outs \<longleftrightarrow> list_all2 (\<lambda>n v. r n = Some v) names outs"
proof -
  have "look r n = Inr v \<longleftrightarrow> r n = Some v" for n v by (simp add: look_def split: option.split)
  then have "list_all2 (=) (map (look r) names) (map Inr outs) \<longleftrightarrow> list_all2 (\<lambda>n v. r n = Some v) names outs"
    by (simp only: list.rel_map)
  then show ?thesis by (simp only: mapE_Inr_iff list.rel_eq)
qed

lemma pruned_returns:
  assumes "map rn_input rts = map inputs graph" and "\<forall>n \<in> set rts. \<not> rn_context n"
  shows "run_reference_pruned inits rts graph names feeds = Inr outs \<longleftrightarrow>
    (\<exists>r. evaluates rts (start_results inits feeds) r \<and> list_all2 (\<lambda>n v. r n = Some v) names outs)"
proof -
  let ?s = "start_results inits feeds"
  from pruned_from [of rts 0 graph "set names" ?s ?s] assms
  consider (err) e where
      "foldE (pruned_step (last_use_indices graph) (set names)) ?s (enumerate 0 rts) = Inl e"
      "\<forall>r. \<not> evaluates rts ?s r"
    | (ok) p r where
      "foldE (pruned_step (last_use_indices graph) (set names)) ?s (enumerate 0 rts) = Inr p"
      "\<forall>r'. evaluates rts ?s r' \<longleftrightarrow> r' = r" "\<forall>x \<in> set names. p x = r x"
    by auto
  then show ?thesis
  proof cases
    case err
    then show ?thesis by (simp add: run_reference_pruned_def)
  next
    case ok
    from ok(3) have "map (look p) names = map (look r) names" by (auto simp: look_def)
    then have "mapE (look p) names = mapE (look r) names" by (rule mapE_map_cong)
    with ok(1,2) look_all [of r names outs] show ?thesis by (simp add: run_reference_pruned_def)
  qed
qed

context plain_evaluator
begin

lemma pruned_is_plain:
  assumes "map rn_input rts = map inputs graph" and "\<forall>n \<in> set rts. \<not> rn_context n"
  shows "run_reference_pruned inits rts graph names feeds = Inr outs \<longleftrightarrow> plain names feeds = Inr outs"
  unfolding pruned_returns [OF assms] plain_returns ..

end

text \<open>An evaluator that keeps every value meets the contract.\<close>

definition keep_all ::
  "(string \<rightharpoonup> 'v) \<Rightarrow> 'v rt_node list \<Rightarrow> string list \<Rightarrow> (string \<rightharpoonup> 'v) \<Rightarrow> 'v option list res" where
  "keep_all inits rts names feeds =
     bindE (foldE (\<lambda>results n. run_rt_node n results) (start_results inits feeds) rts) (\<lambda>results.
     mapE (look results) names)"

lemma evaluates_foldE: "evaluates rts r r' \<longleftrightarrow> foldE (\<lambda>results n. run_rt_node n results) r rts = Inr r'"
  by (induction rts arbitrary: r) (auto simp: bindE_Inr_iff)

interpretation kept: plain_evaluator inits rts "keep_all inits rts" for inits rts
proof
  fix names feeds outs
  show "keep_all inits rts names feeds = Inr outs \<longleftrightarrow>
      (\<exists>r. evaluates rts (start_results inits feeds) r \<and> list_all2 (\<lambda>n v. r n = Some v) names outs)"
    unfolding keep_all_def bindE_Inr_iff look_all evaluates_foldE ..
qed

section \<open>Properties\<close>

text \<open>
  C24.  Early release is invisible: for an evaluator that runs the graph's nodes in order, on runtime nodes
  that read the inputs the graph lists and take the whole context only when it holds a control-flow
  subgraph, the fallback refuses a custom library and then a provider other than the CPU's, and
  otherwise returns exactly when the evaluator's own \<open>run\<close> returns, with the same outputs.
\<close>

theorem reference_fallback_exact:
  assumes "plain_evaluator rt_inits rts plain" and "map rn_input rts = map inputs graph"
    and "\<not> has_subgraphs graph \<longrightarrow> (\<forall>n \<in> set rts. \<not> rn_context n)"
  shows "case (custom_lib, validate_providers None providers) of
      (Some _, _) \<Rightarrow>
        run_with_reference plain rt_inits rts graph declared feeds output_names custom_lib providers = Inl ValueError
    | (None, Inl e) \<Rightarrow>
        run_with_reference plain rt_inits rts graph declared feeds output_names custom_lib providers = Inl e
    | (None, Inr _) \<Rightarrow>
        let names = (case output_names of None \<Rightarrow> declared | Some ns \<Rightarrow> ns) in
        \<forall>res. run_with_reference plain rt_inits rts graph declared feeds output_names custom_lib providers = Inr res \<longleftrightarrow>
          (\<exists>outs. plain names feeds = Inr outs \<and> res = zip names outs)"
proof -
  have "run_reference_pruned rt_inits rts graph names feeds = Inr outs \<longleftrightarrow> plain names feeds = Inr outs"
    if "\<not> has_subgraphs graph" for names outs
    using plain_evaluator.pruned_is_plain [OF assms(1,2)] assms(3) that by simp
  then show ?thesis
    by (auto simp: run_with_reference_def refuse_if_def bindE_Inr_iff Let_def split: option.split sum.split)
qed

definition ex_graph :: "node list" where
  "ex_graph = [make_node ''Neg'' [''x''] [''a''] '''' [], make_node ''Add'' [''a'', ''x''] [''y''] '''' []]"

definition ex_rts :: "int rt_node list" where
  "ex_rts =
     [\<lparr>rn_input = [''x''], rn_output = [''a''], rn_context = False,
       rn_run = (\<lambda>_ vs. Inr [map_option uminus (vs ! 0)])\<rparr>,
      \<lparr>rn_input = [''a'', ''x''], rn_output = [''y''], rn_context = False,
       rn_run = (\<lambda>_ vs. Inr [Some (the (vs ! 0) + the (vs ! 1) * 3)])\<rparr>]"

theorem reference_fallback_exact_witness:
  "run_with_reference (keep_all Map.empty ex_rts) Map.empty ex_rts ex_graph [''y''] [''x'' \<mapsto> 5] None None None = Inr [(''y'', Some 10)]"
  using reference_fallback_exact [OF kept.plain_evaluator_axioms [of Map.empty ex_rts], where graph = ex_graph
      and custom_lib = None and providers = None and declared = "[''y'']" and feeds = "[''x'' \<mapsto> 5]"
      and output_names = None]
  by (simp add: ex_rts_def ex_graph_def has_subgraphs_def validate_providers_def keep_all_def
      run_rt_node_def look_def start_results_def Let_def)

lemma stores_other: "x \<notin> set names \<Longrightarrow> foldl (\<lambda>m (name, v). m(name \<mapsto> v)) m (zip names vs) x = m x"
proof (induction names arbitrary: m vs)
  case (Cons n ns)
  then show ?case by (cases vs) auto
qed simp

lemma pruned_step_Inr:
  "pruned_step lu keep r (i, n) = Inr m \<longleftrightarrow>
     (\<exists>r1. run_rt_node n r = Inr r1 \<and> m = prune lu keep i (rn_input n) r1)"
  by (auto simp: pruned_step_def bindE_Inr_iff)

lemma run_rt_node_other:
  "run_rt_node n m = Inr m' \<Longrightarrow> x \<notin> set (rn_output n) \<Longrightarrow> m' x = m x"
  by (auto simp: run_rt_node_def bindE_Inr_iff stores_other)

text \<open>
  C25.  No value outlives its last use: after the first \<open>k\<close> nodes, a value whose last consumer is among
  them, that was not requested as an output and is not produced again, is no longer held.
\<close>

theorem values_released:
  assumes "foldE (pruned_step (last_use_indices graph) keep) s (enumerate 0 (take k rts)) = Inr results"
    and "map rn_input rts = map inputs graph" and "last_use_indices graph x = Some j" "j < k" "x \<notin> keep"
    and "\<forall>i < length rts. j < i \<longrightarrow> x \<notin> set (rn_output (rts ! i))"
  shows "results x = None"
  using assms(1,4)
proof (induction k arbitrary: results)
  case 0
  then show ?case by simp
next
  case (Suc k)
  have len: "length rts = length graph" using assms(2) map_eq_imp_length_eq by blast
  show ?case
  proof (cases "k < length rts")
    case False
    then have "take (Suc k) rts = take k rts" "j < k" using assms(3) len by (auto simp: last_use_spec)
    with Suc show ?thesis by simp
  next
    case True
    then have "enumerate 0 (take (Suc k) rts) = enumerate 0 (take k rts) @ [(k, rts ! k)]"
      by (simp add: take_Suc_conv_app_nth enumerate_append_eq)
    with Suc.prems(1) obtain r r1 where
        r: "foldE (pruned_step (last_use_indices graph) keep) s (enumerate 0 (take k rts)) = Inr r"
        and r1: "run_rt_node (rts ! k) r = Inr r1"
        and res: "results = prune (last_use_indices graph) keep k (rn_input (rts ! k)) r1"
      by (auto simp: foldE_append bindE_Inr_iff pruned_step_Inr)
    have inp: "rn_input (rts ! k) = inputs (graph ! k)"
      using True len assms(2) by (metis nth_map)
    show ?thesis
    proof (cases "j = k")
      case True
      with assms(3,5) show ?thesis by (auto simp: res prune_apply inp last_use_spec)
    next
      case False
      with Suc.prems(2) have "j < k" by simp
      from Suc.IH [OF r this] run_rt_node_other [OF r1] assms(6) True \<open>j < k\<close> show ?thesis
        by (auto simp: res prune_apply)
    qed
  qed
qed

theorem values_released_witness:
  "\<exists>results. foldE (pruned_step (last_use_indices ex_graph) {''y''}) [''x'' \<mapsto> Some 5] (enumerate 0 (take 2 ex_rts)) = Inr results
     \<and> results ''a'' = None"
proof -
  have uses: "last_use_indices ex_graph ''a'' = Some 1" "last_use_indices ex_graph ''x'' = Some 1"
    by (simp_all add: last_use_indices_def ex_graph_def note_uses_def)
  then have "last_use_indices ex_graph ''a'' = Some 1" by simp
  moreover obtain results where
      run: "foldE (pruned_step (last_use_indices ex_graph) {''y''}) [''x'' \<mapsto> Some 5] (enumerate 0 (take 2 ex_rts)) = Inr results"
    by (simp add: ex_rts_def pruned_step_def run_rt_node_def look_def prune_def uses)
  moreover have "\<forall>i < length ex_rts. 1 < i \<longrightarrow> ''a'' \<notin> set (rn_output (ex_rts ! i))"
    by (simp add: ex_rts_def)
  ultimately show ?thesis
    using values_released [OF run, of "''a''" 1] by (auto simp: ex_rts_def ex_graph_def)
qed

end
