(* ===== verification/Bound_Loop.thy ===== *)
theory Bound_Loop
  imports Reference_Evaluator
begin

text \<open>
  The device-resident loop of \<open>onnxsim/backend.py\<close>: \<open>Runner.bind_loop\<close>, which allocates two buffers
  per state tensor and binds the rest once, and \<open>BoundStepLoop\<close>, which alternates between them.
  onnxruntime is outside the repository: a session is a record of what the code uses of it, and its
  buffers live in an explicit store, so that the aliasing the class guards against can be stated.
\<close>

section \<open>Arrays and sessions\<close>

datatype dtype = Float16 | Float32 | Float64 | Int8 | Int16 | Int32 | Int64
  | Uint8 | Uint16 | Uint32 | Uint64 | Bool8

record ndarray =
  nd_shape :: "int list"
  nd_dtype :: dtype
  nd_data :: "real list"

text \<open>A bound tensor's buffer: a state tensor's two slots, a host output, a resident constant.\<close>

datatype addr = State_Buf string nat | Host string | Resident string

type_synonym store = "addr \<rightharpoonup> ndarray"
type_synonym feeds = "string \<rightharpoonup> ndarray"

text \<open>An input is bound to host memory or to a buffer.\<close>

datatype source = Cpu ndarray | Buffer addr

text \<open>An output's metadata: its type string and its dimensions, of which only integers are concrete.\<close>

datatype out_dim = Dim_Int int | Dim_Bool bool | Dim_Other

record out_meta =
  om_type :: "string option"
  om_shape :: "out_dim list option"

record session =
  s_run :: "feeds \<Rightarrow> feeds res"
  s_exec :: "(string \<rightharpoonup> source) \<Rightarrow> (string \<rightharpoonup> addr) \<Rightarrow> store \<Rightarrow> unit res \<times> store"
  s_outputs :: "(string \<times> out_meta) list"
  s_binding :: bool
  s_alloc :: "int list \<Rightarrow> dtype \<Rightarrow> string \<Rightarrow> int \<Rightarrow> bool"

section \<open>Devices and buffers\<close>

definition PROVIDER_DEVICES :: "string \<rightharpoonup> string" where
  "PROVIDER_DEVICES = map_of
    [(''CPUExecutionProvider'', ''cpu''), (''CUDAExecutionProvider'', ''cuda''),
     (''TensorrtExecutionProvider'', ''cuda''), (''ROCMExecutionProvider'', ''cuda''),
     (''MIGraphXExecutionProvider'', ''cuda''), (''AMDGPUExecutionProvider'', ''cuda''),
     (''VitisAIExecutionProvider'', ''cpu''), (''AxEngineExecutionProvider'', ''cpu''),
     (''AXCLRTExecutionProvider'', ''cpu''), (''CANNExecutionProvider'', ''cann''),
     (''DmlExecutionProvider'', ''dml''), (''WebGpuExecutionProvider'', ''webgpu'')]"

definition ORT_TYPE_TO_NUMPY :: "string \<rightharpoonup> dtype" where
  "ORT_TYPE_TO_NUMPY = map_of
    [(''tensor(float)'', Float32), (''tensor(double)'', Float64), (''tensor(float16)'', Float16),
     (''tensor(int64)'', Int64), (''tensor(int32)'', Int32), (''tensor(int16)'', Int16),
     (''tensor(int8)'', Int8), (''tensor(uint64)'', Uint64), (''tensor(uint32)'', Uint32),
     (''tensor(uint16)'', Uint16), (''tensor(uint8)'', Uint8), (''tensor(bool)'', Bool8)]"

text \<open>The device id an options dictionary asks for; a string that is no integer means 0.\<close>

fun device_id :: "provider \<Rightarrow> int" where
  "device_id (Bare _) = 0"
| "device_id (With_Options _ opts) =
     (case opts ''device_id'' of
        Some (Ov_Int n) \<Rightarrow> n
      | Some (Ov_Str s) \<Rightarrow> (case int_of_string s of Inr n \<Rightarrow> n | Inl _ \<Rightarrow> 0)
      | _ \<Rightarrow> 0)"

definition binding_device :: "provider list option \<Rightarrow> string \<times> int" where
  "binding_device providers =
     (case providers of
        None \<Rightarrow> (''cpu'', 0)
      | Some [] \<Rightarrow> (''cpu'', 0)
      | Some (p # _) \<Rightarrow>
          ((case PROVIDER_DEVICES (provider_name p) of None \<Rightarrow> ''cpu'' | Some d \<Rightarrow> d), device_id p))"

fun static_dim :: "out_dim \<Rightarrow> int option" where
  "static_dim (Dim_Int n) = (if n < 0 then None else Some n)"
| "static_dim _ = None"

definition static_output_spec :: "out_meta \<Rightarrow> (int list \<times> dtype) option" where
  "static_output_spec meta =
     (case om_type meta of None \<Rightarrow> None
      | Some t \<Rightarrow> (case ORT_TYPE_TO_NUMPY t of None \<Rightarrow> None
        | Some dt \<Rightarrow> (case om_shape meta of None \<Rightarrow> None
          | Some sh \<Rightarrow>
              if \<forall>d \<in> set sh. static_dim d \<noteq> None then Some (map (the \<circ> static_dim) sh, dt) else None)))"

section \<open>The bound loop\<close>

record bound_loop =
  bl_inputs :: "string \<rightharpoonup> source"
  bl_outputs :: "string \<rightharpoonup> addr"
  bl_store :: store
  bl_device :: string
  bl_state_outputs :: "(string \<times> string) list"
  bl_host :: "string list"
  bl_slot :: nat

text \<open>
  \<open>np.ascontiguousarray\<close> of a state value: an array in C order (the layout \<open>nd_data\<close> lists), of rank at
  least 1, so that a rank-0 array comes back with shape \<open>(1,)\<close>.
\<close>

definition ascontiguousarray :: "ndarray \<Rightarrow> ndarray" where
  "ascontiguousarray v = (if nd_shape v = [] then v\<lparr>nd_shape := [1]\<rparr> else v)"

text \<open>One state tensor can be bound: its output's buffer has the array's shape and type and is allocated.\<close>

definition state_bindable ::
  "session \<Rightarrow> string \<times> int \<Rightarrow> (string \<rightharpoonup> out_meta) \<Rightarrow> string \<times> string \<times> ndarray \<Rightarrow> bool" where
  "state_bindable S dev metadata entry =
     (case entry of (name, out, value) \<Rightarrow>
      case metadata out of None \<Rightarrow> False
      | Some meta \<Rightarrow> (case static_output_spec meta of None \<Rightarrow> False
        | Some (shape, dt) \<Rightarrow>
            let array = ascontiguousarray value
            in shape = nd_shape array \<and> dt = nd_dtype array \<and> s_alloc S (nd_shape array) dt (fst dev) (snd dev)))"

definition host_bindable :: "session \<Rightarrow> out_meta \<Rightarrow> bool" where
  "host_bindable S meta =
     (case static_output_spec meta of None \<Rightarrow> False | Some (shape, dt) \<Rightarrow> s_alloc S shape dt ''cpu'' 0)"

text \<open>
  The store and the bindings \<open>bind_loop\<close> hands over: slot 0 of every state tensor holds its initial
  value made contiguous, the constants are resident, every output that is not a state output has a host
  buffer.
\<close>

definition initial_store :: "(string \<times> ndarray) list \<Rightarrow> (string \<times> string \<times> ndarray) list \<Rightarrow> store" where
  "initial_store constants state =
     (\<lambda>a. case a of
        State_Buf name slot \<Rightarrow>
          (if slot = 0 then map_option (\<lambda>(_, value). ascontiguousarray value) (map_of state name) else None)
      | Resident name \<Rightarrow> map_of constants name
      | Host _ \<Rightarrow> None)"

definition bind_loop ::
  "bool \<Rightarrow> session \<Rightarrow> provider list option \<Rightarrow> (string \<times> ndarray) list \<Rightarrow> (string \<times> string \<times> ndarray) list
     \<Rightarrow> bound_loop option" where
  "bind_loop has_ort S providers constants state =
     (if \<not> has_ort \<or> \<not> s_binding S then None
      else
        let dev = binding_device providers;
            metadata = map_of (s_outputs S);
            state_outputs = map (\<lambda>(name, out, _). (name, out)) state;
            produced = set (map snd state_outputs);
            host = filter (\<lambda>n. n \<notin> produced) (map fst (s_outputs S))
        in
        if \<not> produced \<subseteq> set (map fst (s_outputs S)) then None
        else if \<not> (\<forall>e \<in> set state. state_bindable S dev metadata e) then None
        else if \<not> (\<forall>n \<in> set host. host_bindable S (the (metadata n))) then None
        else if \<not> (\<forall>(n, v) \<in> set constants. s_alloc S (nd_shape v) (nd_dtype v) (fst dev) (snd dev)) then None
        else Some
          \<lparr>bl_inputs = (\<lambda>n. if n \<in> set (map fst constants) then Some (Buffer (Resident n)) else None),
           bl_outputs = (\<lambda>n. if n \<in> set host then Some (Host n) else None),
           bl_store = initial_store constants state,
           bl_device = fst dev, bl_state_outputs = state_outputs, bl_host = host, bl_slot = 0\<rparr>)"

text \<open>The bindings of one step: the feeds from the host, each state tensor from one slot into the other.\<close>

definition bind_state ::
  "nat \<Rightarrow> nat \<Rightarrow> (string \<rightharpoonup> source) \<times> (string \<rightharpoonup> addr) \<Rightarrow> string \<times> string \<Rightarrow> (string \<rightharpoonup> source) \<times> (string \<rightharpoonup> addr)" where
  "bind_state src target binds entry =
     (case (binds, entry) of ((ins, outs), (name, out)) \<Rightarrow>
        (ins(name \<mapsto> Buffer (State_Buf name src)), outs(out \<mapsto> State_Buf name target)))"

definition step_bindings :: "bound_loop \<Rightarrow> feeds \<Rightarrow> (string \<rightharpoonup> source) \<times> (string \<rightharpoonup> addr)" where
  "step_bindings L fs =
     (let src = bl_slot L; target = 1 - bl_slot L;
          ins = bl_inputs L ++ (\<lambda>n. map_option Cpu (fs n))
      in foldl (bind_state src target) (ins, bl_outputs L) (bl_state_outputs L))"

text \<open>\<open>step\<close>: the device synchronisations have no counterpart in a store without asynchrony.\<close>

definition bound_step :: "session \<Rightarrow> feeds \<Rightarrow> (bound_loop, feeds) st" where
  "bound_step S fs L =
     (let (ins, outs) = step_bindings L fs;
          (r, store') = s_exec S ins outs (bl_store L);
          L' = L\<lparr>bl_inputs := ins, bl_outputs := outs, bl_store := store'\<rparr>
      in case r of
           Inl e \<Rightarrow> (Inl e, L')
         | Inr _ \<Rightarrow>
             (Inr (\<lambda>n. if n \<in> set (bl_host L) then store' (Host n) else None), L'\<lparr>bl_slot := 1 - bl_slot L\<rparr>))"

definition bound_state :: "bound_loop \<Rightarrow> feeds" where
  "bound_state L =
     (\<lambda>n. if n \<in> set (map fst (bl_state_outputs L)) then bl_store L (State_Buf n (bl_slot L)) else None)"

section \<open>What the loop relies on\<close>

definition input_value :: "store \<Rightarrow> source \<Rightarrow> ndarray option" where
  "input_value st src = (case src of Cpu v \<Rightarrow> Some v | Buffer a \<Rightarrow> st a)"

definition input_values :: "(string \<rightharpoonup> source) \<Rightarrow> store \<Rightarrow> feeds" where
  "input_values ins st = (\<lambda>n. case ins n of None \<Rightarrow> None | Some src \<Rightarrow> input_value st src)"

definition read_set :: "(string \<rightharpoonup> source) \<Rightarrow> addr set" where
  "read_set ins = {a. \<exists>n. ins n = Some (Buffer a)}"

text \<open>No output shares its buffer with an input or another output, and every output has one.\<close>

definition safe_binding :: "session \<Rightarrow> (string \<rightharpoonup> source) \<Rightarrow> (string \<rightharpoonup> addr) \<Rightarrow> store \<Rightarrow> bool" where
  "safe_binding S ins outs st \<longleftrightarrow>
     read_set ins \<inter> ran outs = {} \<and> inj_on outs (dom outs) \<and>
     set (map fst (s_outputs S)) = dom outs \<and> read_set ins \<subseteq> dom st"

text \<open>
  What onnxruntime documents of \<open>run_with_iobinding\<close>.  It may write an output before it has read every
  input, so nothing is promised of a binding whose read set and write set overlap.  A run of a safe
  binding may fail for reasons of the provider's own, whatever \<open>run\<close> would do; when it returns, \<open>run\<close>
  returns too, each output buffer holds the value \<open>run\<close> computes and nothing else has changed.
\<close>

locale io_binding =
  fixes S :: session
  assumes exec_value: "safe_binding S ins outs st \<Longrightarrow> s_exec S ins outs st = (Inr (), st') \<Longrightarrow>
      \<exists>vs. s_run S (input_values ins st) = Inr vs \<and> (\<forall>n a. outs n = Some a \<longrightarrow> st' a = vs n) \<and>
           (\<forall>a. a \<notin> ran outs \<longrightarrow> st' a = st a)"
    and run_outputs: "s_run S fs = Inr vs \<Longrightarrow> dom vs = set (map fst (s_outputs S))"

text \<open>A provider that, besides, runs every safe binding whose plain run returns.\<close>

locale steady_io_binding = io_binding +
  assumes exec_runs: "safe_binding S ins outs st \<Longrightarrow> s_run S (input_values ins st) = Inr vs \<Longrightarrow>
      \<exists>st'. s_exec S ins outs st = (Inr (), st')"

text \<open>The binding of a step, name by name.\<close>

lemma bind_state_ins:
  "fst (foldl (bind_state src target) (ins, outs) so) n =
     (if n \<in> set (map fst so) then Some (Buffer (State_Buf n src)) else ins n)"
proof (induction so arbitrary: ins outs)
  case (Cons e so)
  then show ?case by (cases e) (auto simp: bind_state_def)
qed simp

lemma bind_state_outs_other:
  "n \<notin> set (map snd so) \<Longrightarrow> snd (foldl (bind_state src target) (ins, outs) so) n = outs n"
proof (induction so arbitrary: ins outs)
  case (Cons e so)
  then show ?case by (cases e) (auto simp: bind_state_def)
qed simp

lemma bind_state_outs:
  "distinct (map snd so) \<Longrightarrow> (name, out) \<in> set so \<Longrightarrow>
     snd (foldl (bind_state src target) (ins, outs) so) out = Some (State_Buf name target)"
proof (induction so arbitrary: ins outs)
  case (Cons e so)
  show ?case
  proof (cases "(name, out) = e")
    case True
    with Cons.prems have "out \<notin> set (map snd so)" by force
    moreover have "bind_state src target (ins, outs) e =
        (ins(name \<mapsto> Buffer (State_Buf name src)), outs(out \<mapsto> State_Buf name target))"
      by (simp add: bind_state_def True [symmetric])
    ultimately show ?thesis by (simp add: bind_state_outs_other)
  next
    case False
    with Cons.prems have "(name, out) \<in> set so" "distinct (map snd so)" by auto
    from Cons.IH [OF this(2,1)] show ?thesis by (cases e) (auto simp: bind_state_def)
  qed
qed simp

text \<open>
  The abstract loop: a state, advanced by the session's function on the constants, the state and the
  feeds.  \<open>tracks\<close> relates a bound loop to it.
\<close>

definition loop_inputs :: "feeds \<Rightarrow> feeds \<Rightarrow> feeds \<Rightarrow> feeds" where
  "loop_inputs consts cur fs = (consts ++ cur) ++ fs"

definition next_state :: "(string \<times> string) list \<Rightarrow> feeds \<Rightarrow> feeds" where
  "next_state so vs = (\<lambda>n. case map_of so n of None \<Rightarrow> None | Some out \<Rightarrow> vs out)"

definition tracks ::
  "session \<Rightarrow> (string \<times> string) list \<Rightarrow> feeds \<Rightarrow> string set \<Rightarrow> feeds \<Rightarrow> bound_loop \<Rightarrow> bool" where
  "tracks S so consts fed cur L \<longleftrightarrow>
     bl_state_outputs L = so \<and> bl_slot L \<le> 1 \<and>
     bl_host L = filter (\<lambda>n. n \<notin> set (map snd so)) (map fst (s_outputs S)) \<and>
     dom cur = set (map fst so) \<and>
     (\<forall>n \<in> set (map fst so). bl_store L (State_Buf n (bl_slot L)) = cur n) \<and>
     (\<forall>n \<in> dom consts. bl_inputs L n = Some (Buffer (Resident n)) \<and> bl_store L (Resident n) = consts n) \<and>
     dom (bl_inputs L) \<subseteq> dom consts \<union> fed \<union> set (map fst so) \<and>
     (\<forall>n. n \<notin> set (map snd so) \<longrightarrow> bl_outputs L n = (if n \<in> set (bl_host L) then Some (Host n) else None))"

definition names_ok :: "session \<Rightarrow> (string \<times> string) list \<Rightarrow> feeds \<Rightarrow> string set \<Rightarrow> bool" where
  "names_ok S so consts fed \<longleftrightarrow>
     distinct (map fst so) \<and> distinct (map snd so) \<and> set (map snd so) \<subseteq> set (map fst (s_outputs S)) \<and>
     dom consts \<inter> fed = {} \<and> set (map fst so) \<inter> (dom consts \<union> fed) = {}"

lemma step_bindings_ins:
  assumes "bl_state_outputs L = so"
  shows "fst (step_bindings L fs) n =
    (if n \<in> set (map fst so) then Some (Buffer (State_Buf n (bl_slot L)))
     else case fs n of Some v \<Rightarrow> Some (Cpu v) | None \<Rightarrow> bl_inputs L n)"
  using assms by (simp add: step_bindings_def Let_def bind_state_ins map_add_def split: option.split)

lemma step_bindings_outs:
  assumes "bl_state_outputs L = so" and "distinct (map snd so)"
  shows "(name, out) \<in> set so \<Longrightarrow> snd (step_bindings L fs) out = Some (State_Buf name (1 - bl_slot L))"
    and "out \<notin> set (map snd so) \<Longrightarrow> snd (step_bindings L fs) out = bl_outputs L out"
  using assms by (simp_all add: step_bindings_def Let_def bind_state_outs bind_state_outs_other)

lemma step_bindings_outs_cases:
  assumes "tracks S so consts fed cur L" and "names_ok S so consts fed"
    and "snd (step_bindings L fs) n = Some a"
  shows "(\<exists>name. (name, n) \<in> set so \<and> a = State_Buf name (1 - bl_slot L)) \<or>
         (n \<notin> set (map snd so) \<and> n \<in> set (bl_host L) \<and> a = Host n)"
proof (cases "n \<in> set (map snd so)")
  case True
  then obtain name where "(name, n) \<in> set so" by auto
  with assms show ?thesis
    using step_bindings_outs(1) [of L so name n fs] by (auto simp: tracks_def names_ok_def)
next
  case False
  with assms show ?thesis
    using step_bindings_outs(2) [of L so n fs] by (auto simp: tracks_def names_ok_def split: if_splits)
qed

lemma tracksD:
  assumes "tracks S so consts fed cur L"
  shows "bl_state_outputs L = so" "bl_slot L \<le> 1" "dom cur = set (map fst so)"
    and "n \<in> set (map fst so) \<Longrightarrow> bl_store L (State_Buf n (bl_slot L)) = cur n"
    and "n \<in> dom consts \<Longrightarrow> bl_inputs L n = Some (Buffer (Resident n))"
    and "n \<in> dom consts \<Longrightarrow> bl_store L (Resident n) = consts n"
    and "bl_inputs L n = Some s \<Longrightarrow> n \<notin> fed \<Longrightarrow> n \<notin> set (map fst so) \<Longrightarrow> n \<in> dom consts"
    and "n \<notin> set (map snd so) \<Longrightarrow> bl_outputs L n = (if n \<in> set (bl_host L) then Some (Host n) else None)"
    and "n \<in> set (bl_host L) \<longleftrightarrow> n \<notin> set (map snd so) \<and> n \<in> set (map fst (s_outputs S))"
  using assms unfolding tracks_def by (blast | simp)+

lemma step_reads:
  assumes t: "tracks S so consts fed cur L" and fs: "dom fs = fed"
    and a: "a \<in> read_set (fst (step_bindings L fs))"
  shows "(\<exists>n \<in> set (map fst so). a = State_Buf n (bl_slot L)) \<or> (\<exists>n \<in> dom consts. a = Resident n)"
proof -
  note ins = step_bindings_ins [OF tracksD(1) [OF t], of fs]
  from a obtain n where n: "fst (step_bindings L fs) n = Some (Buffer a)" by (auto simp: read_set_def)
  show ?thesis
  proof (cases "n \<in> set (map fst so)")
    case True
    then show ?thesis using n by (auto simp: ins)
  next
    case False
    then have "n \<notin> fed" "bl_inputs L n = Some (Buffer a)"
      using n fs by (auto simp: ins split: option.splits)
    with False tracksD(5,7) [OF t, of n] show ?thesis by auto
  qed
qed

lemma step_reads_stored:
  assumes t: "tracks S so consts fed cur L" and fs: "dom fs = fed"
  shows "read_set (fst (step_bindings L fs)) \<subseteq> dom (bl_store L)"
proof
  fix a
  assume "a \<in> read_set (fst (step_bindings L fs))"
  from step_reads [OF t fs this] show "a \<in> dom (bl_store L)"
  proof
    assume "\<exists>n \<in> set (map fst so). a = State_Buf n (bl_slot L)"
    then obtain n where n: "n \<in> set (map fst so)" "a = State_Buf n (bl_slot L)" by blast
    then have "bl_store L a = cur n" "n \<in> dom cur" using tracksD(3,4) [OF t] by simp_all
    then show ?thesis by (simp add: domIff)
  next
    assume "\<exists>n \<in> dom consts. a = Resident n"
    then obtain n where n: "n \<in> dom consts" "a = Resident n" by blast
    then have "bl_store L a = consts n" using tracksD(6) [OF t] by simp
    with n(1) show ?thesis by (simp add: domIff)
  qed
qed

lemma step_outputs_dom:
  assumes t: "tracks S so consts fed cur L" and ok: "names_ok S so consts fed"
  shows "n \<in> dom (snd (step_bindings L fs)) \<longleftrightarrow> n \<in> set (map fst (s_outputs S))"
proof -
  have so: "bl_state_outputs L = so" "distinct (map snd so)" using tracksD(1) [OF t] ok by (simp_all add: names_ok_def)
  show ?thesis
  proof (cases "n \<in> set (map snd so)")
    case True
    then obtain name where "(name, n) \<in> set so" by auto
    with True ok step_bindings_outs(1) [OF so, of name n fs] show ?thesis by (auto simp: names_ok_def)
  next
    case False
    with step_bindings_outs(2) [OF so, of n fs] tracksD(8,9) [OF t, of n] show ?thesis
      by (simp add: domIff)
  qed
qed

lemma step_outputs_inj:
  assumes t: "tracks S so consts fed cur L" and ok: "names_ok S so consts fed"
  shows "inj_on (snd (step_bindings L fs)) (dom (snd (step_bindings L fs)))"
proof (rule inj_onI)
  fix n m
  assume "n \<in> dom (snd (step_bindings L fs))" "snd (step_bindings L fs) n = snd (step_bindings L fs) m"
  then obtain a where a: "snd (step_bindings L fs) n = Some a" "snd (step_bindings L fs) m = Some a"
    by (metis domD)
  from step_bindings_outs_cases [OF t ok a(1)] step_bindings_outs_cases [OF t ok a(2)]
  consider (state) name where "(name, n) \<in> set so" "(name, m) \<in> set so" | (host) "a = Host n" "a = Host m"
    by auto
  then show "n = m"
  proof cases
    case state
    with ok show ?thesis by (auto simp: names_ok_def intro: eq_key_imp_eq_value)
  qed simp
qed

text \<open>Ping-pong: what a step reads and what it writes are disjoint.\<close>

lemma step_safe:
  assumes t: "tracks S so consts fed cur L" and ok: "names_ok S so consts fed" and fs: "dom fs = fed"
  shows "safe_binding S (fst (step_bindings L fs)) (snd (step_bindings L fs)) (bl_store L)"
proof -
  have slot: "1 - bl_slot L \<noteq> bl_slot L" using tracksD(2) [OF t] by (cases "bl_slot L = 0") auto
  have "a \<notin> ran (snd (step_bindings L fs))" if a: "a \<in> read_set (fst (step_bindings L fs))" for a
  proof
    assume "a \<in> ran (snd (step_bindings L fs))"
    then obtain n where "snd (step_bindings L fs) n = Some a" by (auto simp: ran_def)
    from step_bindings_outs_cases [OF t ok this] step_reads [OF t fs a] slot show False by auto
  qed
  with step_reads_stored [OF t fs] step_outputs_inj [OF t ok] step_outputs_dom [OF t ok] show ?thesis
    unfolding safe_binding_def by blast
qed

lemma step_inputs:
  assumes t: "tracks S so consts fed cur L" and ok: "names_ok S so consts fed" and fs: "dom fs = fed"
  shows "input_values (fst (step_bindings L fs)) (bl_store L) = loop_inputs consts cur fs"
proof
  fix n
  have so: "bl_state_outputs L = so" using t by (simp add: tracks_def)
  consider (state) "n \<in> set (map fst so)" | (feed) "n \<notin> set (map fst so)" "n \<in> fed"
    | (const) "n \<notin> set (map fst so)" "n \<notin> fed" "n \<in> dom consts"
    | (none) "n \<notin> set (map fst so)" "n \<notin> fed" "n \<notin> dom consts" by blast
  then show "input_values (fst (step_bindings L fs)) (bl_store L) n = loop_inputs consts cur fs n"
  proof cases
    case state
    then have "n \<notin> dom fs" "n \<in> dom cur" "bl_store L (State_Buf n (bl_slot L)) = cur n"
      using t ok fs by (auto simp: tracks_def names_ok_def)
    with state show ?thesis
      by (auto simp: input_values_def input_value_def step_bindings_ins [OF so] loop_inputs_def map_add_def domIff)
  next
    case feed
    with fs show ?thesis
      by (auto simp: input_values_def input_value_def step_bindings_ins [OF so] loop_inputs_def map_add_def)
  next
    case const
    then have "n \<notin> dom fs" "n \<notin> dom cur" "bl_inputs L n = Some (Buffer (Resident n))" "bl_store L (Resident n) = consts n"
      using t fs by (auto simp: tracks_def)
    with const show ?thesis
      by (auto simp: input_values_def input_value_def step_bindings_ins [OF so] loop_inputs_def map_add_def domIff)
  next
    case none
    then have "n \<notin> dom fs" "n \<notin> dom cur" "bl_inputs L n = None"
      using t fs by (auto simp: tracks_def domIff)
    with none show ?thesis
      by (auto simp: input_values_def step_bindings_ins [OF so] loop_inputs_def map_add_def domIff)
  qed
qed

lemma safe_binding_buffers:
  assumes "safe_binding S ins outs st"
  shows "outs n = Some a \<Longrightarrow> a \<notin> read_set ins" and "ins n = Some (Buffer a) \<Longrightarrow> a \<notin> ran outs"
  using assms by (auto simp: safe_binding_def read_set_def ran_def)

lemma bound_step_returns:
  assumes "bound_step S fs L = (Inr out, L')"
  shows "\<exists>st'. s_exec S (fst (step_bindings L fs)) (snd (step_bindings L fs)) (bl_store L) = (Inr (), st') \<and>
    out = (\<lambda>n. if n \<in> set (bl_host L) then st' (Host n) else None) \<and>
    L' = L\<lparr>bl_inputs := fst (step_bindings L fs), bl_outputs := snd (step_bindings L fs), bl_store := st',
           bl_slot := 1 - bl_slot L\<rparr>"
  using assms by (auto simp: bound_step_def Let_def case_prod_beta prod_eq_iff split: sum.splits)

context io_binding
begin

text \<open>One step of the bound loop that returns is one step of the abstract one.\<close>

lemma bound_step_value:
  assumes t: "tracks S so consts fed cur L" and ok: "names_ok S so consts fed" and fs: "dom fs = fed"
    and step: "bound_step S fs L = (Inr out, L')"
  shows "\<exists>vs. s_run S (loop_inputs consts cur fs) = Inr vs \<and> out = vs |` set (bl_host L) \<and>
    tracks S so consts fed (next_state so vs) L'"
proof -
  let ?ins = "fst (step_bindings L fs)" and ?outs = "snd (step_bindings L fs)"
  note safe = step_safe [OF t ok fs]
  have so: "bl_state_outputs L = so" "distinct (map snd so)" using tracksD(1) [OF t] ok by (simp_all add: names_ok_def)
  from bound_step_returns [OF step] obtain st' where
      ran: "s_exec S ?ins ?outs (bl_store L) = (Inr (), st')"
      and out: "out = (\<lambda>n. if n \<in> set (bl_host L) then st' (Host n) else None)"
      and L'_def: "L' = L\<lparr>bl_inputs := ?ins, bl_outputs := ?outs, bl_store := st', bl_slot := 1 - bl_slot L\<rparr>"
    by blast
  from exec_value [OF safe ran] step_inputs [OF t ok fs] obtain vs where
      run: "s_run S (loop_inputs consts cur fs) = Inr vs"
      and exec: "\<And>n a. ?outs n = Some a \<Longrightarrow> st' a = vs n" "\<And>a. a \<notin> ran ?outs \<Longrightarrow> st' a = bl_store L a"
    by auto
  have host: "st' (Host n) = vs n" if "n \<in> set (bl_host L)" for n
    using that tracksD(8,9) [OF t, of n] step_bindings_outs(2) [OF so, of n fs] by (intro exec(1)) auto
  then have "out = vs |` set (bl_host L)" by (auto simp: out restrict_map_def)
  moreover have "tracks S so consts fed (next_state so vs) L'"
    unfolding tracks_def
  proof (intro conjI ballI allI impI)
    show "bl_state_outputs L' = so" "bl_slot L' \<le> 1" by (simp_all add: L'_def so)
    show "bl_host L' = filter (\<lambda>n. n \<notin> set (map snd so)) (map fst (s_outputs S))"
      using t by (simp add: L'_def tracks_def)
    have vs: "dom vs = set (map fst (s_outputs S))" using run by (rule run_outputs)
    show "dom (next_state so vs) = set (map fst so)"
    proof -
      have "n \<in> dom (next_state so vs) \<longleftrightarrow> n \<in> set (map fst so)" for n
      proof (cases "map_of so n")
        case None
        then have "n \<notin> set (map fst so)" by (simp add: map_of_eq_None_iff)
        with None show ?thesis by (simp add: next_state_def domIff)
      next
        case (Some out)
        then have "(n, out) \<in> set so" by (rule map_of_SomeD)
        moreover from this have "out \<in> dom vs" using ok vs by (force simp: names_ok_def)
        ultimately show ?thesis using Some by (auto simp: next_state_def domIff intro: rev_image_eqI)
      qed
      then show ?thesis by blast
    qed
    show "bl_store L' (State_Buf n (bl_slot L')) = next_state so vs n" if n: "n \<in> set (map fst so)" for n
    proof -
      from n obtain out where out: "(n, out) \<in> set so" by auto
      then have "map_of so n = Some out" using ok by (simp add: names_ok_def)
      with exec(1) [OF step_bindings_outs(1) [OF so out]] show ?thesis by (simp add: L'_def next_state_def)
    qed
    show "bl_inputs L' n = Some (Buffer (Resident n))" "bl_store L' (Resident n) = consts n" if n: "n \<in> dom consts" for n
    proof -
      have "n \<notin> set (map fst so)" "n \<notin> dom fs" using ok fs n by (auto simp: names_ok_def)
      then have ins: "?ins n = Some (Buffer (Resident n))"
        using tracksD(5) [OF t n] by (simp add: step_bindings_ins [OF so(1)] domIff)
      then show "bl_inputs L' n = Some (Buffer (Resident n))" by (simp add: L'_def)
      from ins have "Resident n \<notin> ran ?outs" using safe_binding_buffers(2) [OF safe] by blast
      then show "bl_store L' (Resident n) = consts n"
        using exec(2) tracksD(6) [OF t n] by (simp add: L'_def)
    qed
    show "dom (bl_inputs L') \<subseteq> dom consts \<union> fed \<union> set (map fst so)"
    proof
      fix n
      assume "n \<in> dom (bl_inputs L')"
      then obtain s where "?ins n = Some s" by (auto simp: L'_def)
      then show "n \<in> dom consts \<union> fed \<union> set (map fst so)"
        using fs tracksD(7) [OF t, of n] by (auto simp: step_bindings_ins [OF so(1)] split: if_splits option.splits)
    qed
    show "bl_outputs L' n = (if n \<in> set (bl_host L') then Some (Host n) else None)" if "n \<notin> set (map snd so)" for n
      using that tracksD(8) [OF t] step_bindings_outs(2) [OF so that, of fs] by (simp add: L'_def)
  qed
  ultimately show ?thesis using run by blast
qed

end

text \<open>On a steady provider the step returns whenever the plain run does.\<close>

context steady_io_binding
begin

lemma bound_step_runs:
  assumes t: "tracks S so consts fed cur L" and ok: "names_ok S so consts fed" and fs: "dom fs = fed"
    and run: "s_run S (loop_inputs consts cur fs) = Inr vs"
  shows "\<exists>out L'. bound_step S fs L = (Inr out, L')"
proof -
  from exec_runs [OF step_safe [OF t ok fs]] run step_inputs [OF t ok fs] obtain st' where
    "s_exec S (fst (step_bindings L fs)) (snd (step_bindings L fs)) (bl_store L) = (Inr (), st')" by auto
  then show ?thesis by (simp add: bound_step_def Let_def case_prod_beta)
qed

end

text \<open>
  A session that runs one binding after another, reading every input before it writes an output:
  the runtime the contract is instantiated with.  \<open>run\<close> computes a function of the inputs.
\<close>

definition sequential_session ::
  "(feeds \<Rightarrow> feeds res) \<Rightarrow> (string \<times> out_meta) list \<Rightarrow> (int list \<Rightarrow> dtype \<Rightarrow> string \<Rightarrow> int \<Rightarrow> bool) \<Rightarrow> session" where
  "sequential_session f metas alloc =
     (let run = (\<lambda>fs. bindE (f fs) (\<lambda>vs.
                   if \<forall>n \<in> set (map fst metas). vs n \<noteq> None then Inr (vs |` set (map fst metas)) else Inl RPCError))
      in \<lparr>s_run = run,
          s_exec = (\<lambda>ins outs st. case run (input_values ins st) of
             Inl e \<Rightarrow> (Inl e, st)
           | Inr vs \<Rightarrow> (Inr (), \<lambda>a. case find (\<lambda>n. outs n = Some a) (map fst metas) of
                                    None \<Rightarrow> st a | Some n \<Rightarrow> vs n)),
          s_outputs = metas, s_binding = True, s_alloc = alloc\<rparr>)"

interpretation sequential: steady_io_binding "sequential_session f metas alloc" for f metas alloc
proof
  fix ins outs st st'
  let ?S = "sequential_session f metas alloc"
  assume safe: "safe_binding ?S ins outs st" and ran: "s_exec ?S ins outs st = (Inr (), st')"
  then obtain vs where run: "s_run ?S (input_values ins st) = Inr vs"
      and st': "st' = (\<lambda>a. case find (\<lambda>n. outs n = Some a) (map fst metas) of None \<Rightarrow> st a | Some n \<Rightarrow> vs n)"
    by (auto simp: sequential_session_def Let_def split: sum.splits)
  have "st' a = vs n" if n: "outs n = Some a" for n a
  proof -
    have "n \<in> set (map fst metas)" using n safe by (auto simp: safe_binding_def sequential_session_def Let_def)
    then obtain m where m: "find (\<lambda>n. outs n = Some a) (map fst metas) = Some m" "outs m = Some a"
      using n by (metis (mono_tags, lifting) find_None_iff find_Some_iff option.exhaust)
    then have "m = n" using safe n unfolding safe_binding_def by (metis domI inj_onD)
    with m show ?thesis by (simp add: st')
  qed
  moreover have "st' a = st a" if "a \<notin> ran outs" for a
  proof -
    have "find (\<lambda>n. outs n = Some a) (map fst metas) = None"
      using that by (auto simp: find_None_iff ran_def)
    then show ?thesis by (simp add: st')
  qed
  ultimately show "\<exists>vs. s_run ?S (input_values ins st) = Inr vs \<and> (\<forall>n a. outs n = Some a \<longrightarrow> st' a = vs n) \<and>
      (\<forall>a. a \<notin> ran outs \<longrightarrow> st' a = st a)"
    using run by blast
next
  fix ins outs st vs
  assume "s_run (sequential_session f metas alloc) (input_values ins st) = Inr vs"
  then show "\<exists>st'. s_exec (sequential_session f metas alloc) ins outs st = (Inr (), st')"
    by (simp add: sequential_session_def Let_def)
next
  fix fs vs
  assume "s_run (sequential_session f metas alloc) fs = Inr vs"
  then obtain u where u: "vs = u |` set (map fst metas)" "\<forall>n \<in> set (map fst metas). u n \<noteq> None"
    by (auto simp: sequential_session_def Let_def bindE_Inr_iff split: if_splits)
  then have "set (map fst metas) \<subseteq> dom u" by (auto simp: domIff)
  then show "dom vs = set (map fst (s_outputs (sequential_session f metas alloc)))"
    by (simp add: u(1) sequential_session_def Let_def Int_absorb1)
qed

text \<open>
  A provider that accepts bindings and then refuses to run some of them, the one the feed-per-step path
  is kept for: it meets the contract without being steady.
\<close>

definition refusing_session ::
  "((string \<rightharpoonup> source) \<Rightarrow> (string \<rightharpoonup> addr) \<Rightarrow> bool) \<Rightarrow> session \<Rightarrow> session" where
  "refusing_session refuse S =
     S\<lparr>s_exec := (\<lambda>ins outs st. if refuse ins outs then (Inl RPCError, st) else s_exec S ins outs st)\<rparr>"

lemma refusing_binding:
  assumes "io_binding S"
  shows "io_binding (refusing_session refuse S)"
proof
  fix ins outs st st'
  assume "safe_binding (refusing_session refuse S) ins outs st"
    and "s_exec (refusing_session refuse S) ins outs st = (Inr (), st')"
  then have "safe_binding S ins outs st" "s_exec S ins outs st = (Inr (), st')"
    by (auto simp: refusing_session_def safe_binding_def split: if_splits)
  then show "\<exists>vs. s_run (refusing_session refuse S) (input_values ins st) = Inr vs \<and>
      (\<forall>n a. outs n = Some a \<longrightarrow> st' a = vs n) \<and> (\<forall>a. a \<notin> ran outs \<longrightarrow> st' a = st a)"
    using io_binding.exec_value [OF assms] by (simp add: refusing_session_def)
next
  fix fs vs
  assume "s_run (refusing_session refuse S) fs = Inr vs"
  then show "dom vs = set (map fst (s_outputs (refusing_session refuse S)))"
    using io_binding.run_outputs [OF assms] by (simp add: refusing_session_def)
qed

interpretation refusing: io_binding "refusing_session refuse (sequential_session f metas alloc)"
  for refuse f metas alloc
  by (rule refusing_binding) (rule sequential.io_binding_axioms)

section \<open>The loop bind\_loop sets up\<close>

definition state_outputs :: "(string \<times> string \<times> ndarray) list \<Rightarrow> (string \<times> string) list" where
  "state_outputs state = map (\<lambda>(name, out, _). (name, out)) state"

definition initial_values :: "(string \<times> string \<times> ndarray) list \<Rightarrow> feeds" where
  "initial_values state = (\<lambda>n. map_option (\<lambda>(_, value). ascontiguousarray value) (map_of state n))"

lemma bind_loop_fields:
  assumes "bind_loop has_ort S providers constants state = Some L"
  shows "bl_inputs L = (\<lambda>n. if n \<in> set (map fst constants) then Some (Buffer (Resident n)) else None)"
    and "bl_outputs L = (\<lambda>n. if n \<in> set (bl_host L) then Some (Host n) else None)"
    and "bl_store L = initial_store constants state" and "bl_state_outputs L = state_outputs state"
    and "bl_host L = filter (\<lambda>n. n \<notin> set (map snd (state_outputs state))) (map fst (s_outputs S))"
    and "bl_slot L = 0"
    and "e \<in> set state \<Longrightarrow> state_bindable S (binding_device providers) (map_of (s_outputs S)) e"
  using assms unfolding bind_loop_def Let_def state_outputs_def by (auto split: if_splits)

lemma bind_loop_tracks:
  assumes "bind_loop has_ort S providers constants state = Some L"
  shows "tracks S (state_outputs state) (map_of constants) fed (initial_values state) L"
proof -
  note sel = bind_loop_fields [OF assms]
  have fst: "map fst (state_outputs state) = map fst state"
    by (auto simp: state_outputs_def)
  have "dom (initial_values state) = set (map fst state)"
    by (simp add: initial_values_def dom_def map_of_eq_None_iff)
  moreover have "bl_store L (State_Buf n (bl_slot L)) = initial_values state n" for n
    by (simp add: sel(3,6) initial_store_def initial_values_def)
  moreover have "bl_inputs L n = Some (Buffer (Resident n)) \<and> bl_store L (Resident n) = map_of constants n"
    if "n \<in> dom (map_of constants)" for n
    using that by (simp add: sel(1,3) initial_store_def dom_map_of_conv_image_fst)
  moreover have "dom (bl_inputs L) \<subseteq> dom (map_of constants) \<union> fed \<union> set (map fst state)"
    by (auto simp: sel(1) dom_map_of_conv_image_fst split: if_splits)
  moreover have "bl_outputs L n = (if n \<in> set (bl_host L) then Some (Host n) else None)" for n
    by (simp only: sel(2))
  ultimately show ?thesis
    unfolding tracks_def fst using sel(4,5,6) by simp
qed

text \<open>A rank-0 state tensor whose output is declared with rank 0 too is never bound: its contiguous array has rank 1.\<close>

lemma scalar_state_declined:
  assumes "(name, out, value) \<in> set state" and "nd_shape value = []"
    and "map_of (s_outputs S) out = Some meta" and "om_shape meta = Some []"
  shows "bind_loop has_ort S providers constants state = None"
proof (cases "bind_loop has_ort S providers constants state")
  case (Some L)
  from bind_loop_fields(7) [OF Some assms(1)] assms(2-4) show ?thesis
    by (auto simp: state_bindable_def static_output_spec_def ascontiguousarray_def Let_def split: option.splits)
qed

text \<open>
  A run of several steps with the outputs it fetches, and its specification: the session's function
  iterated on the state.
\<close>

fun run_steps :: "session \<Rightarrow> feeds list \<Rightarrow> (bound_loop, feeds list) st" where
  "run_steps S [] = ret []"
| "run_steps S (fs # fss) = bnd (bound_step S fs) (\<lambda>out. bnd (run_steps S fss) (\<lambda>outs. ret (out # outs)))"

definition host_names :: "session \<Rightarrow> (string \<times> string) list \<Rightarrow> string list" where
  "host_names S so = filter (\<lambda>n. n \<notin> set (map snd so)) (map fst (s_outputs S))"

fun pure_steps ::
  "session \<Rightarrow> (string \<times> string) list \<Rightarrow> feeds \<Rightarrow> feeds list \<Rightarrow> feeds \<Rightarrow> (feeds list \<times> feeds) res" where
  "pure_steps S so consts [] cur = Inr ([], cur)"
| "pure_steps S so consts (fs # fss) cur =
     bindE (s_run S (loop_inputs consts cur fs)) (\<lambda>vs.
     bindE (pure_steps S so consts fss (next_state so vs)) (\<lambda>(outs, final).
     Inr (vs |` set (host_names S so) # outs, final)))"

lemma bound_state_tracks:
  assumes "tracks S so consts fed cur L"
  shows "bound_state L = cur"
proof
  fix x
  show "bound_state L x = cur x"
    using tracksD(1,3) [OF assms] tracksD(4) [OF assms, of x]
    by (cases "x \<in> set (map fst so)") (simp_all add: bound_state_def, metis domIff)
qed

lemma host_tracks: "tracks S so consts fed cur L \<Longrightarrow> bl_host L = host_names S so"
  by (simp add: tracks_def host_names_def)

context io_binding
begin

lemma run_steps_pure:
  assumes "tracks S so consts fed cur L" and "names_ok S so consts fed" and "\<forall>fs \<in> set fss. dom fs = fed"
    and "run_steps S fss L = (Inr outs, L')"
  shows "\<exists>final. pure_steps S so consts fss cur = Inr (outs, final) \<and> tracks S so consts fed final L'"
  using assms
proof (induction fss arbitrary: cur L outs)
  case (Cons fs fss)
  have fs: "dom fs = fed" using Cons.prems(3) by simp
  from Cons.prems(4) obtain out outs1 L1 where step: "bound_step S fs L = (Inr out, L1)"
      and rest: "run_steps S fss L1 = (Inr outs1, L')" and outs: "outs = out # outs1"
    by (auto simp: bnd_def ret_def split: prod.splits sum.splits)
  from bound_step_value [OF Cons.prems(1,2) fs step] obtain vs where
      vs: "s_run S (loop_inputs consts cur fs) = Inr vs" "out = vs |` set (bl_host L)"
        "tracks S so consts fed (next_state so vs) L1"
    by blast
  with Cons.IH [OF vs(3) Cons.prems(2) _ rest] Cons.prems(3) show ?case
    by (auto simp: outs host_tracks [OF Cons.prems(1)])
qed (simp add: ret_run)

end

context steady_io_binding
begin

lemma pure_steps_run:
  assumes "tracks S so consts fed cur L" and "names_ok S so consts fed" and "\<forall>fs \<in> set fss. dom fs = fed"
    and "pure_steps S so consts fss cur = Inr (outs, final)"
  shows "\<exists>outs' L'. run_steps S fss L = (Inr outs', L')"
  using assms
proof (induction fss arbitrary: cur L outs)
  case (Cons fs fss)
  have fs: "dom fs = fed" using Cons.prems(3) by simp
  from Cons.prems(4) obtain vs outs1 where vs: "s_run S (loop_inputs consts cur fs) = Inr vs"
      "pure_steps S so consts fss (next_state so vs) = Inr (outs1, final)"
    by (auto simp: bindE_Inr_iff)
  from bound_step_runs [OF Cons.prems(1,2) fs vs(1)] obtain out L1 where
    step: "bound_step S fs L = (Inr out, L1)" by blast
  with bound_step_value [OF Cons.prems(1,2) fs step] vs(1) have "tracks S so consts fed (next_state so vs) L1"
    by simp
  from Cons.IH [OF this Cons.prems(2) _ vs(2)] Cons.prems(3) step show ?case
    by (auto simp: bnd_def ret_def)
qed (simp add: ret_run)

end

section \<open>Properties\<close>

text \<open>
  C20.  The device-resident loop is the plain loop: on a runtime that keeps the binding contract, whose
  bound runs may fail at any step, a loop \<open>bind_loop\<close> set up and driven through any sequence of steps
  that returns has fetched the outputs and reached the state obtained by applying the session's
  function to the constants, the state and the feeds step by step (so it fails when that does), and on
  a provider that runs every binding whose plain run returns it does return.
\<close>

theorem bound_loop_refines:
  assumes "io_binding S" and "bind_loop has_ort S providers constants state = Some L"
    and "names_ok S (state_outputs state) (map_of constants) fed" and "\<forall>fs \<in> set fss. dom fs = fed"
  shows "(\<forall>outs L'. run_steps S fss L = (Inr outs, L') \<longrightarrow>
            pure_steps S (state_outputs state) (map_of constants) fss (initial_values state) = Inr (outs, bound_state L')) \<and>
         (steady_io_binding S \<longrightarrow> (\<forall>outs final.
            pure_steps S (state_outputs state) (map_of constants) fss (initial_values state) = Inr (outs, final) \<longrightarrow>
            (\<exists>L'. run_steps S fss L = (Inr outs, L') \<and> bound_state L' = final)))"
proof -
  note t = bind_loop_tracks [OF assms(2), of fed]
  have sound: "pure_steps S (state_outputs state) (map_of constants) fss (initial_values state) =
      Inr (outs, bound_state L')" if "run_steps S fss L = (Inr outs, L')" for outs L'
    using io_binding.run_steps_pure [OF assms(1) t assms(3,4) that] bound_state_tracks by blast
  moreover have "\<exists>L'. run_steps S fss L = (Inr outs, L') \<and> bound_state L' = final"
    if "steady_io_binding S"
      and "pure_steps S (state_outputs state) (map_of constants) fss (initial_values state) = Inr (outs, final)"
    for outs final
    using steady_io_binding.pure_steps_run [OF that(1) t assms(3,4) that(2)] sound that(2) by fastforce
  ultimately show ?thesis by blast
qed

text \<open>
  C21.  Ping-pong: before every step of such a loop, whatever steps were taken before, no buffer the step
  writes is one it reads or is shared by two outputs, every output is bound, and every buffer read
  has been written.
\<close>

theorem ping_pong_disjoint:
  assumes "io_binding S" and "bind_loop has_ort S providers constants state = Some L"
    and "names_ok S (state_outputs state) (map_of constants) fed" and "\<forall>fs' \<in> set (fs # fss). dom fs' = fed"
    and "run_steps S fss L = (Inr outs, L')"
  shows "safe_binding S (fst (step_bindings L' fs)) (snd (step_bindings L' fs)) (bl_store L')"
proof -
  have fss: "\<forall>fs \<in> set fss. dom fs = fed" using assms(4) by simp
  from io_binding.run_steps_pure [OF assms(1) bind_loop_tracks [OF assms(2)] assms(3) fss assms(5)]
  obtain cur where "tracks S (state_outputs state) (map_of constants) fed cur L'" by blast
  from step_safe [OF this assms(3)] assms(4) show ?thesis by simp
qed

text \<open>A session with one state tensor of shape (1,) and a scalar loss, on a steady provider.\<close>

definition ex_scalar :: "real \<Rightarrow> ndarray" where
  "ex_scalar v = \<lparr>nd_shape = [], nd_dtype = Float32, nd_data = [v]\<rparr>"

definition ex_vector :: "real \<Rightarrow> ndarray" where
  "ex_vector v = \<lparr>nd_shape = [1], nd_dtype = Float32, nd_data = [v]\<rparr>"

definition ex_session :: session where
  "ex_session = sequential_session
     (\<lambda>fs. case (fs ''w'', fs ''lr'') of
        (Some w, Some lr) \<Rightarrow>
           Inr [''w_next'' \<mapsto> ex_vector (hd (nd_data w) - hd (nd_data lr)), ''loss'' \<mapsto> ex_scalar (hd (nd_data w))]
      | _ \<Rightarrow> Inl RPCError)
     [(''w_next'', \<lparr>om_type = Some ''tensor(float)'', om_shape = Some [Dim_Int 1]\<rparr>),
      (''loss'', \<lparr>om_type = Some ''tensor(float)'', om_shape = Some []\<rparr>)]
     (\<lambda>_ _ _ _. True)"

definition ex_loop :: bound_loop where
  "ex_loop = the (bind_loop True ex_session None [] [(''w'', ''w_next'', ex_vector 5)])"

lemma ex_loop_bound: "bind_loop True ex_session None [] [(''w'', ''w_next'', ex_vector 5)] = Some ex_loop"
  by (simp add: ex_loop_def bind_loop_def ex_session_def sequential_session_def Let_def state_bindable_def
      host_bindable_def static_output_spec_def ORT_TYPE_TO_NUMPY_def ex_scalar_def ex_vector_def binding_device_def
      ascontiguousarray_def)

lemma ex_session_steady: "steady_io_binding ex_session"
  unfolding ex_session_def by (rule sequential.steady_io_binding_axioms)

lemma ex_session_binding: "io_binding ex_session"
  unfolding ex_session_def by (rule sequential.io_binding_axioms)

lemma ex_names: "names_ok ex_session (state_outputs [(''w'', ''w_next'', ex_vector 5)]) (map_of []) {''lr''}"
  by (simp add: names_ok_def state_outputs_def ex_session_def sequential_session_def Let_def)

lemma ex_pure:
  "pure_steps ex_session (state_outputs [(''w'', ''w_next'', ex_vector 5)]) (map_of [])
     [[''lr'' \<mapsto> ex_scalar 2], [''lr'' \<mapsto> ex_scalar 1]] (initial_values [(''w'', ''w_next'', ex_vector 5)]) =
   Inr ([[''loss'' \<mapsto> ex_scalar 5], [''loss'' \<mapsto> ex_scalar 3]], [''w'' \<mapsto> ex_vector 2])"
  by (auto simp: ex_session_def sequential_session_def Let_def loop_inputs_def initial_values_def state_outputs_def
      next_state_def ex_scalar_def ex_vector_def ascontiguousarray_def host_names_def restrict_map_def)

theorem bound_loop_refines_witness:
  "\<exists>L'. run_steps ex_session [[''lr'' \<mapsto> ex_scalar 2], [''lr'' \<mapsto> ex_scalar 1]] ex_loop =
       (Inr [[''loss'' \<mapsto> ex_scalar 5], [''loss'' \<mapsto> ex_scalar 3]], L') \<and>
     bound_state L' = [''w'' \<mapsto> ex_vector 2]"
  using bound_loop_refines [OF ex_session_binding ex_loop_bound ex_names,
      of "[[''lr'' \<mapsto> ex_scalar 2], [''lr'' \<mapsto> ex_scalar 1]]"] ex_session_steady
  unfolding ex_pure by simp

theorem ping_pong_disjoint_witness:
  "safe_binding ex_session (fst (step_bindings ex_loop [''lr'' \<mapsto> ex_scalar 2]))
     (snd (step_bindings ex_loop [''lr'' \<mapsto> ex_scalar 2])) (bl_store ex_loop)"
  by (rule ping_pong_disjoint [OF ex_session_binding ex_loop_bound ex_names, where fss = "[]"])
    (simp_all add: ret_run)

end
