(* ===== verification/Step_Graph.thy ===== *)
theory Step_Graph
  imports Bound_Loop Graph_Builder "HOL-Library.Char_ord" "HOL-Library.List_Lexorder"
begin

text \<open>
  Step graphs, \<open>onnxsim/qat_graph.py\<close>: \<open>make_step_graph\<close> wraps a builder into a model whose inputs and
  outputs close a training loop; \<open>run_step_graph\<close> drives it, through the device-resident loop of
  \<open>Bound_Loop\<close> when that can be set up and works, feed by feed otherwise.  The inliner of onnx and
  the simplifier are parameters.
\<close>

section \<open>make\_step\_graph\<close>

record value_info =
  vi_name :: string
  vi_type :: int
  vi_shape :: shape

record model =
  mo_nodes :: "node list"
  mo_name :: string
  mo_inputs :: "value_info list"
  mo_outputs :: "value_info list"
  mo_initializer :: "tensor list"
  mo_opsets :: "(string \<times> int) list"
  mo_functions :: "func list"
  mo_ir :: int

record model_tools =
  inline_functions :: "model \<Rightarrow> model"
  simplify_model :: "model \<Rightarrow> model"

record step_graph =
  sg_model :: model
  sg_state :: "(string \<times> string) list"
  sg_loss :: "string option"

definition OPSET :: int where "OPSET = 17"
definition IR_VERSION :: int where "IR_VERSION = 8"

definition float_info :: "string \<Rightarrow> shape \<Rightarrow> value_info" where
  "float_info n sh = \<lparr>vi_name = n, vi_type = TP_FLOAT, vi_shape = sh\<rparr>"

definition typed_info :: "string \<times> shape \<times> int \<Rightarrow> value_info" where
  "typed_info e = (case e of (n, sh, ty) \<Rightarrow> \<lparr>vi_name = n, vi_type = ty, vi_shape = sh\<rparr>)"

definition step_inputs_info ::
  "(string \<times> shape \<times> int) list \<Rightarrow> (string \<times> shape \<times> string) list \<Rightarrow> string list
     \<Rightarrow> (string \<times> shape \<times> int) list option \<Rightarrow> value_info list" where
  "step_inputs_info constants state scalars per_step =
     map typed_info constants @ map (\<lambda>(n, sh, _). float_info n sh) state @
     map (\<lambda>n. float_info n []) scalars @
     (case per_step of None \<Rightarrow> [] | Some ps \<Rightarrow> map typed_info ps)"

definition step_outputs_info ::
  "(string \<times> shape \<times> string) list \<Rightarrow> string option \<Rightarrow> shape \<Rightarrow> value_info list" where
  "step_outputs_info state loss loss_shape =
     map (\<lambda>(_, sh, out). float_info out sh) state @
     (case loss of None \<Rightarrow> [] | Some l \<Rightarrow> [float_info l loss_shape])"

definition step_opsets :: "func list \<Rightarrow> (string \<times> int) list" where
  "step_opsets fns =
     ('''', OPSET) # (if fns = [] then [] else map (\<lambda>d. (d, 1)) (sorted_list_of_set (f_domain ` set fns)))"

definition make_step_graph ::
  "model_tools \<Rightarrow> builder \<Rightarrow> (string \<times> shape \<times> int) list \<Rightarrow> (string \<times> shape \<times> string) list \<Rightarrow> string list
     \<Rightarrow> string option \<Rightarrow> shape \<Rightarrow> string \<Rightarrow> (string \<times> shape \<times> int) list option \<Rightarrow> bool \<Rightarrow> step_graph" where
  "make_step_graph T b constants state scalars loss loss_shape name per_step simplify =
     (let raw = \<lparr>mo_nodes = b_nodes b, mo_name = name,
                 mo_inputs = step_inputs_info constants state scalars per_step,
                 mo_outputs = step_outputs_info state loss loss_shape,
                 mo_initializer = b_initializer b, mo_opsets = step_opsets (b_functions b),
                 mo_functions = b_functions b, mo_ir = IR_VERSION\<rparr>;
          inlined = (if b_functions b \<noteq> [] then inline_functions T raw else raw);
          final = (if simplify then simplify_model T inlined else inlined)
      in \<lparr>sg_model = final, sg_state = map (\<lambda>(n, _, out). (n, out)) state, sg_loss = loss\<rparr>)"

section \<open>run\_step\_graph\<close>

fun is_floating :: "dtype \<Rightarrow> bool" where
  "is_floating Float16 = True"
| "is_floating Float32 = True"
| "is_floating Float64 = True"
| "is_floating _ = False"

definition to_float32 :: "ext \<Rightarrow> ndarray \<Rightarrow> ndarray" where
  "to_float32 E v = v\<lparr>nd_dtype := Float32, nd_data := map (f32 E) (nd_data v)\<rparr>"

definition as_constant :: "ext \<Rightarrow> ndarray \<Rightarrow> ndarray" where
  "as_constant E v = (if is_floating (nd_dtype v) then to_float32 E v else v)"

text \<open>\<open>Runner.__call__\<close>: the requested outputs, by name.\<close>

definition runner_call :: "session \<Rightarrow> string list \<Rightarrow> feeds \<Rightarrow> feeds res" where
  "runner_call S names ins =
     bindE (s_run S ins) (\<lambda>vs.
     bindE (mapE (\<lambda>n. case vs n of None \<Rightarrow> Inl ValueError | Some v \<Rightarrow> Inr v) names) (\<lambda>outs.
     Inr (map_of (zip names outs))))"

text \<open>\<open>float(np.asarray(v).reshape(-1)[0])\<close>, and \<open>float(v)\<close>, which wants a single element.\<close>

definition first_element :: "ndarray \<Rightarrow> real res" where
  "first_element v = (case nd_data v of [] \<Rightarrow> Inl IndexError | x # _ \<Rightarrow> Inr x)"

definition only_element :: "ndarray \<Rightarrow> real res" where
  "only_element v = (case nd_data v of [x] \<Rightarrow> Inr x | _ \<Rightarrow> Inl TypeError)"

definition fetched :: "feeds \<Rightarrow> string \<Rightarrow> ndarray res" where
  "fetched out n = (case out n of None \<Rightarrow> Inl KeyError | Some v \<Rightarrow> Inr v)"

text \<open>\<open>_run_bound_loop\<close>: \<open>Inr None\<close> when a step refused to run.  A callback's own exception escapes.\<close>

fun run_bound_loop ::
  "session \<Rightarrow> string option \<Rightarrow> (nat \<Rightarrow> feeds res) \<Rightarrow> nat list \<Rightarrow> real list \<Rightarrow> bound_loop
     \<Rightarrow> (feeds \<times> real list) option res" where
  "run_bound_loop S want step_feeds [] collected L = Inr (Some (bound_state L, collected))"
| "run_bound_loop S want step_feeds (t # ts) collected L =
     bindE (step_feeds t) (\<lambda>fs.
     case bound_step S fs L of
       (Inl e, _) \<Rightarrow> Inr None
     | (Inr out, L') \<Rightarrow>
         (case want of
            None \<Rightarrow> run_bound_loop S want step_feeds ts collected L'
          | Some l \<Rightarrow>
              bindE (bindE (fetched out l) first_element) (\<lambda>x.
              run_bound_loop S want step_feeds ts (collected @ [x]) L')))"

text \<open>The feed-per-step loop; the losses list is the caller's, extended as the loop goes.\<close>

fun run_unbound ::
  "session \<Rightarrow> string list \<Rightarrow> (string \<times> string) list \<Rightarrow> feeds \<Rightarrow> string option \<Rightarrow> (nat \<Rightarrow> feeds res)
     \<Rightarrow> nat list \<Rightarrow> feeds \<Rightarrow> (real list, feeds) st" where
  "run_unbound S fetch so fixed want step_feeds [] current = ret current"
| "run_unbound S fetch so fixed want step_feeds (t # ts) current =
     bnd (lift (step_feeds t)) (\<lambda>fs.
     bnd (lift (runner_call S fetch ((fixed ++ current) ++ fs))) (\<lambda>out.
     bnd (lift (mapE (\<lambda>(n, o'). bindE (fetched out o') (\<lambda>v. Inr (n, v))) so)) (\<lambda>new.
     bnd (case want of None \<Rightarrow> ret ()
          | Some l \<Rightarrow> bnd (lift (bindE (fetched out l) only_element)) (\<lambda>x losses. (Inr (), losses @ [x]))) (\<lambda>_.
     run_unbound S fetch so fixed want step_feeds ts (map_of new)))))"

definition step_feeds_of ::
  "ext \<Rightarrow> (nat \<Rightarrow> (string \<rightharpoonup> real) res) option \<Rightarrow> (nat \<Rightarrow> feeds res) option \<Rightarrow> nat \<Rightarrow> feeds res" where
  "step_feeds_of E scalars feeds t =
     bindE (case scalars of None \<Rightarrow> Inr Map.empty
            | Some f \<Rightarrow> bindE (f t) (\<lambda>m. Inr (\<lambda>n. map_option
                (\<lambda>x. \<lparr>nd_shape = [], nd_dtype = Float32, nd_data = [f32 E x]\<rparr>) (m n)))) (\<lambda>values.
     bindE (case feeds of None \<Rightarrow> Inr Map.empty | Some f \<Rightarrow> f t) (\<lambda>more. Inr (values ++ more)))"

definition run_step_graph ::
  "ext \<Rightarrow> string set option \<Rightarrow> session \<Rightarrow> step_graph \<Rightarrow> (string \<times> ndarray) list \<Rightarrow> feeds \<Rightarrow> nat
     \<Rightarrow> (nat \<Rightarrow> feeds res) \<Rightarrow> provider list option \<Rightarrow> bool \<Rightarrow> bool \<Rightarrow> (real list, feeds) st" where
  "run_step_graph E available S step constants state num_steps step_feeds providers want_losses use_binding losses =
     (let so = sg_state step;
          want = (if want_losses then sg_loss step else None);
          fetch = map snd so @ (case want of None \<Rightarrow> [] | Some l \<Rightarrow> [l]);
          fixed = map (\<lambda>(k, v). (k, as_constant E v)) constants;
          initial = (\<lambda>k. map_option (to_float32 E) (state k));
          unbound = run_unbound S fetch so (map_of fixed) want step_feeds [0..<num_steps] initial;
          loop = (if use_binding \<and> set (map fst so) \<subseteq> dom initial
                  then bind_loop (available \<noteq> None) S providers fixed
                         (map (\<lambda>(n, out). (n, out, the (initial n))) so)
                  else None)
      in case validate_providers available
                (if available \<noteq> None \<and> providers = None then Some [Bare ''CPUExecutionProvider''] else providers) of
           Inl e \<Rightarrow> (Inl e, losses)
         | Inr _ \<Rightarrow>
            (case loop of
               None \<Rightarrow> unbound losses
             | Some L \<Rightarrow>
                 (case run_bound_loop S want step_feeds [0..<num_steps] [] L of
                    Inl e \<Rightarrow> (Inl e, losses)
                  | Inr None \<Rightarrow> unbound losses
                  | Inr (Some (final, collected)) \<Rightarrow> (Inr final, losses @ collected))))"

section \<open>The two loops agree\<close>

lemma fetched_zip:
  assumes "\<forall>n \<in> set names. vs n \<noteq> None"
  shows "mapE (\<lambda>n. case vs n of None \<Rightarrow> Inl ValueError | Some v \<Rightarrow> Inr v) names = Inr (map (the \<circ> vs) names)"
    and "n \<in> set names \<Longrightarrow> fetched (map_of (zip names (map (the \<circ> vs) names))) n = Inr (the (vs n))"
proof -
  show "mapE (\<lambda>n. case vs n of None \<Rightarrow> Inl ValueError | Some v \<Rightarrow> Inr v) names = Inr (map (the \<circ> vs) names)"
    using assms by (intro mapE_total) auto
  have "zip names (map f names) = map (\<lambda>n. (n, f n)) names" for f :: "string \<Rightarrow> ndarray"
    by (induction names) auto
  then show "n \<in> set names \<Longrightarrow> fetched (map_of (zip names (map (the \<circ> vs) names))) n = Inr (the (vs n))"
    using assms by (auto simp: fetched_def map_of_map_restrict restrict_map_def)
qed

lemma next_state_of:
  assumes "distinct (map fst so)" and "\<forall>n \<in> set (map snd so). vs n \<noteq> None"
  shows "map_of (map (\<lambda>(n, o'). (n, the (vs o'))) so) = next_state so vs"
proof
  fix x
  show "map_of (map (\<lambda>(n, o'). (n, the (vs o'))) so) x = next_state so vs x"
  proof (cases "map_of so x")
    case None
    then have "x \<notin> fst ` set so" by (simp add: map_of_eq_None_iff)
    then have "map_of (map (\<lambda>(n, o'). (n, the (vs o'))) so) x = None"
      by (simp add: map_of_eq_None_iff image_image case_prod_beta)
    with None show ?thesis by (simp add: next_state_def)
  next
    case (Some out)
    then have "(x, out) \<in> set so" by (rule map_of_SomeD)
    moreover from this have "(x, the (vs out)) \<in> set (map (\<lambda>(n, o'). (n, the (vs o'))) so)" by force
    moreover have "distinct (map fst (map (\<lambda>(n, o'). (n, the (vs o'))) so))"
      using assms(1) by (simp add: comp_def case_prod_beta)
    ultimately show ?thesis
      using assms(2) Some by (force simp: next_state_def dest: map_of_is_SomeI)
  qed
qed

text \<open>
  What the agreement rests on, besides the runtime's contract: distinct names, callbacks that return
  and always feed the same inputs, a loss that is an output of its own and has one element.
\<close>

definition loss_ok :: "session \<Rightarrow> (string \<times> string) list \<Rightarrow> string option \<Rightarrow> bool" where
  "loss_ok S so want \<longleftrightarrow>
     (\<forall>l. want = Some l \<longrightarrow> l \<in> set (map fst (s_outputs S)) - set (map snd so) \<and>
        (\<forall>fs vs. s_run S fs = Inr vs \<longrightarrow> (\<exists>x. nd_data (the (vs l)) = [x])))"

text \<open>
  A bound loop that runs to its end reaches what the plain loop reaches; one that refuses a step
  reports no result, whatever the plain loop does.
\<close>

definition loops_agree :: "real list \<Rightarrow> real list \<Rightarrow> feeds res \<times> real list \<Rightarrow> (feeds \<times> real list) option res \<Rightarrow> bool" where
  "loops_agree losses collected plain resident \<longleftrightarrow> resident = Inr None \<or>
     (\<exists>final new. plain = (Inr final, losses @ new) \<and> resident = Inr (Some (final, collected @ new)))"

lemma loops_agree_app: "loops_agree (losses @ xs) (collected @ xs) p b \<Longrightarrow> loops_agree losses collected p b"
  unfolding loops_agree_def by fastforce

lemma run_loops_agree:
  assumes S: "io_binding S" and ok: "names_ok S so consts fed" and loss: "loss_ok S so want"
    and fetch: "fetch = map snd so @ (case want of None \<Rightarrow> [] | Some l \<Rightarrow> [l])"
    and t: "tracks S so consts fed cur L" and feeds: "\<forall>t \<in> set ts. \<exists>fs. step_feeds t = Inr fs \<and> dom fs = fed"
  shows "loops_agree losses collected (run_unbound S fetch so consts want step_feeds ts cur losses)
           (run_bound_loop S want step_feeds ts collected L)"
  using t feeds
proof (induction ts arbitrary: cur L losses collected)
  case Nil
  then show ?case by (simp add: ret_run bound_state_tracks loops_agree_def)
next
  case (Cons t ts)
  obtain fs where fs: "step_feeds t = Inr fs" "dom fs = fed" using Cons.prems(2) by auto
  have inputs: "(consts ++ cur) ++ fs = loop_inputs consts cur fs" by (simp add: loop_inputs_def)
  show ?case
  proof (cases "fst (bound_step S fs L)")
    case (Inl e)
    then show ?thesis using fs(1) by (auto simp: loops_agree_def split: prod.splits)
  next
    case (Inr res)
    then obtain L1 where step: "bound_step S fs L = (Inr res, L1)" by (cases "bound_step S fs L") auto
    from io_binding.bound_step_value [OF S Cons.prems(1) ok fs(2) step] obtain vs where
        run: "s_run S (loop_inputs consts cur fs) = Inr vs" and res: "res = vs |` set (bl_host L)"
        and L1: "tracks S so consts fed (next_state so vs) L1"
      by blast
    have vs: "dom vs = set (map fst (s_outputs S))" using io_binding.run_outputs [OF S run] .
    have "set (map snd so) \<subseteq> dom vs" using ok vs by (simp add: names_ok_def)
    then have so: "\<forall>n \<in> set (map snd so). vs n \<noteq> None" by (auto simp: domIff)
    have "\<forall>l. want = Some l \<longrightarrow> vs l \<noteq> None" using loss vs by (auto simp: loss_ok_def domIff)
    with so have all: "\<forall>n \<in> set fetch. vs n \<noteq> None" by (auto simp: fetch split: option.splits)
    define out where "out = map_of (zip fetch (map (the \<circ> vs) fetch))"
    have call: "runner_call S fetch (loop_inputs consts cur fs) = Inr out"
      by (simp add: runner_call_def run fetched_zip(1) [OF all] out_def)
    have got: "fetched out n = Inr (the (vs n))" if "n \<in> set fetch" for n
      unfolding out_def using fetched_zip(2) [OF all that] .
    have new: "mapE (\<lambda>(n, o'). bindE (fetched out o') (\<lambda>v. Inr (n, v))) so = Inr (map (\<lambda>(n, o'). (n, the (vs o'))) so)"
      using got by (intro mapE_total) (force simp: fetch)
    have state: "map_of (map (\<lambda>(n, o'). (n, the (vs o'))) so) = next_state so vs"
      using ok so by (intro next_state_of) (simp_all add: names_ok_def)
    note IH = Cons.IH [OF L1]
    have ts: "\<forall>t \<in> set ts. \<exists>fs. step_feeds t = Inr fs \<and> dom fs = fed" using Cons.prems(2) by simp
    show ?thesis
    proof (cases want)
      case None
      then have u: "run_unbound S fetch so consts want step_feeds (t # ts) cur losses =
          run_unbound S fetch so consts want step_feeds ts (next_state so vs) losses"
        using fs(1) call new state by (simp add: bnd_def lift_run inputs ret_run)
      have b: "run_bound_loop S want step_feeds (t # ts) collected L =
          run_bound_loop S want step_feeds ts collected L1"
        using None step fs(1) by simp
      show ?thesis unfolding u b by (rule IH [OF ts])
    next
      case (Some l)
      have "\<exists>x. nd_data (the (vs l)) = [x]" using loss run Some by (simp add: loss_ok_def)
      then obtain x where x: "nd_data (the (vs l)) = [x]" by blast
      have "l \<in> set (bl_host L)" using loss Some tracksD(9) [OF Cons.prems(1)] by (auto simp: loss_ok_def)
      moreover have "vs l \<noteq> None" "l \<in> set fetch" using Some all by (simp_all add: fetch)
      ultimately have "fetched res l = Inr (the (vs l))" "fetched out l = Inr (the (vs l))"
        using got by (auto simp: fetched_def res)
      with x have elem: "bindE (fetched res l) first_element = Inr x" "bindE (fetched out l) only_element = Inr x"
        by (simp_all add: first_element_def only_element_def)
      then have u: "run_unbound S fetch so consts want step_feeds (t # ts) cur losses =
          run_unbound S fetch so consts want step_feeds ts (next_state so vs) (losses @ [x])"
        using Some fs(1) call new state by (simp add: bnd_def lift_run inputs ret_run)
      have b: "run_bound_loop S want step_feeds (t # ts) collected L =
          run_bound_loop S want step_feeds ts (collected @ [x]) L1"
        using Some step fs(1) elem by simp
      show ?thesis unfolding u b by (rule loops_agree_app [OF IH [OF ts]])
    qed
  qed
qed

section \<open>Properties\<close>

definition preserves_interface :: "(model \<Rightarrow> model) \<Rightarrow> bool" where
  "preserves_interface f \<longleftrightarrow> (\<forall>m. mo_inputs (f m) = mo_inputs m \<and> mo_outputs (f m) = mo_outputs m)"

lemma preserved:
  "preserves_interface f \<Longrightarrow> mo_inputs (f m) = mo_inputs m"
  "preserves_interface f \<Longrightarrow> mo_outputs (f m) = mo_outputs m"
  by (simp_all add: preserves_interface_def)

text \<open>
  C23.  The loop a step graph declares is closed: whatever nodes the builder holds, if the inliner and the
  simplifier keep a model's declared interface then the model \<open>make_step_graph\<close> returns has as inputs
  the constants under their own shapes and element types, then the state tensors as float32 under
  their own shapes, the scalars as float32 of rank 0 and the per-step inputs under their own shapes and
  types, and as outputs every state tensor's successor as float32 of the state's own shape and, when
  there is one, the loss as float32; the state it records pairs each state input with its output.
\<close>

theorem step_graph_closes_loop:
  assumes "preserves_interface (inline_functions T)" and "preserves_interface (simplify_model T)"
    and "g = make_step_graph T b constants state scalars loss loss_shape name per_step simplify"
  shows "mo_inputs (sg_model g) =
      [\<lparr>vi_name = n, vi_type = ty, vi_shape = sh\<rparr>. (n, sh, ty) \<leftarrow> constants] @
      [\<lparr>vi_name = n, vi_type = 1, vi_shape = sh\<rparr>. (n, sh, out) \<leftarrow> state] @
      [\<lparr>vi_name = n, vi_type = 1, vi_shape = []\<rparr>. n \<leftarrow> scalars] @
      [\<lparr>vi_name = n, vi_type = ty, vi_shape = sh\<rparr>. (n, sh, ty) \<leftarrow> (case per_step of None \<Rightarrow> [] | Some ps \<Rightarrow> ps)] \<and>
    mo_outputs (sg_model g) =
      [\<lparr>vi_name = out, vi_type = 1, vi_shape = sh\<rparr>. (n, sh, out) \<leftarrow> state] @
      (case loss of None \<Rightarrow> [] | Some l \<Rightarrow> [\<lparr>vi_name = l, vi_type = 1, vi_shape = loss_shape\<rparr>]) \<and>
    sg_state g = [(n, out). (n, sh, out) \<leftarrow> state] \<and> sg_loss g = loss"
proof -
  have i: "mo_inputs (sg_model g) = step_inputs_info constants state scalars per_step"
    and o: "mo_outputs (sg_model g) = step_outputs_info state loss loss_shape"
    unfolding assms(3) make_step_graph_def Let_def using preserved [OF assms(1)] preserved [OF assms(2)] by simp_all
  have s: "sg_state g = map (\<lambda>(n, _, out). (n, out)) state" and l: "sg_loss g = loss"
    unfolding assms(3) make_step_graph_def Let_def by simp_all
  show ?thesis
    unfolding i o s l
    by (auto simp: step_inputs_info_def step_outputs_info_def typed_info_def float_info_def TP_FLOAT_def
        split: option.splits)
qed

text \<open>
  A rank-0 state tensor is not fed by an output declared with shape (1,): the step-graph contract is that
  both have one shape.  Then a state that is bound starts from the value the plain loop starts from.
\<close>

definition rank_kept :: "session \<Rightarrow> (string \<times> string) list \<Rightarrow> feeds \<Rightarrow> bool" where
  "rank_kept S so state \<longleftrightarrow>
     (\<forall>(n, out) \<in> set so. \<forall>v meta. state n = Some v \<longrightarrow> map_of (s_outputs S) out = Some meta \<longrightarrow>
        nd_shape v = [] \<longrightarrow> om_shape meta \<noteq> Some [Dim_Int 1])"

lemma static_dim_Some: "static_dim d = Some n \<longleftrightarrow> d = Dim_Int n \<and> 0 \<le> n"
  by (cases d) auto

lemma bindable_contiguous:
  assumes "state_bindable S dev metadata (n, out, v)" and "\<And>meta. metadata out = Some meta \<Longrightarrow> nd_shape v = [] \<Longrightarrow>
      om_shape meta \<noteq> Some [Dim_Int 1]"
  shows "ascontiguousarray v = v"
proof (cases "nd_shape v = []")
  case True
  with assms(1) obtain meta sh where meta: "metadata out = Some meta" "om_shape meta = Some sh"
      "\<forall>d \<in> set sh. static_dim d \<noteq> None" "map (the \<circ> static_dim) sh = [1]"
    by (auto simp: state_bindable_def static_output_spec_def ascontiguousarray_def Let_def split: option.splits if_splits)
  from meta(4) obtain d where d: "sh = [d]" "the (static_dim d) = 1" by auto
  with meta(3) have "static_dim d = Some 1" by auto
  then have "om_shape meta = Some [Dim_Int 1]" using meta(2) d(1) by (simp add: static_dim_Some)
  with assms(2) [OF meta(1) True] show ?thesis by simp
qed (simp add: ascontiguousarray_def)

lemma initial_values_total:
  assumes "dom cur = set (map fst so)" and "\<And>n out v. (n, out) \<in> set so \<Longrightarrow> cur n = Some v \<Longrightarrow> ascontiguousarray v = v"
  shows "initial_values (map (\<lambda>(n, out). (n, out, the (cur n))) so) = cur"
proof
  fix x
  have m: "map_of (map (\<lambda>(n, out). (n, out, the (cur n))) so) x = map_option (\<lambda>out. (out, the (cur x))) (map_of so x)"
    by (induction so) auto
  show "initial_values (map (\<lambda>(n, out). (n, out, the (cur n))) so) x = cur x"
  proof (cases "map_of so x")
    case None
    then have "x \<notin> dom cur" using assms(1) by (simp add: map_of_eq_None_iff)
    with None m show ?thesis by (simp add: initial_values_def domIff)
  next
    case (Some out)
    then have out: "(x, out) \<in> set so" by (rule map_of_SomeD)
    then have "x \<in> dom cur" unfolding assms(1) by force
    then obtain v where v: "cur x = Some v" by blast
    with assms(2) [OF out v] m Some show ?thesis by (simp add: initial_values_def)
  qed
qed

lemma state_outputs_of: "state_outputs (map (\<lambda>(n, out). (n, out, f n)) so) = so"
  by (induction so) (auto simp: state_outputs_def)

lemma fallback_cases:
  assumes "loops_agree losses [] u r"
  shows "(case r of Inl e \<Rightarrow> (Inl e, losses) | Inr None \<Rightarrow> u
          | Inr (Some (final, collected)) \<Rightarrow> (Inr final, losses @ collected)) = u"
  using assms by (auto simp: loops_agree_def)

lemma optional_route:
  assumes "\<And>L. x = Some L \<Longrightarrow> f L = u"
  shows "(case if c then x else None of None \<Rightarrow> u | Some L \<Rightarrow> f L) = u"
  using assms by (cases x) simp_all

text \<open>
  C22.  Device residency is transparent: on a runtime that keeps the binding contract, whose bound runs may
  fail where the plain ones do not, \<open>run_step_graph\<close> returns the same final state, or the same error, and
  the same losses whether \<open>bind_state\<close> is on or off, also when the binding cannot be set up or fails half
  way through the loop, for a step graph with distinct names, callbacks that return and always feed the
  same inputs, a single-element loss, and state outputs of the rank of their inputs.
\<close>

theorem binding_transparent:
  assumes "io_binding S" and "names_ok S (sg_state step) (map_of constants) fed"
    and "loss_ok S (sg_state step) (if want_losses then sg_loss step else None)"
    and "\<forall>t < num_steps. \<exists>fs. step_feeds t = Inr fs \<and> dom fs = fed"
    and "dom state = set (map fst (sg_state step))" and "rank_kept S (sg_state step) state"
  shows "run_step_graph E available S step constants state num_steps step_feeds providers want_losses True losses =
         run_step_graph E available S step constants state num_steps step_feeds providers want_losses False losses"
proof -
  let ?so = "sg_state step" and ?want = "if want_losses then sg_loss step else None"
  let ?fixed = "map (\<lambda>(k, v). (k, as_constant E v)) constants"
  let ?init = "\<lambda>k. map_option (to_float32 E) (state k)"
  let ?triples = "map (\<lambda>(n, out). (n, out, the (?init n))) ?so"
  let ?fetch = "map snd ?so @ (case ?want of None \<Rightarrow> [] | Some l \<Rightarrow> [l])"
  let ?unbound = "run_unbound S ?fetch ?so (map_of ?fixed) ?want step_feeds [0..<num_steps] ?init"
  have names: "names_ok S ?so (map_of ?fixed) fed"
    using assms(2) by (simp add: names_ok_def dom_map_of_conv_image_fst image_image case_prod_beta)
  have dom: "dom ?init = set (map fst ?so)" using assms(5) by (auto simp: dom_def)
  have agree: "(case run_bound_loop S ?want step_feeds [0..<num_steps] [] L of
        Inl e \<Rightarrow> (Inl e, losses) | Inr None \<Rightarrow> ?unbound losses
      | Inr (Some (final, collected)) \<Rightarrow> (Inr final, losses @ collected)) = ?unbound losses"
    if L: "bind_loop h S providers ?fixed ?triples = Some L" for h L
  proof -
    have "ascontiguousarray v = v" if n: "(n, out) \<in> set ?so" and v: "?init n = Some v" for n out v
    proof (rule bindable_contiguous)
      from n v show "state_bindable S (binding_device providers) (map_of (s_outputs S)) (n, out, v)"
        using bind_loop_fields(7) [OF L, of "(n, out, the (?init n))"] by force
      fix meta
      assume "map_of (s_outputs S) out = Some meta" "nd_shape v = []"
      with n v assms(6) show "om_shape meta \<noteq> Some [Dim_Int 1]"
        by (fastforce simp: rank_kept_def to_float32_def)
    qed
    from initial_values_total [OF dom this] have t: "tracks S ?so (map_of ?fixed) fed ?init L"
      using bind_loop_tracks [OF L, where fed = fed] unfolding state_outputs_of by simp
    have "\<forall>t \<in> set [0..<num_steps]. \<exists>fs. step_feeds t = Inr fs \<and> dom fs = fed" using assms(4) by simp
    from run_loops_agree [OF assms(1) names assms(3) refl t this, where losses = losses and collected = "[]"]
    show ?thesis by (rule fallback_cases)
  qed
  show ?thesis
  proof (cases "validate_providers available
      (if available \<noteq> None \<and> providers = None then Some [Bare ''CPUExecutionProvider''] else providers)")
    case (Inl e)
    then show ?thesis unfolding run_step_graph_def Let_def by (simp only: sum.case)
  next
    case (Inr _)
    have off: "run_step_graph E available S step constants state num_steps step_feeds providers want_losses False losses =
        ?unbound losses"
      unfolding run_step_graph_def Let_def Inr by (simp only: sum.case simp_thms if_False option.case)
    show ?thesis
      unfolding off unfolding run_step_graph_def Let_def Inr
      by (simp only: sum.case, rule optional_route, rule agree)
  qed
qed

definition ex_step_ext :: ext where
  "ex_step_ext = \<lparr>f32 = (\<lambda>v. v), np_broadcast = (\<lambda>_ _. Inl ValueError)\<rparr>"

definition ex_tools :: model_tools where
  "ex_tools = \<lparr>inline_functions = (\<lambda>m. m\<lparr>mo_functions := []\<rparr>), simplify_model = (\<lambda>m. m)\<rparr>"

definition ex_step_graph :: step_graph where
  "ex_step_graph = make_step_graph ex_tools (new_builder ''sg'') [(''x'', [DInt 4, DInt 2], 1)] [(''w'', [DInt 1], ''w_next'')] [''lr'']
     (Some ''loss'') [] ''onnxsim_step'' (Some [(''rows'', [DInt 2], 7)]) True"

theorem step_graph_closes_loop_witness:
  "map vi_name (mo_inputs (sg_model ex_step_graph)) = [''x'', ''w'', ''lr'', ''rows''] \<and>
   map vi_type (mo_inputs (sg_model ex_step_graph)) = [1, 1, 1, 7] \<and>
   map vi_shape (mo_inputs (sg_model ex_step_graph)) = [[DInt 4, DInt 2], [DInt 1], [], [DInt 2]] \<and>
   map vi_name (mo_outputs (sg_model ex_step_graph)) = [''w_next'', ''loss'']"
  using step_graph_closes_loop [OF _ _ ex_step_graph_def]
  by (simp add: ex_tools_def preserves_interface_def)

text \<open>
  The session refuses a binding that reads the second of the two buffers: the first bound step works, the
  second fails, and the loop is run again feed by feed.
\<close>

definition ex_step :: step_graph where
  "ex_step = make_step_graph ex_tools (new_builder ''sg'') [] [(''w'', [DInt 1], ''w_next'')] [''lr'']
     (Some ''loss'') [] ''onnxsim_step'' None True"

lemma ex_sg: "sg_state ex_step = [(''w'', ''w_next'')]" "sg_loss ex_step = Some ''loss''"
  by (simp_all add: ex_step_def make_step_graph_def Let_def)

definition ex_refusing :: session where
  "ex_refusing = refusing_session (\<lambda>ins outs. ins ''w'' = Some (Buffer (State_Buf ''w'' 1))) ex_session"

lemma ex_loss_ok: "loss_ok ex_refusing [(''w'', ''w_next'')] (Some ''loss'')"
  by (auto simp: loss_ok_def ex_refusing_def refusing_session_def ex_session_def sequential_session_def Let_def
      ex_scalar_def bindE_def split: option.splits sum.splits if_splits)

lemma ex_unbound:
  "run_step_graph ex_step_ext (Some {''CPUExecutionProvider''}) ex_refusing ex_step [] [''w'' \<mapsto> ex_vector 5] 2
     (\<lambda>t. Inr [''lr'' \<mapsto> ex_scalar (if t = 0 then 2 else 1)]) None True False [] =
   (Inr [''w'' \<mapsto> ex_vector 2], [5, 3])"
  by (simp add: run_step_graph_def ex_sg validate_providers_def refuse_if_def numeral_2_eq_2 upt_rec
      runner_call_def ex_refusing_def refusing_session_def ex_session_def sequential_session_def Let_def bnd_def lift_run
      ret_run fetched_def only_element_def ex_step_ext_def to_float32_def ex_scalar_def ex_vector_def)

lemma ex_rank_kept: "rank_kept ex_refusing [(''w'', ''w_next'')] [''w'' \<mapsto> ex_vector 5]"
  by (simp add: rank_kept_def ex_vector_def)

lemma ex_refusing_names: "names_ok ex_refusing [(''w'', ''w_next'')] (map_of []) {''lr''}"
  using ex_names by (simp add: names_ok_def ex_refusing_def refusing_session_def state_outputs_def)

lemma ex_refusing_binding: "io_binding ex_refusing"
  unfolding ex_refusing_def by (rule refusing_binding) (rule ex_session_binding)

lemma bind_loop_refusing: "bind_loop h (refusing_session r S) p c st = bind_loop h S p c st"
proof -
  have sel: "s_outputs (refusing_session r S) = s_outputs S" "s_binding (refusing_session r S) = s_binding S"
      "s_alloc (refusing_session r S) = s_alloc S"
    by (simp_all add: refusing_session_def)
  have bindable: "state_bindable (refusing_session r S) = state_bindable S"
      "host_bindable (refusing_session r S) = host_bindable S"
    unfolding fun_eq_iff state_bindable_def host_bindable_def sel by simp_all
  show ?thesis unfolding bind_loop_def sel bindable ..
qed

lemma ex_refusing_bound: "bind_loop True ex_refusing None [] [(''w'', ''w_next'', ex_vector 5)] = Some ex_loop"
  by (simp add: ex_refusing_def bind_loop_refusing ex_loop_bound)

lemma ex_refusing_fails:
  "run_bound_loop ex_refusing (Some ''loss'') (\<lambda>t. Inr [''lr'' \<mapsto> ex_scalar 1]) [0, 1] [] ex_loop = Inr None"
proof -
  note sel = bind_loop_fields [OF ex_loop_bound]
  show ?thesis
    by (simp add: bound_step_def step_bindings_def Let_def sel ex_refusing_def refusing_session_def ex_session_def
        sequential_session_def initial_store_def state_outputs_def bind_state_def input_values_def input_value_def
        fetched_def first_element_def ex_scalar_def ex_vector_def ascontiguousarray_def)
qed

theorem binding_transparent_witness:
  "run_step_graph ex_step_ext (Some {''CPUExecutionProvider''}) ex_refusing ex_step [] [''w'' \<mapsto> ex_vector 5] 2
     (\<lambda>t. Inr [''lr'' \<mapsto> ex_scalar (if t = 0 then 2 else 1)]) None True True [] =
   (Inr [''w'' \<mapsto> ex_vector 2], [5, 3])"
  by (subst binding_transparent [OF ex_refusing_binding, where fed = "{''lr''}"])
    (use ex_refusing_names ex_loss_ok ex_rank_kept in \<open>simp_all add: ex_sg ex_unbound\<close>)

end
