(* ===== verification/Gradient_Step.thy ===== *)
theory Gradient_Step
  imports Tensor_Derivative Step_Graph
begin

text \<open>
  The gradient step graph of data-parallel training, \<open>onnxsim/distributed.py\<close>: forward pass, mean squared
  error and its gradient with respect to the trained parameters in one model, whose parameters are
  plain inputs.  The second half shows that the model's outputs are the loss and its derivative.
  The inliner, the simplifier and the checker of onnx are parameters.
\<close>

section \<open>The code\<close>

definition CONTROL_FLOW_OPS :: "string set" where
  "CONTROL_FLOW_OPS = {''If'', ''Loop'', ''Scan''}"

definition import_domains :: "model \<Rightarrow> model" where
  "import_domains m =
     m\<lparr>mo_opsets := foldl (\<lambda>imports fn.
         if f_domain fn \<in> fst ` set imports then imports else imports @ [(f_domain fn, 1)])
       (mo_opsets m) (mo_functions m)\<rparr>"

definition inline_local_functions :: "model_tools \<Rightarrow> model \<Rightarrow> model res" where
  "inline_local_functions T m =
     (if mo_functions m = [] then Inr m
      else let inlined = simplify_model T (inline_functions T (import_domains m)) in
           bindE (refuse_if (\<exists>nd \<in> set (mo_nodes inlined). op_type nd \<in> CONTROL_FLOW_OPS) ValueError) (\<lambda>_.
           Inr inlined))"

text \<open>The builder the forward slice is poured into.\<close>

definition slice_builder :: "tensor list \<Rightarrow> node list \<Rightarrow> builder" where
  "slice_builder initializers nodes =
     (new_builder ''dp__'')\<lparr>b_initializer := initializers, b_nodes := nodes\<rparr>"

text \<open>The difference, the seed \<open>dL/dy\<close> and the loss.\<close>

definition mse_head :: "ext \<Rightarrow> string \<Rightarrow> string \<Rightarrow> int list \<Rightarrow> (string \<times> string) bst" where
  "mse_head E output target target_shape =
     bnd (b_sub output target) (\<lambda>diff.
     bnd (lift (np_prod target_shape)) (\<lambda>n_elems.
     bnd (lift (refuse_if (n_elems = 0) ZeroDivisionError)) (\<lambda>_.
     bnd (b_const E (scalar (2 / of_int n_elems)) ''c'') (\<lambda>c.
     bnd (b_mul diff c) (\<lambda>dl_dy.
     bnd (b_mean_square diff) (\<lambda>loss.
     ret (dl_dy, loss)))))))"

definition gradient_step_nodes ::
  "ext \<Rightarrow> registry \<Rightarrow> node list \<Rightarrow> (string \<rightharpoonup> shape) \<Rightarrow> string \<Rightarrow> int list \<Rightarrow> string \<Rightarrow> string list
     \<Rightarrow> (grads \<times> string) bst" where
  "gradient_step_nodes E reg nodes shapes target target_shape output params =
     bnd (mse_head E output target target_shape) (\<lambda>(dl_dy, loss).
     bnd (build_backward E reg nodes shapes [output \<mapsto> dl_dy] params None) (\<lambda>grads.
     ret (grads, loss)))"

definition known_shape :: "(string \<rightharpoonup> shape) \<Rightarrow> string \<Rightarrow> shape res" where
  "known_shape shapes x = (case shapes x of None \<Rightarrow> Inl KeyError | Some sh \<Rightarrow> Inr sh)"

definition gradient_step_model :: "builder \<Rightarrow> string list \<Rightarrow> value_info list \<Rightarrow> value_info list \<Rightarrow> model" where
  "gradient_step_model b params ins outs =
     \<lparr>mo_nodes = b_nodes b, mo_name = ''onnxsim_dp_gradient_step'', mo_inputs = ins, mo_outputs = outs,
      mo_initializer = filter (\<lambda>t. t_name t \<notin> set params) (b_initializer b),
      mo_opsets = step_opsets (b_functions b), mo_functions = b_functions b, mo_ir = IR_VERSION\<rparr>"

definition build_gradient_step_graph ::
  "ext \<Rightarrow> registry \<Rightarrow> model_tools \<Rightarrow> (model \<Rightarrow> unit res) \<Rightarrow> node list \<Rightarrow> (string \<rightharpoonup> shape) \<Rightarrow> tensor list
     \<Rightarrow> string \<Rightarrow> int list \<Rightarrow> string \<Rightarrow> int list \<Rightarrow> string \<Rightarrow> string list \<Rightarrow> (model \<times> grads \<times> string) res" where
  "build_gradient_step_graph E reg T check_model nodes shapes initializers input_name input_shape target target_shape
     output params =
     (case gradient_step_nodes E reg nodes shapes target target_shape output params
             (slice_builder initializers nodes) of
        (Inl e, _) \<Rightarrow> Inl e
      | (Inr (grads, loss), b) \<Rightarrow>
          bindE (mapE (\<lambda>p. bindE (known_shape shapes p) (\<lambda>sh. Inr (float_info p sh))) params) (\<lambda>param_infos.
          bindE (mapE (\<lambda>p. case grads p of None \<Rightarrow> Inl KeyError | Some g \<Rightarrow> Inr (p, g)) params) (\<lambda>grad_names.
          bindE (mapE (\<lambda>(p, g). bindE (known_shape shapes p) (\<lambda>sh. Inr (float_info g sh))) grad_names) (\<lambda>grad_infos.
          let raw = gradient_step_model b params
                      ([float_info input_name (map DInt input_shape), float_info target (map DInt target_shape)]
                         @ param_infos)
                      (grad_infos @ [float_info loss []])
          in bindE (if b_functions b \<noteq> [] then inline_local_functions T raw else Inr raw) (\<lambda>model.
             bindE (check_model model) (\<lambda>_.
             Inr (model, map_of grad_names, loss)))))))"

section \<open>The meaning of a model\<close>

definition run_model :: "'v interp \<Rightarrow> model \<Rightarrow> 'v env \<Rightarrow> 'v env" where
  "run_model I m env = foldl (eval_node I (mo_functions m)) (with_consts I (mo_initializer m) env) (mo_nodes m)"

text \<open>What the inliner and the simplifier promise: the same interface, the same outputs on all inputs.\<close>

definition keeps_meaning :: "'v interp \<Rightarrow> (model \<Rightarrow> model) \<Rightarrow> bool" where
  "keeps_meaning I f \<longleftrightarrow> preserves_interface f \<and>
     (\<forall>m env. \<forall>o' \<in> vi_name ` set (mo_outputs m). run_model I (f m) env o' = run_model I m env o')"

lemma keeps_meaningD:
  assumes "keeps_meaning I f"
  shows "mo_outputs (f m) = mo_outputs m"
    and "x \<in> vi_name ` set (mo_outputs m) \<Longrightarrow> run_model I (f m) env x = run_model I m env x"
  using assms by (auto simp: keeps_meaning_def preserves_interface_def)

lemma make_step_graph_meaning:
  assumes "keeps_meaning I (inline_functions T)" and "keeps_meaning I (simplify_model T)"
    and "(n, sh, out) \<in> set state"
  shows "run_model I (sg_model (make_step_graph T b constants state scalars loss loss_shape name per_step simplify)) env out =
    run_builder I b env out"
proof -
  have "out \<in> vi_name ` set (step_outputs_info state loss loss_shape)"
    using assms(3) by (force simp: step_outputs_info_def float_info_def)
  then show ?thesis
    using assms(1,2) by (simp add: make_step_graph_def Let_def keeps_meaningD run_builder_graph) (simp add: run_model_def)
qed

lemma inline_local_functions_meaning:
  assumes "keeps_meaning I (inline_functions T)" and "keeps_meaning I (simplify_model T)"
    and "inline_local_functions T m = Inr m'" and "x \<in> vi_name ` set (mo_outputs m)"
  shows "run_model I m' env x = run_model I m env x"
proof (cases "mo_functions m = []")
  case False
  have "run_model I (import_domains m) env x = run_model I m env x" "mo_outputs (import_domains m) = mo_outputs m"
    by (simp_all add: import_domains_def run_model_def)
  with assms False show ?thesis
    by (auto simp: inline_local_functions_def Let_def res_iff keeps_meaningD)
qed (use assms(3) in \<open>simp add: inline_local_functions_def\<close>)

section \<open>What the loss nodes compute\<close>

definition mean_reduces :: "real_array interp \<Rightarrow> bool" where
  "mean_reduces I \<longleftrightarrow> (\<forall>x. op_val I ''ReduceMean'' [(''keepdims'', AInt 0)] [x] =
     ([], [sum_list (snd x) / real (length (snd x))]))"

definition squared_error :: "real_array \<Rightarrow> real_array \<Rightarrow> real" where
  "squared_error a y = (\<Sum>ix\<in>box (dims a). (entry a ix - entry y ix) ^ 2)"

lemma REALS_means: "mean_reduces REALS"
  by (simp add: mean_reduces_def REALS_def real_op_def)

lemma sum_tabulate: "sum_list (snd (tabulate ds f)) = (\<Sum>ix\<in>box ds. f ix)"
  by (simp add: tabulate_def sum_list_distinct_conv_sum_set)

lemma length_tabulate: "length (snd (tabulate ds f)) = prod_list ds"
  by (simp add: tabulate_def)

lemma dim_le_prod: "0 \<notin> set (ds :: nat list) \<Longrightarrow> d \<in> set ds \<Longrightarrow> d \<le> prod_list ds"
proof (induction ds)
  case (Cons e ds)
  then have "prod_list ds \<noteq> 0" by (simp add: prod_list_zero_iff)
  with Cons show ?case by (auto intro: le_trans [of d "prod_list ds"])
qed simp

lemma np_prod_dims:
  "0 \<notin> set ds \<Longrightarrow> prod_list ds < 2 ^ 63 \<Longrightarrow> np_prod (map int ds) = Inr (int (prod_list ds))"
  using dim_le_prod [of ds] by (intro np_prod_exact) (auto intro: le_less_trans)

lemmas head_steps = yields_bnd [OF yields_binary(2)] yields_bnd [OF yields_binary(3)]
  yields_bnd [OF yields_scalar_array] yields_bnd [OF yields_op] yields_lift_bnd yields_ret

lemma yields_mse_head:
  assumes I: "onnx_reals I" "mean_reduces I" and y: "shaped ds (V output)" "shaped ds (V target)"
    and ds: "0 \<notin> set ds" "prod_list ds < 2 ^ 63"
  shows "yields I V (mse_head E output target (map int ds)) (\<lambda>(dl_dy, loss).
     V dl_dy = tabulate ds (\<lambda>ix. (entry (V output) ix - entry (V target) ix) * f32 E (2 / real (prod_list ds))) \<and>
     V loss = ([], [squared_error (V output) (V target) / real (prod_list ds)]))"
proof -
  define e where "e = (\<lambda>ix. entry (V output) ix - entry (V target) ix)"
  have sub: "op_val I ''Sub'' [] [V output, V target] = tabulate ds e"
    using op_tabulate(2) [OF I(1), of "''Sub''" "[]" ds "entry (V output)" "entry (V target)"] y
    by (simp add: tabulate_entry e_def)
  have mul: "op_val I ''Mul'' [] [tabulate ds e, ([], [c])] = tabulate ds (\<lambda>ix. e ix * c)" for c
    using op_tabulate(3) [OF I(1) _ scalar_array(1), of "''Mul''" ds] by (simp add: scalar_array)
  have sq: "op_val I ''Mul'' [] [tabulate ds e, tabulate ds e] = tabulate ds (\<lambda>ix. e ix ^ 2)"
    using op_tabulate(2) [OF I(1), of "''Mul''"] by (simp add: power2_eq_square)
  have mean: "op_val I ''ReduceMean'' [(''keepdims'', AInt 0)] [tabulate ds (\<lambda>ix. e ix ^ 2)] =
      ([], [squared_error (V output) (V target) / real (prod_list ds)])"
    unfolding I(2) [unfolded mean_reduces_def, rule_format] squared_error_def shaped_dims [OF y(1)]
    by (simp add: sum_tabulate length_tabulate e_def)
  show ?thesis
    unfolding mse_head_def b_mean_square_def bnd_assoc np_prod_dims [OF ds]
    by (rule head_steps I(1))+ (auto simp: sub mul sq mean, simp add: e_def)
qed

lemma moves_squared_error:
  assumes f: "moves ds f t" and y: "shaped ds y"
  shows "((\<lambda>s. squared_error (f s) y) has_real_derivative
    (\<Sum>ix\<in>box ds. 2 * (entry (f 0) ix - entry y ix) * entry t ix)) (at 0)"
proof -
  have "dims (f s) = ds" for s using movesD(1) [OF f] by (simp add: shaped_dims)
  then show ?thesis
    unfolding squared_error_def using movesD(3) [OF f]
    by (auto intro!: DERIV_sum derivative_eq_intros)
qed

section \<open>The graph stays well formed\<close>

lemma emit_mse_head [emit_intros]:
  "{output, target} - {''''} \<subseteq> S \<Longrightarrow> emits K S (mse_head E output target sh) (\<lambda>(a, b). {a, b})"
  unfolding mse_head_def b_mean_square_def b_sub_def b_mul_def bnd_assoc
  by (rule emit_lift_bnd emit_bnd emit_intros | (auto simp: BACKWARD_OPS_def; fail)[1])+

lemma slice_builder_simps [simp]:
  "b_initializer (slice_builder ts ns) = ts" "b_nodes (slice_builder ts ns) = ns"
  "inits (slice_builder ts ns) = t_name ` set ts" "bound (slice_builder ts ns) = t_name ` set ts \<union> defs ns"
  "builder_ok (slice_builder ts ns)"
  by (simp_all add: slice_builder_def new_builder_def inits_def bound_def builder_ok_def)

text \<open>The two halves of the emission: the loss nodes, then the backward pass over the forward slice.\<close>

lemma gradient_step_nodes_run:
  assumes wf: "builder_wf K (slice_builder ts nodes)" "'''' \<notin> K" and names: "target \<in> K" "output \<in> defs nodes"
    and nodes: "\<forall>nd \<in> set nodes. '''' \<notin> set (inputs nd) \<union> set (outputs nd)"
    and run: "gradient_step_nodes E Map.empty nodes shapes target sh output params (slice_builder ts nodes) =
      (Inr (grads, loss), b')"
  obtains dl b1 where "mse_head E output target sh (slice_builder ts nodes) = (Inr (dl, loss), b1)"
    and "build_backward E Map.empty nodes shapes [output \<mapsto> dl] params None b1 = (Inr grads, b')"
    and "builder_wf K b'" and "grows BACKWARD_OPS b1 b'" and "grows BACKWARD_OPS (slice_builder ts nodes) b'"
proof -
  let ?b = "slice_builder ts nodes" and ?S = "avail K (slice_builder ts nodes)"
  obtain dl l b1 where 1: "mse_head E output target sh ?b = (Inr (dl, l), b1)"
      and 2: "build_backward E Map.empty nodes shapes [output \<mapsto> dl] params None b1 = (Inr grads, b')" "l = loss"
    using run by (auto simp: gradient_step_nodes_def bnd_def ret_run split: prod.splits sum.splits)
  have "emits K ?S (mse_head E output target sh) (\<lambda>(a, b). {a, b})"
    using names by (intro emit_mse_head) (auto simp: avail_def)
  note h = emitD [OF this wf(1) order_refl 1]
  have "ssa (K \<union> t_name ` set ts) nodes" using wf(1) by (simp add: builder_wf_def)
  then have "\<forall>nd \<in> set nodes. set (inputs nd) \<union> set (outputs nd) - {''''} \<subseteq> ?S"
    using ssa_reads nodes by (fastforce simp: avail_def reads_def defs_def)
  then have "emits K (avail K b1) (build_backward_with E builtin_rules nodes shapes [output \<mapsto> dl] params) ran"
    using wf(2) grows_avail [OF h(2)] h(3) [OF refl] by (intro builtin.emit_build_backward_with) auto
  from emitD(1,2) [OF this h(1) order_refl] 2(1)
  have w: "builder_wf K b'" "grows BACKWARD_OPS b1 b'"
    by (auto simp: build_backward_def default_rules_def)
  from that [OF 1 [unfolded 2(2)] 2(1) w grows_trans [OF h(2) w(2)]] show thesis .
qed

section \<open>Feeding the parameters\<close>

text \<open>
  The model drops the initializers of the trained parameters and takes them as inputs.  Running it
  satisfies the builder's graph under the interpretation whose parameter constants are the fed values.
\<close>

definition frozen :: "string set \<Rightarrow> tensor list \<Rightarrow> tensor list" where
  "frozen P ts = filter (\<lambda>t. t_name t \<notin> P) ts"

definition fed_interp :: "'v interp \<Rightarrow> tensor list \<Rightarrow> string set \<Rightarrow> 'v env \<Rightarrow> 'v interp" where
  "fed_interp I ts P env =
     I\<lparr>const_val := \<lambda>t. if t \<in> set ts \<and> t_name t \<in> P then env (t_name t) else const_val I t\<rparr>"

lemma op_val_fed [simp]: "op_val (fed_interp I ts P env) = op_val I"
  by (simp add: fed_interp_def)

lemma onnx_reals_fed:
  assumes I: "onnx_reals I" and ts: "\<forall>t \<in> set ts. t_name t \<in> P \<longrightarrow> t_dims t \<noteq> [] \<and> (\<exists>vs. t_data t = TFloat vs)"
  shows "onnx_reals (fed_interp I ts P env)"
proof -
  have same: "const_val (fed_interp I ts P env) t = const_val I t" if "t_dims t = [] \<or> (\<exists>ns. t_data t = TInt True ns)" for t
    using ts that by (auto simp: fed_interp_def)
  have "const_val (fed_interp I ts P env) \<lparr>t_name = x, t_dims = [], t_data = TFloat [v]\<rparr> = ([], [v])"
    "const_val (fed_interp I ts P env) \<lparr>t_name = x, t_dims = [int (length ns)], t_data = TInt True (map int ns)\<rparr> =
      nat_vector ns" for x v ns
    by (subst same; simp add: onnx_realsD(6,7) [OF I])+
  then show ?thesis
    using I unfolding onnx_reals_def op_val_fed by blast
qed

lemma fed_graph:
  fixes env :: "'v env"
  assumes wf: "builder_wf K b'" and grown: "grows A (slice_builder ts nodes) b'" and P: "P \<subseteq> K \<union> t_name ` set ts"
    and V: "V = foldl (eval_node I (b_functions b')) (with_consts I (frozen P (b_initializer b')) env) (b_nodes b')"
  shows "sound (fed_interp I ts P env) V b'"
    and "x \<in> K \<union> t_name ` set ts \<Longrightarrow> V x = with_consts I (frozen P ts) env x"
proof -
  let ?fed = "frozen P (b_initializer b')"
  obtain us where us: "b_initializer b' = ts @ us" using grown by (auto simp: grows_def)
  have dist: "distinct (map t_name (b_initializer b'))" and ext: "inits b' \<inter> K = {}"
      and ssa: "ssa (K \<union> inits b') (b_nodes b')" "'''' \<notin> defs (b_nodes b')"
    using wf by (auto simp: builder_wf_def bound_def)
  have fed: "distinct (map t_name ?fed)" "t_name ` set ?fed \<subseteq> K \<union> inits b'"
    using dist by (auto simp: frozen_def inits_def distinct_map inj_on_def)
  note g = run_graph_sound [OF ssa(1) fed(2,1) ssa(2) V]
  have off: "V p = env p" if "p \<in> K \<union> inits b'" "p \<notin> t_name ` set ?fed" for p
    using g(1) [OF that(1)] with_consts_other [OF that(2)] by simp
  show "V x = with_consts I (frozen P ts) env x" if "x \<in> K \<union> t_name ` set ts" for x
  proof (cases "x \<in> t_name ` set (frozen P ts)")
    case True
    then obtain t where t: "t \<in> set (frozen P ts)" "x = t_name t" by blast
    then have "t \<in> set ?fed" by (simp add: frozen_def us)
    moreover have "with_consts I (frozen P ts) env x = const_val I t"
      unfolding t(2) using t(1) dist by (intro with_consts_name) (auto simp: us frozen_def distinct_map inj_on_def)
    ultimately show ?thesis using g(2) t(2) by simp
  next
    case False
    have "x \<notin> t_name ` set ?fed"
      using False that dist ext by (auto simp: frozen_def us inits_def)
    moreover have "x \<in> K \<union> inits b'" using that by (auto simp: us inits_def)
    ultimately show ?thesis using off False by (simp add: with_consts_other)
  qed
  have "V (t_name t) = const_val (fed_interp I ts P env) t" if t: "t \<in> set (b_initializer b')" for t
  proof (cases "t_name t \<in> P")
    case True
    have "t_name t \<in> inits b'" using t by (auto simp: inits_def)
    with True P ext have "t_name t \<in> t_name ` set ts" by blast
    then have "t \<in> set ts" using t dist by (auto simp: us)
    moreover have "V (t_name t) = env (t_name t)"
      using True t by (intro off) (auto simp: frozen_def inits_def)
    ultimately show ?thesis using True by (simp add: fed_interp_def)
  next
    case False
    then show ?thesis using g(2) t by (simp add: frozen_def fed_interp_def)
  qed
  then show "sound (fed_interp I ts P env) V b'"
    using g(3) unfolding sound_def by (simp add: node_holds_op_cong [OF op_val_fed])
qed

section \<open>The step graph computes the loss and its derivative\<close>

lemma build_gradient_step_graph_Inr:
  assumes run: "build_gradient_step_graph E reg T check_model nodes shapes ts inp ish target tsh output params =
      Inr (m, grad_names, loss)"
    and tools: "keeps_meaning I (inline_functions T)" "keeps_meaning I (simplify_model T)"
  obtains grads b' where
    "gradient_step_nodes E reg nodes shapes target tsh output params (slice_builder ts nodes) = (Inr (grads, loss), b')"
    and "dom grad_names = set params" and "\<And>p. p \<in> set params \<Longrightarrow> grad_names p = grads p"
    and "\<And>x env. x = loss \<or> x \<in> ran grad_names \<Longrightarrow> run_model I m env x =
      foldl (eval_node I (b_functions b')) (with_consts I (frozen (set params) (b_initializer b')) env) (b_nodes b') x"
proof -
  obtain grads b' where g: "gradient_step_nodes E reg nodes shapes target tsh output params (slice_builder ts nodes) =
      (Inr (grads, loss), b')"
    using run by (auto simp: build_gradient_step_graph_def Let_def res_iff split: prod.splits sum.splits)
  obtain gs infos where gs: "mapE (\<lambda>p. case grads p of None \<Rightarrow> Inl KeyError | Some g \<Rightarrow> Inr (p, g)) params = Inr gs"
      and infos: "mapE (\<lambda>(p, g). bindE (known_shape shapes p) (\<lambda>sh. Inr (float_info g sh))) gs = Inr infos"
      and gn: "grad_names = map_of gs"
      and m: "\<exists>ins. (if b_functions b' \<noteq> []
        then inline_local_functions T (gradient_step_model b' params ins (infos @ [float_info loss []]))
        else Inr (gradient_step_model b' params ins (infos @ [float_info loss []]))) = Inr m"
    using run unfolding build_gradient_step_graph_def g Let_def by (clarsimp simp: bindE_Inr_iff) blast
  have gs': "gs = map (\<lambda>p. (p, the (grads p))) params" "\<forall>p \<in> set params. grads p \<noteq> None"
    using gs unfolding mapE_Inr_iff by (induction params arbitrary: gs) (auto split: option.splits)
  have "map vi_name infos = map snd gs"
    using infos unfolding mapE_Inr_iff
    by (induction gs arbitrary: infos) (auto simp: float_info_def bindE_Inr_iff Cons_eq_map_conv)
  then have names: "vi_name ` set infos = snd ` set gs" by (metis set_map)
  obtain ins where m': "(if b_functions b' \<noteq> []
      then inline_local_functions T (gradient_step_model b' params ins (infos @ [float_info loss []]))
      else Inr (gradient_step_model b' params ins (infos @ [float_info loss []]))) = Inr m"
    using m by blast
  have outcome: "run_model I m env x =
      foldl (eval_node I (b_functions b')) (with_consts I (frozen (set params) (b_initializer b')) env) (b_nodes b') x"
    if "x = loss \<or> x \<in> ran grad_names" for x env
  proof -
    have "x \<in> vi_name ` set (infos @ [float_info loss []])"
      using that names gs' by (auto simp: gn float_info_def ran_def map_of_map_restrict restrict_map_def image_image split: if_splits)
    then have "run_model I m env x = run_model I (gradient_step_model b' params ins (infos @ [float_info loss []])) env x"
      using m' inline_local_functions_meaning [OF tools]
      by (auto simp: gradient_step_model_def split: if_splits)
    then show ?thesis by (simp add: run_model_def gradient_step_model_def frozen_def)
  qed
  show thesis
    by (rule that [OF g _ _ outcome])
      (use gs' in \<open>auto simp: gn map_of_map_restrict restrict_map_def dom_def split: if_splits\<close>)
qed

text \<open>
  C3.  The gradient step graph computes the loss and its derivative.  On any runtime that computes the
  documented operators over the reals, run on the fed parameters (whatever values the stored
  initializers have), input and target, the model \<open>build_gradient_step_graph\<close> returns yields the mean
  squared error of the forward slice's output, and for every trained parameter a tensor of its shape;
  the pairings of these tensors with the parameters' directions are the derivative of half the seed
  constant (two over the element count, rounded to float32) times the squared error.
\<close>

theorem gradient_step_correct:
  fixes feeds :: "real \<Rightarrow> real_array env"
  assumes runtime: "onnx_reals I" "mean_reduces I" and arith: "exact_consts E" "numpy_broadcast E"
    and tools: "keeps_meaning I (inline_functions T)" "keeps_meaning I (simplify_model T)"
    and builder: "builder_wf K (slice_builder ts nodes)" "'''' \<notin> K"
    and leaves: "ssa L nodes" "L \<subseteq> K \<union> t_name ` set ts" "set params \<inter> defs nodes = {}"
    and floats: "\<forall>t \<in> set ts. t_name t \<in> set params \<longrightarrow> t_dims t \<noteq> [] \<and> (\<exists>vs. t_data t = TFloat vs)"
    and slice: "\<forall>nd \<in> set nodes. domain nd = '''' \<and> well_shaped shapes nd \<and>
       differentiable_at shapes (eval_body I nodes (with_consts I (frozen (set params) ts) (feeds 0))) nd"
    and ends: "output \<in> defs nodes" "dims_of shapes output = ds" "prod_list ds < 2 ^ 63"
      "target \<in> K" "shaped ds y" "\<And>s. feeds s target = y"
    and motion: "leaves_move shapes L (set params) (\<lambda>s. with_consts I (frozen (set params) ts) (feeds s)) d"
    and run: "build_gradient_step_graph E Map.empty T check_model nodes shapes ts inp ish target (map int ds) output params =
      Inr (m, grad_names, loss)"
  defines "F \<equiv> \<lambda>s. eval_body I nodes (with_consts I (frozen (set params) ts) (feeds s)) output"
    and "V \<equiv> run_model I m (feeds 0)"
  shows "dom grad_names = set params \<and>
    (\<forall>p \<in> set params. typed shapes p (V (the (grad_names p)))) \<and>
    V loss = ([], [squared_error (F 0) y / real (prod_list ds)]) \<and>
    ((\<lambda>s. f32 E (2 / real (prod_list ds)) / 2 * squared_error (F s) y) has_real_derivative
      (\<Sum>p\<in>set params. dot (V (the (grad_names p))) (d p))) (at 0)"
proof -
  let ?P = "set params" and ?c = "f32 E (2 / real (prod_list ds))"
  let ?\<theta> = "\<lambda>s. with_consts I (frozen ?P ts) (feeds s)"
  obtain grads b' where g: "gradient_step_nodes E Map.empty nodes shapes target (map int ds) output params
        (slice_builder ts nodes) = (Inr (grads, loss), b')"
      and gn: "dom grad_names = ?P" "\<And>p. p \<in> ?P \<Longrightarrow> grad_names p = grads p"
      and V': "\<And>x env. x = loss \<or> x \<in> ran grad_names \<Longrightarrow> run_model I m env x =
        foldl (eval_node I (b_functions b')) (with_consts I (frozen ?P (b_initializer b')) env) (b_nodes b') x"
    using build_gradient_step_graph_Inr [OF run tools] by metis
  define W where "W = foldl (eval_node I (b_functions b')) (with_consts I (frozen ?P (b_initializer b')) (feeds 0)) (b_nodes b')"
  define J where "J = fed_interp I ts ?P (feeds 0)"
  have J: "onnx_reals J" "mean_reduces J" "op_val J = op_val I"
    using onnx_reals_fed [OF runtime(1) floats] runtime(2) by (simp_all add: J_def mean_reduces_def)
  have unnamed: "\<forall>nd \<in> set nodes. '''' \<notin> set (inputs nd) \<union> set (outputs nd)"
    using slice by (auto simp: well_shaped_def static_def)
  obtain dl b1 where head: "mse_head E output target (map int ds) (slice_builder ts nodes) = (Inr (dl, loss), b1)"
      and bwd: "build_backward E Map.empty nodes shapes [output \<mapsto> dl] params None b1 = (Inr grads, b')"
      and wf: "builder_wf K b'" and grown: "grows BACKWARD_OPS b1 b'" "grows BACKWARD_OPS (slice_builder ts nodes) b'"
    using gradient_step_nodes_run [OF builder ends(4,1) unnamed g] by metis
  have P: "?P \<subseteq> L" using motion by (simp add: leaves_move_def)
  have "?P \<subseteq> K \<union> t_name ` set ts" using P leaves(2) by blast
  note fed = fed_graph [OF wf grown(2) this W_def]
  have sound: "sound J W b'" "sound J W b1"
    using fed(1) sound_grows [OF _ grown(1)] by (simp_all add: J_def)
  have start: "\<forall>x \<in> L. W x = ?\<theta> 0 x" using fed(2) leaves(2) by blast
  have "\<forall>nd \<in> set nodes. node_holds I (b_functions b') W nd"
    using sound(1) grown(2) by (auto simp: sound_def grows_def node_holds_op_cong [OF J(3)])
  then have "\<forall>nd \<in> set nodes. domain nd = '''' \<and> '''' \<notin> set (inputs nd) \<and> (\<exists>out. outputs nd = [out]) \<and>
      node_holds I (b_functions b') W nd"
    using slice unnamed by (simp add: well_shaped_def) blast
  moreover have "'''' \<notin> L \<union> defs nodes"
    using builder leaves(2) by (auto simp: builder_wf_def)
  ultimately have all: "\<forall>x \<in> L \<union> defs nodes. W x = eval_body I nodes (?\<theta> 0) x"
    using slice_determined [OF leaves(1)] start by blast
  have "set (inputs nd) \<union> set (outputs nd) \<subseteq> L \<union> defs nodes" if "nd \<in> set nodes" for nd
    using ssa_reads [OF leaves(1) that] unnamed that unfolding reads_def defs_def by blast
  then have vals: "\<forall>nd \<in> set nodes. \<forall>x \<in> set (inputs nd) \<union> set (outputs nd). W x = eval_body J nodes (?\<theta> 0) x"
    using all unfolding eval_body_op_cong [OF J(3)] by blast
  have sl: "\<forall>nd \<in> set nodes. domain nd = '''' \<and> well_shaped shapes nd \<and>
      differentiable_at shapes (eval_body J nodes (?\<theta> 0)) nd"
    using slice unfolding eval_body_op_cong [OF J(3)] by blast
  have nonempty: "'''' \<notin> defs nodes" using unnamed by (auto simp: defs_def)
  have "\<forall>nd \<in> set nodes. well_shaped shapes nd \<and> differentiable_at shapes (eval_body I nodes (?\<theta> 0)) nd"
    using slice by blast
  then obtain T where T: "\<forall>x \<in> L \<union> defs nodes. moves (dims_of shapes x) (\<lambda>s. eval_body I nodes (?\<theta> s) x) (T x)"
    by (rule slice_tangents [OF runtime(1) leaves(1) nonempty _ motion])
  have F: "moves ds F (T output)" using bspec [OF T, of "output"] ends(1,2) by (simp add: F_def)
  have Wout: "W output = F 0" using all ends(1) by (simp add: F_def)
  have "target \<notin> t_name ` set (frozen ?P ts)"
    using builder(1) ends(4) by (auto simp: builder_wf_def frozen_def)
  then have Wt: "W target = y" using fed(2) [of target] ends(4,6) by (simp add: with_consts_other)
  have "static shapes output" using ends(1) slice by (auto simp: defs_def well_shaped_def)
  then have pos: "0 \<notin> set ds" using ends(2) by (simp add: static_def)
  have shaped: "shaped ds (W output)" "shaped ds (W target)"
    using movesD(1) [OF F] ends(5) by (simp_all add: Wout Wt)
  note h = yieldsD [OF yields_mse_head [OF J(1,2) shaped pos ends(3)] _ head]
  have dl: "W dl = tabulate ds (\<lambda>ix. (entry (F 0) ix - entry y ix) * ?c)"
    and loss: "W loss = ([], [squared_error (F 0) y / real (prod_list ds)])"
    using h(3) [OF _ sound(2) refl] by (simp_all add: Wout Wt)
  have "typed shapes n (W g)" if "[output \<mapsto> dl] n = Some g" for n g
    using that ends(2) dl by (auto simp: typed_def split: if_splits)
  note p = pass_derivative [where \<theta> = "?\<theta>" and seeds = "[output \<mapsto> dl]" and V = W,
      OF J(1) arith leaves(1) nonempty sl vals _ _ this motion leaves(3) bwd h(1) sound(1)]
  let ?G = "\<Sum>p\<in>?P. dot (W (the (grads p))) (d p)"
  have "((\<lambda>s. dot (W dl) (F s)) has_real_derivative ?G) (at 0)"
    using p(3) ends(1) unfolding eval_body_op_cong [OF J(3)] by (simp add: F_def)
  moreover have "((\<lambda>s. dot (W dl) (F s)) has_real_derivative dot (W dl) (T output)) (at 0)"
    unfolding dl by (rule moves_dot [OF F shaped_tabulate])
  ultimately have G: "?G = dot (W dl) (T output)" by (rule DERIV_unique)
  have "((\<lambda>s. ?c / 2 * squared_error (F s) y) has_real_derivative
      ?c / 2 * (\<Sum>ix\<in>box ds. 2 * (entry (F 0) ix - entry y ix) * entry (T output) ix)) (at 0)"
    by (rule DERIV_cmult [OF moves_squared_error [OF F ends(5)]])
  moreover have "?c / 2 * (\<Sum>ix\<in>box ds. 2 * (entry (F 0) ix - entry y ix) * entry (T output) ix) = ?G"
    unfolding G dl sum_distrib_left
    by (simp add: dot_shaped [OF shaped_tabulate movesD(2) [OF F]]) (intro sum.cong refl, simp add: field_simps)
  moreover have same: "V loss = W loss" "\<And>p. p \<in> ?P \<Longrightarrow> V (the (grad_names p)) = W (the (grads p))"
    using V' gn unfolding V_def W_def by (metis domD option.sel ranI)+
  ultimately show ?thesis
    using gn(1) loss p(2) ends(1) by (simp add: same)
qed

text \<open>A layer \<open>y = x @ w\<close> on a batch of two, its weight stored as an initializer and fed while it moves.\<close>

definition dp_nodes :: "node list" where
  "dp_nodes = [make_node ''MatMul'' [''x'', ''w''] [''y''] '''' []]"

definition dp_shapes :: "string \<rightharpoonup> shape" where
  "dp_shapes x = map_option nats (map_of [(''x'', [2, 1]), (''w'', [1, 2]), (''y'', [2, 2])] x)"

definition dp_weight :: tensor where
  "dp_weight = \<lparr>t_name = ''w'', t_dims = [1, 2], t_data = TFloat [0, 0]\<rparr>"

definition dp_feeds :: "real \<Rightarrow> string \<Rightarrow> real_array" where
  "dp_feeds s = (\<lambda>n. if n = ''x'' then ([2, 1], [3, 4]) else if n = ''w'' then ([1, 2], [2 + s, 5])
     else ([2, 2], [1, 1, 1, 1]))"

definition dp_tools :: model_tools where
  "dp_tools = \<lparr>inline_functions = (\<lambda>m. m), simplify_model = (\<lambda>m. m)\<rparr>"

definition dp_step :: "(model \<times> grads \<times> string) res" where
  "dp_step = build_gradient_step_graph exact_ext Map.empty dp_tools (\<lambda>_. Inr ()) dp_nodes dp_shapes [dp_weight]
     ''x'' [2, 1] ''t'' (map int [2, 2]) ''y'' [''w'']"

lemma dp_builder: "builder_wf {''x'', ''t''} (slice_builder [dp_weight] dp_nodes)"
proof -
  have "minted ''dp__'' h n \<notin> {''x'', ''t'', ''w'', ''y''}" for h n
    by (simp add: minted_def)
  then have "unminted (avail {''x'', ''t''} (slice_builder [dp_weight] dp_nodes)) (slice_builder [dp_weight] dp_nodes)"
    by (auto simp: unminted_def avail_def dp_nodes_def dp_weight_def) (simp_all add: slice_builder_def new_builder_def)
  then show ?thesis
    by (auto simp: builder_wf_def dp_nodes_def dp_weight_def reads_def)
      (simp_all add: slice_builder_def new_builder_def)
qed

lemma dp_dims [simp]:
  "dims_of dp_shapes ''x'' = [2, 1]" "dims_of dp_shapes ''w'' = [1, 2]" "dims_of dp_shapes ''y'' = [2, 2]"
  by (simp_all add: dims_of_def dp_shapes_def)

lemma dp_step_returns: "\<exists>m gs l. dp_step = Inr (m, gs, l)"
  unfolding dp_step_def build_gradient_step_graph_def gradient_step_nodes_def mse_head_def b_mean_square_def
    build_backward_def default_rules_def build_backward_with_def dp_nodes_def
  by (simp add: slice_builder_def backward_step_def MULTI_OUTPUT_RULES_def builtin_lookup RULES_def PYTHON_ONLY_RULES_def
      grad_matmul_def ctx_shape_def new_ctx_def dp_shapes_def accumulate_def accumulate_one_def
      new_builder_def b_name_run add_node_def bnd_def ret_run lift_run
      reduce_to_def exact_ext_def b_op_in_def add_initializer_def b_sub_def b_mul_def b_const_def f32_const_def to_f32_def
      transpose_last_two_def b_transpose_def b_matmul_def bshape_def refuse_if_def np_prod_def known_shape_def
      collect_targets_def Let_def)

lemma dp_moves:
  "leaves_move dp_shapes {''x'', ''w''} (set [''w'']) (\<lambda>s. with_consts REALS (frozen {''w''} [dp_weight]) (dp_feeds s))
     (\<lambda>_. ([1, 2], [1, 0]))"
proof -
  have "moves [1, 2] (\<lambda>s. ([1, 2], [2 + s, 5])) ([1, 2], [1, 0])"
    by (auto simp: moves_def shaped_def cells.simps entry_def upt_rec intro!: derivative_eq_intros)
  then show ?thesis
    by (auto simp: leaves_move_def frozen_def dp_weight_def with_consts_def dp_feeds_def typed_def shaped_def)
qed

lemma dp_slice:
  "\<forall>nd \<in> set dp_nodes. domain nd = '''' \<and> well_shaped dp_shapes nd \<and> differentiable_at dp_shapes env nd"
proof -
  have "[2, 1] = [] @ [2, Suc 0]" "[1, 2] = [] @ [Suc 0, 2]" "[2, 2] = bshape [] [] @ [2, 2]" by simp_all
  moreover have "x \<in> {''x'', ''w'', ''y''} \<Longrightarrow> static dp_shapes x" for x
    by (auto simp: static_def dp_shapes_def)
  ultimately show ?thesis
    by (auto simp: dp_nodes_def well_shaped_def differentiable_at_def)
qed

theorem gradient_step_correct_witness:
  "\<exists>m gs l. dp_step = Inr (m, gs, l) \<and> dom gs = {''w''} \<and>
     ((\<lambda>s. 1 / 4 * squared_error (eval_body REALS dp_nodes (with_consts REALS (frozen {''w''} [dp_weight]) (dp_feeds s)) ''y'')
          ([2, 2], [1, 1, 1, 1]))
       has_real_derivative dot (run_model REALS m (dp_feeds 0) (the (gs ''w''))) ([1, 2], [1, 0])) (at 0)"
proof -
  obtain m gs l where run: "dp_step = Inr (m, gs, l)" using dp_step_returns by blast
  have tools: "keeps_meaning REALS (inline_functions dp_tools)" "keeps_meaning REALS (simplify_model dp_tools)"
    by (simp_all add: keeps_meaning_def preserves_interface_def dp_tools_def)
  have defs: "defs dp_nodes = {''y''}" "ssa {''x'', ''w''} dp_nodes"
    by (auto simp: dp_nodes_def reads_def)
  have target: "dp_feeds s ''t'' = ([2, 2], [1, 1, 1, 1])" for s by (simp add: dp_feeds_def)
  have moved: "leaves_move dp_shapes {''x'', ''w''} (set [''w''])
      (\<lambda>s. with_consts REALS (frozen (set [''w'']) [dp_weight]) (dp_feeds s)) (\<lambda>_. ([1, 2], [1, 0]))"
    using dp_moves by simp
  note correct = gradient_step_correct [OF REALS_runtime REALS_means exact_ext_arith tools dp_builder _ defs(2) _ _ _ dp_slice
      _ _ _ _ _ target moved run [unfolded dp_step_def]]
  show ?thesis
    using run correct by (intro exI conjI) (auto simp: defs dp_weight_def shaped_def exact_ext_def)
qed

end
