(* ===== verification/Optimizers.thy ===== *)
theory Optimizers
  imports Pointwise_Gradient
begin

text \<open>
  The optimizer steps of \<open>onnxsim/qat_graph.py\<close>: \<open>adam_update\<close>, \<open>sgd_momentum_update\<close> and
  \<open>adam_bias_corrections\<close>.  The lemmas say what the appended nodes compute (over the elementwise
  interpretation of real tensors), that the hyperparameters are interned, and that only operators
  of \<open>EP_FRIENDLY_OPS\<close> are emitted.
\<close>

section \<open>The code\<close>

definition EP_FRIENDLY_OPS :: "string set" where
  "EP_FRIENDLY_OPS =
     {''Abs'', ''Add'', ''Cast'', ''Clip'', ''Div'', ''Exp'', ''Gather'', ''Greater'', ''Identity'',
      ''Less'', ''MatMul'', ''Mul'', ''Neg'', ''Pow'', ''ReduceMean'', ''ReduceSum'', ''Reshape'',
      ''Sigmoid'', ''Sign'', ''Sqrt'', ''Sub'', ''Transpose''}"

definition ADAM_BETA1 :: real where "ADAM_BETA1 = 9 / 10"
definition ADAM_BETA2 :: real where "ADAM_BETA2 = 999 / 1000"
definition ADAM_EPS :: real where "ADAM_EPS = 1 / 10 ^ 8"
definition SGD_MOMENTUM :: real where "SGD_MOMENTUM = 9 / 10"

definition adam_update ::
  "ext \<Rightarrow> string \<Rightarrow> string \<Rightarrow> string \<Rightarrow> string \<Rightarrow> string \<Rightarrow> string \<Rightarrow> string \<Rightarrow> real
     \<Rightarrow> (string \<times> string \<times> string) bst" where
  "adam_update E param grad m v lr m_correction v_correction eps =
     bnd (b_shared_const E (scalar ADAM_BETA1) ''beta1'') (\<lambda>beta1.
     bnd (b_shared_const E (scalar ADAM_BETA2) ''beta2'') (\<lambda>beta2.
     bnd (b_shared_const E (scalar (1 - ADAM_BETA1)) ''one_minus_beta1'') (\<lambda>one_minus_beta1.
     bnd (b_shared_const E (scalar (1 - ADAM_BETA2)) ''one_minus_beta2'') (\<lambda>one_minus_beta2.
     bnd (b_mul beta1 m) (\<lambda>bm.
     bnd (b_mul one_minus_beta1 grad) (\<lambda>og.
     bnd (b_add bm og) (\<lambda>m_next.
     bnd (b_mul beta2 v) (\<lambda>bv.
     bnd (b_mul grad grad) (\<lambda>gg.
     bnd (b_mul one_minus_beta2 gg) (\<lambda>ogg.
     bnd (b_add bv ogg) (\<lambda>v_next.
     bnd (b_mul m_next m_correction) (\<lambda>m_hat.
     bnd (b_mul v_next v_correction) (\<lambda>v_hat.
     bnd (b_mul lr m_hat) (\<lambda>num.
     bnd (b_sqrt v_hat) (\<lambda>sd.
     bnd (b_shared_const E (scalar eps) ''eps'') (\<lambda>e.
     bnd (b_add sd e) (\<lambda>den.
     bnd (b_div num den) (\<lambda>step.
     bnd (b_sub param step) (\<lambda>param_next.
     ret (param_next, m_next, v_next))))))))))))))))))))"

definition sgd_momentum_update ::
  "ext \<Rightarrow> string \<Rightarrow> string \<Rightarrow> string \<Rightarrow> string \<Rightarrow> real \<Rightarrow> (string \<times> string) bst" where
  "sgd_momentum_update E param grad mom lr momentum =
     bnd (b_shared_const E (scalar momentum) ''momentum'') (\<lambda>momentum_const.
     bnd (b_mul momentum_const mom) (\<lambda>decayed.
     bnd (b_add decayed grad) (\<lambda>mom_next.
     bnd (b_mul lr mom_next) (\<lambda>step.
     bnd (b_sub param step) (\<lambda>param_next.
     ret (param_next, mom_next))))))"

text \<open>The two factors at the 0-based step \<open>t\<close>.\<close>

definition adam_bias_corrections :: "nat \<Rightarrow> real \<times> real" where
  "adam_bias_corrections t = (1 / (1 - ADAM_BETA1 ^ (t + 1)), 1 / (1 - ADAM_BETA2 ^ (t + 1)))"

section \<open>Interned constants\<close>

lemma yields_shared_const:
  "yields I V (b_shared_const E v h)
     (\<lambda>x. V x = const_val I \<lparr>t_name = x, t_dims = fst v, t_data = TFloat (map (f32 E) (snd v))\<rparr>)"
proof (rule yieldsI)
  fix b r b'
  assume ok: "builder_ok b" and run: "b_shared_const E v h b = (r, b')"
  show "builder_ok b' \<and> (sound I V b' \<longrightarrow> sound I V b \<and> (\<forall>x. r = Inr x \<longrightarrow>
      V x = const_val I \<lparr>t_name = x, t_dims = fst v, t_data = TFloat (map (f32 E) (snd v))\<rparr>))"
  proof (cases "b_shared b (to_f32 E v)")
    case None
    then show ?thesis
      using ok run by (auto simp: b_shared_const_def f32_const_def to_f32_def bnd_def b_name_run
          add_initializer_def ret_run Let_def builder_ok_def sound_def split: if_splits)
  next
    case (Some n)
    with ok have "\<lparr>t_name = n, t_dims = fst v, t_data = TFloat (map (f32 E) (snd v))\<rparr> \<in> set (b_initializer b)"
      by (force simp: builder_ok_def to_f32_def)
    with Some ok run show ?thesis by (auto simp: b_shared_const_def sound_def)
  qed
qed

lemma yields_shared_scalar: "yields PW V (b_shared_const E (scalar v) h) (\<lambda>x. V x = f32 E v)"
  by (rule yields_weaken [OF yields_shared_const]) simp

lemma emit_f32_const: "emit A K S (f32_const a h) (\<lambda>x. {x})"
  using emit_const [of A K S "\<lparr>f32 = (\<lambda>x. x), np_broadcast = (\<lambda>s t. Inr s)\<rparr>" a h]
  by (simp add: b_const_def to_f32_def)

lemma emit_shared_const [emit_intros]: "emit A K S (b_shared_const E v h) (\<lambda>x. {x})"
proof (rule emitI)
  fix b r b'
  assume wf: "builder_wf K b" and S: "S \<subseteq> avail K b" and run: "b_shared_const E v h b = (r, b')"
  show "builder_wf K b' \<and> grows A b b' \<and> (\<forall>x. r = Inr x \<longrightarrow> {x} \<subseteq> avail K b')"
  proof (cases "b_shared b (to_f32 E v)")
    case (Some n)
    then have "n \<in> ran (b_shared b)" by (rule ranI)
    with wf have "n \<in> avail K b" by (auto simp: builder_wf_def avail_def bound_def)
    with Some wf run show ?thesis by (auto simp: b_shared_const_def)
  next
    case None
    obtain r1 b1 where 1: "f32_const (to_f32 E v) h b = (r1, b1)" by force
    then obtain n where n: "r1 = Inr n" "b_shared b1 = b_shared b" "n \<in> inits b1" "inits b \<subseteq> inits b1"
      by (auto simp: f32_const_def bnd_def b_name_run add_initializer_def ret_run inits_def subset_insertI)
    have b': "r = Inr n" "b' = b1\<lparr>b_shared := (b_shared b)(to_f32 E v \<mapsto> n)\<rparr>"
      using run None 1 n(1,2) by (auto simp: b_shared_const_def bnd_def)
    note s = emitD [OF emit_f32_const [of A] wf S 1]
    have "ran (b_shared b) \<subseteq> inits b1" using wf n(4) by (auto simp: builder_wf_def)
    then have "ran (b_shared b') \<subseteq> inits b1" using n(3) by (auto simp: b' ran_def)
    then have "builder_wf K b'"
      using s(1) by (simp add: b' builder_wf_def bound_def inits_def avail_def unminted_def)
    with s(2) s(3) [OF n(1)] show ?thesis
      by (simp add: b' grows_def avail_def bound_def inits_def)
  qed
qed

section \<open>What the steps compute\<close>

lemma yields_sqrt: "yields PW V (b_sqrt x) (\<lambda>z. V z = sqrt (V x))"
  unfolding b_sqrt_def by (rule yields_weaken [OF yields_unary_op]) simp

lemmas optimizer_steps = yields_bnd [OF yields_shared_scalar] yields_bnd [OF yields_sqrt] yields_steps

lemma yields_adam_update:
  "yields PW V (adam_update E param grad m v lr mc vc eps)
     (\<lambda>(param', m', v').
        V m' = f32 E ADAM_BETA1 * V m + f32 E (1 - ADAM_BETA1) * V grad \<and>
        V v' = f32 E ADAM_BETA2 * V v + f32 E (1 - ADAM_BETA2) * (V grad * V grad) \<and>
        V param' = V param - V lr * (V m' * V mc) / (sqrt (V v' * V vc) + f32 E eps))"
  unfolding adam_update_def by (rule optimizer_steps)+ simp

lemma yields_sgd_update:
  "yields PW V (sgd_momentum_update E param grad mom lr momentum)
     (\<lambda>(param', mom').
        V mom' = f32 E momentum * V mom + V grad \<and> V param' = V param - V lr * V mom')"
  unfolding sgd_momentum_update_def by (rule optimizer_steps)+ simp

lemma emit_adam_update:
  "{param, grad, m, v, lr, mc, vc} \<subseteq> S \<Longrightarrow>
     emit EP_FRIENDLY_OPS K S (adam_update E param grad m v lr mc vc eps) (\<lambda>(p', m', v'). {p', m', v'})"
  unfolding adam_update_def b_sqrt_def b_add_def b_sub_def b_mul_def b_div_def
  by (rule emit_bnd_name emit_intros emit_op_in | (auto simp: EP_FRIENDLY_OPS_def; fail)[1])+

lemma emit_sgd_update:
  "{param, grad, mom, lr} \<subseteq> S \<Longrightarrow>
     emit EP_FRIENDLY_OPS K S (sgd_momentum_update E param grad mom lr mu) (\<lambda>(p', mom'). {p', mom'})"
  unfolding sgd_momentum_update_def b_sqrt_def b_add_def b_sub_def b_mul_def b_div_def
  by (rule emit_bnd_name emit_intros emit_op_in | (auto simp: EP_FRIENDLY_OPS_def; fail)[1])+

section \<open>How many constants a step leaves behind\<close>

text \<open>
  A program that always returns, interns the values \<open>A\<close>, and appends one initializer for each of
  them that was not interned before.
\<close>

definition interning :: "'a bst \<Rightarrow> arr set \<Rightarrow> bool" where
  "interning m A \<longleftrightarrow>
     finite A \<and>
     (\<forall>b. \<exists>x b'. m b = (Inr x, b') \<and> dom (b_shared b') = dom (b_shared b) \<union> A \<and>
        length (b_initializer b') = length (b_initializer b) + card (A - dom (b_shared b)))"

lemma interning_ret: "interning (ret x) {}"
  by (simp add: interning_def ret_run)

lemma interning_op: "interning (b_op_in ty ins h d attrs) {}"
  by (simp add: interning_def b_op_in_def bnd_def b_name_run add_node_def ret_run)

lemma interning_shared_const: "interning (b_shared_const E v h) {to_f32 E v}"
proof -
  have "\<exists>x b'. b_shared_const E v h b = (Inr x, b') \<and> dom (b_shared b') = dom (b_shared b) \<union> {to_f32 E v} \<and>
      length (b_initializer b') = length (b_initializer b) + card ({to_f32 E v} - dom (b_shared b))" for b
    by (cases "b_shared b (to_f32 E v)")
      (auto simp: b_shared_const_def f32_const_def bnd_def b_name_run add_initializer_def ret_run Let_def
        insert_absorb domI insert_Diff_if domIff)
  then show ?thesis by (simp add: interning_def)
qed

lemma interningD:
  "interning m A \<Longrightarrow> \<exists>x b'. m b = (Inr x, b') \<and> dom (b_shared b') = dom (b_shared b) \<union> A \<and>
     length (b_initializer b') = length (b_initializer b) + card (A - dom (b_shared b))"
  by (simp add: interning_def)

lemma interning_bnd:
  assumes "interning m A" and "\<And>x. interning (f x) B"
  shows "interning (bnd m f) (A \<union> B)"
proof -
  have fin: "finite A" "finite B" using assms by (auto simp: interning_def)
  have "\<exists>y b2. bnd m f b = (Inr y, b2) \<and> dom (b_shared b2) = dom (b_shared b) \<union> (A \<union> B) \<and>
      length (b_initializer b2) = length (b_initializer b) + card (A \<union> B - dom (b_shared b))" for b
  proof -
    obtain x b1 where 1: "m b = (Inr x, b1)" "dom (b_shared b1) = dom (b_shared b) \<union> A"
        "length (b_initializer b1) = length (b_initializer b) + card (A - dom (b_shared b))"
      using interningD [OF assms(1), of b] by blast
    obtain y b2 where 2: "f x b1 = (Inr y, b2)" "dom (b_shared b2) = dom (b_shared b1) \<union> B"
        "length (b_initializer b2) = length (b_initializer b1) + card (B - dom (b_shared b1))"
      using interningD [OF assms(2), of x b1] by blast
    have "A \<union> B - dom (b_shared b) = (A - dom (b_shared b)) \<union> (B - dom (b_shared b1))"
      using 1(2) by blast
    moreover have "(A - dom (b_shared b)) \<inter> (B - dom (b_shared b1)) = {}" using 1(2) by blast
    ultimately have "card (A \<union> B - dom (b_shared b)) = card (A - dom (b_shared b)) + card (B - dom (b_shared b1))"
      using fin by (simp add: card_Un_disjoint)
    with 1 2 show ?thesis by (auto simp: bnd_def)
  qed
  with fin show ?thesis by (simp add: interning_def)
qed

lemma interning_eq: "interning m A \<Longrightarrow> A = B \<Longrightarrow> interning m B"
  by simp

definition adam_constants :: "ext \<Rightarrow> real \<Rightarrow> arr set" where
  "adam_constants E eps =
     (\<lambda>v. to_f32 E (scalar v)) ` {ADAM_BETA1, ADAM_BETA2, 1 - ADAM_BETA1, 1 - ADAM_BETA2, eps}"

lemma interning_adam: "interning (adam_update E param grad m v lr mc vc eps) (adam_constants E eps)"
  unfolding adam_update_def b_sqrt_def b_add_def b_sub_def b_mul_def b_div_def
  by (rule interning_eq, (rule interning_bnd interning_shared_const interning_op interning_ret)+)
    (auto simp: adam_constants_def)

lemma interning_mapM:
  assumes "\<And>x. interning (f x) A"
  shows "interning (mapM f xs) (if xs = [] then {} else A)"
proof (induction xs)
  case Nil
  then show ?case by (simp add: interning_ret)
next
  case (Cons x xs)
  have "interning (mapM f (x # xs)) (A \<union> ((if xs = [] then {} else A) \<union> {}))"
    unfolding mapM.simps by (intro interning_bnd assms Cons.IH interning_ret)
  then show ?case by (rule interning_eq) simp
qed

section \<open>Properties\<close>

text \<open>
  C28.  The nodes \<open>adam_update\<close> appends compute Adam: on the graph the builder holds afterwards, the
  returned names stand for the two moving averages of the gradient and its square, and for the
  parameter moved by \<open>lr * m_hat / (sqrt(v_hat) + eps)\<close>, the hyperparameters rounded to float32.
\<close>

theorem adam_update_correct:
  assumes wf: "builder_wf K b" "builder_ok b" and read: "{param, grad, m, v, lr, mc, vc} \<subseteq> K"
  shows "\<exists>param' m' v' b'. adam_update E param grad m v lr mc vc eps b = (Inr (param', m', v'), b') \<and>
    (let V = run_builder PW b' env in
       V m' = f32 E ADAM_BETA1 * env m + f32 E (1 - ADAM_BETA1) * env grad \<and>
       V v' = f32 E ADAM_BETA2 * env v + f32 E (1 - ADAM_BETA2) * (env grad * env grad) \<and>
       V param' = env param - env lr * (V m' * env mc) / (sqrt (V v' * env vc) + f32 E eps))"
proof -
  obtain param' m' v' b' where run: "adam_update E param grad m v lr mc vc eps b = (Inr (param', m', v'), b')"
    using interningD [OF interning_adam] by (metis prod_cases3)
  have "emit EP_FRIENDLY_OPS K K (adam_update E param grad m v lr mc vc eps) (\<lambda>(p', m', v'). {p', m', v'})"
    using read by (rule emit_adam_update)
  from emitD(1) [OF this wf(1) _ run] have wf': "builder_wf K b'" by (simp add: avail_def)
  have ext: "run_builder PW b' env x = env x" if "x \<in> K" for x
    using run_builder_external [OF wf' that] .
  from yieldsD(3) [OF yields_adam_update wf(2) run run_builder_sound [OF wf'] refl] ext read run
  show ?thesis by (intro exI conjI) (auto simp: Let_def)
qed

definition ex_adam_builder :: builder where
  "ex_adam_builder = new_builder ''opt_''"

lemma ex_adam_wf: "builder_wf {''w'', ''g'', ''m'', ''v'', ''lr'', ''mc'', ''vc''} ex_adam_builder" "builder_ok ex_adam_builder"
proof -
  have "minted ''opt_'' h n \<notin> {''w'', ''g'', ''m'', ''v'', ''lr'', ''mc'', ''vc''}" for h n
    by (simp add: minted_def)
  then show "builder_wf {''w'', ''g'', ''m'', ''v'', ''lr'', ''mc'', ''vc''} ex_adam_builder"
    unfolding ex_adam_builder_def by (intro builder_wf_new) (simp add: unminted_def new_builder_def)
  show "builder_ok ex_adam_builder" by (simp add: ex_adam_builder_def builder_ok_def new_builder_def)
qed

theorem adam_update_correct_witness:
  "\<exists>param' m' v' b'. adam_update \<lparr>f32 = (\<lambda>x. x), np_broadcast = (\<lambda>s t. Inr s)\<rparr> ''w'' ''g'' ''m'' ''v'' ''lr'' ''mc'' ''vc'' 0
      ex_adam_builder = (Inr (param', m', v'), b') \<and>
    run_builder PW b' (\<lambda>x. if x = ''g'' then 10 else 0) m' = 1"
  using adam_update_correct [OF ex_adam_wf, of "''w''" "''g''" "''m''" "''v''" "''lr''" "''mc''" "''vc''"
      "\<lparr>f32 = (\<lambda>x. x), np_broadcast = (\<lambda>s t. Inr s)\<rparr>" 0 "\<lambda>x. if x = ''g'' then 10 else 0"]
  by (fastforce simp: ADAM_BETA1_def Let_def)

text \<open>
  C29.  The nodes \<open>sgd_momentum_update\<close> appends compute heavy-ball momentum: \<open>mom' = mu mom + grad\<close> and
  \<open>param' = param - lr mom'\<close>.
\<close>

theorem sgd_update_correct:
  assumes wf: "builder_wf K b" "builder_ok b" and read: "{param, grad, mom, lr} \<subseteq> K"
    and run: "sgd_momentum_update E param grad mom lr momentum b = (Inr (param', mom'), b')"
  shows "run_builder PW b' env mom' = f32 E momentum * env mom + env grad \<and>
         run_builder PW b' env param' = env param - env lr * (f32 E momentum * env mom + env grad)"
proof -
  have "emit EP_FRIENDLY_OPS K K (sgd_momentum_update E param grad mom lr momentum) (\<lambda>(p', mom'). {p', mom'})"
    using read by (rule emit_sgd_update)
  from emitD(1) [OF this wf(1) _ run] have wf': "builder_wf K b'" by (simp add: avail_def)
  have ext: "run_builder PW b' env x = env x" if "x \<in> K" for x
    using run_builder_external [OF wf' that] .
  from yieldsD(3) [OF yields_sgd_update wf(2) run run_builder_sound [OF wf'] refl] ext read
  show ?thesis by auto
qed

theorem sgd_update_correct_witness:
  "\<exists>param' mom' b'. sgd_momentum_update \<lparr>f32 = (\<lambda>x. x), np_broadcast = (\<lambda>s t. Inr s)\<rparr> ''w'' ''g'' ''m'' ''lr'' SGD_MOMENTUM
      ex_adam_builder = (Inr (param', mom'), b') \<and>
    run_builder PW b' (\<lambda>x. if x = ''g'' then 5 else 1) param' = 1 - (9 / 10 + 5)"
proof -
  let ?E = "\<lparr>f32 = (\<lambda>x. x), np_broadcast = (\<lambda>s t. Inr s)\<rparr>" and ?env = "\<lambda>x. if x = ''g'' then 5 else 1 :: real"
  have "\<exists>param' mom' b'. sgd_momentum_update ?E ''w'' ''g'' ''m'' ''lr'' SGD_MOMENTUM
      ex_adam_builder = (Inr (param', mom'), b')"
    by (simp add: sgd_momentum_update_def ex_adam_builder_def new_builder_def b_shared_const_def f32_const_def
        b_mul_def b_add_def b_sub_def b_op_in_def bnd_def b_name_run add_node_def add_initializer_def ret_run Let_def)
  then obtain param' mom' b' where run: "sgd_momentum_update ?E ''w'' ''g'' ''m'' ''lr'' SGD_MOMENTUM
      ex_adam_builder = (Inr (param', mom'), b')"
    by blast
  from sgd_update_correct [OF ex_adam_wf _ run, of ?env] run show ?thesis
    by (intro exI conjI) (auto simp: SGD_MOMENTUM_def)
qed

text \<open>
  Hyperparameters are interned: updating any number of parameters on one builder appends one
  initializer per distinct hyperparameter value not already there, not one per parameter.
\<close>

theorem adam_constants_interned:
  "length (b_initializer (snd (mapM (\<lambda>(param, grad, m, v). adam_update E param grad m v lr mc vc eps) params b))) =
     length (b_initializer b) + (if params = [] then 0 else card (adam_constants E eps - dom (b_shared b)))"
proof -
  have "interning (mapM (\<lambda>(param, grad, m, v). adam_update E param grad m v lr mc vc eps) params)
      (if params = [] then {} else adam_constants E eps)"
    by (rule interning_mapM) (auto simp: interning_adam split: prod.splits)
  from interningD [OF this, of b] show ?thesis by (auto split: if_splits)
qed

lemma ema_closed: "((\<lambda>x. \<beta> * x + (1 - \<beta>) * g) ^^ n) 0 = (1 - \<beta> ^ n) * (g :: real)"
proof (induction n)
  case (Suc n)
  then show ?case by (simp only: funpow.simps comp_def) (simp add: algebra_simps)
qed simp

text \<open>
  The bias corrections are exactly the ones Adam needs: after \<open>t + 1\<close> steps of \<open>adam_update\<close>'s
  moving averages from zero on a constant gradient, the corrected first moment is the gradient and
  the corrected second moment its square.
\<close>

theorem adam_bias_corrections_unbiased:
  "((\<lambda>m. ADAM_BETA1 * m + (1 - ADAM_BETA1) * g) ^^ (t + 1)) 0 * fst (adam_bias_corrections t) = g \<and>
   ((\<lambda>v. ADAM_BETA2 * v + (1 - ADAM_BETA2) * (g * g)) ^^ (t + 1)) 0 * snd (adam_bias_corrections t) = g * g"
proof -
  have "\<beta> ^ (t + 1) < 1" if "0 \<le> \<beta>" "\<beta> < 1" for \<beta> :: real
    using that power_Suc_less_one [of \<beta> t] by (cases "\<beta> = 0") (simp_all only: Suc_eq_plus1 power_0_Suc, simp_all)
  from this [of ADAM_BETA1] this [of ADAM_BETA2]
  have "1 - ADAM_BETA1 ^ (t + 1) \<noteq> 0" "1 - ADAM_BETA2 ^ (t + 1) \<noteq> 0"
    by (simp_all add: ADAM_BETA1_def ADAM_BETA2_def)
  then show ?thesis
    unfolding ema_closed adam_bias_corrections_def by simp
qed

text \<open>
  C30.  Optimizer steps stay inside the portable operator set and keep the builder well formed: every
  node they append is an \<open>EP_FRIENDLY_OPS\<close> operator, its inputs are defined before it, and its
  outputs are fresh.
\<close>

theorem adam_update_portable:
  assumes "builder_wf K b" and "{param, grad, m, v, lr, mc, vc} \<subseteq> avail K b"
    and "adam_update E param grad m v lr mc vc eps b = (r, b')"
  shows "builder_wf K b' \<and> grows EP_FRIENDLY_OPS b b'"
  using emitD(1,2) [OF emit_adam_update [OF order_refl] assms] by blast

theorem adam_update_portable_witness:
  "builder_wf {''w'', ''g'', ''m'', ''v'', ''lr'', ''mc'', ''vc''}
     (snd (adam_update \<lparr>f32 = (\<lambda>x. x), np_broadcast = (\<lambda>s t. Inr s)\<rparr> ''w'' ''g'' ''m'' ''v'' ''lr'' ''mc'' ''vc'' 0 ex_adam_builder))"
  using adam_update_portable [OF ex_adam_wf(1) _ prod.collapse [symmetric], of "''w''" "''g''" "''m''" "''v''" "''lr''" "''mc''" "''vc''"]
  by (simp add: avail_def)

end
