(* ===== verification/Apply_Step.thy ===== *)
theory Apply_Step
  imports Gradient_Step Optimizers "HOL-Library.AList"
begin

text \<open>
  The optimizer step graph of data-parallel training, \<open>onnxsim/distributed.py\<close>: one \<open>adam_update\<close> per
  trained parameter, whose gradient is a per-step input, wrapped by \<open>make_step_graph\<close>.  A Python dict is
  an association list in insertion order, written with \<open>AList.update\<close>.
\<close>

section \<open>The code\<close>

type_synonym step_state = "(string \<times> shape \<times> string) list"
type_synonym step_feed_info = "(string \<times> shape \<times> int) list"

definition apply_param :: "ext \<Rightarrow> (string \<rightharpoonup> shape) \<Rightarrow> step_state \<times> step_feed_info \<Rightarrow> string
     \<Rightarrow> (step_state \<times> step_feed_info) bst" where
  "apply_param E shapes acc name =
     (case acc of (state, per_step) \<Rightarrow>
      bnd (lift (known_shape shapes name)) (\<lambda>shape.
      bnd (adam_update E name (''grad__'' @ name) (''m__'' @ name) (''v__'' @ name) ''lr'' ''m_correction'' ''v_correction''
             ADAM_EPS) (\<lambda>(param_next, m_next, v_next).
      ret (AList.update (''v__'' @ name) (shape, v_next) (AList.update (''m__'' @ name) (shape, m_next)
             (AList.update name (shape, param_next) state)),
           AList.update (''grad__'' @ name) (shape, TP_FLOAT) per_step))))"

definition build_apply_step_graph ::
  "ext \<Rightarrow> model_tools \<Rightarrow> (string \<rightharpoonup> shape) \<Rightarrow> string list \<Rightarrow> step_graph res" where
  "build_apply_step_graph E T shapes params =
     (case foldM (apply_param E shapes) ([], []) params (new_builder ''dpopt__'') of
        (Inl e, _) \<Rightarrow> Inl e
      | (Inr (state, per_step), b) \<Rightarrow>
          Inr (make_step_graph T b [] state [''lr'', ''m_correction'', ''v_correction''] None []
                 ''onnxsim_dp_apply_step'' (Some per_step) True))"

section \<open>The names involved\<close>

definition apply_reads :: "string \<Rightarrow> string set" where
  "apply_reads p = {p, ''grad__'' @ p, ''m__'' @ p, ''v__'' @ p, ''lr'', ''m_correction'', ''v_correction''}"

definition apply_states :: "string \<Rightarrow> string list" where
  "apply_states p = [p, ''m__'' @ p, ''v__'' @ p]"

text \<open>What the state entries of a parameter stand for: one Adam step on its inputs.\<close>

definition adam_entries :: "ext \<Rightarrow> real env \<Rightarrow> step_state \<Rightarrow> string \<Rightarrow> bool" where
  "adam_entries E V state p \<longleftrightarrow>
     (\<exists>sh p' m' v'. map_of state p = Some (sh, p') \<and> map_of state (''m__'' @ p) = Some (sh, m') \<and>
        map_of state (''v__'' @ p) = Some (sh, v') \<and>
        V m' = f32 E ADAM_BETA1 * V (''m__'' @ p) + f32 E (1 - ADAM_BETA1) * V (''grad__'' @ p) \<and>
        V v' = f32 E ADAM_BETA2 * V (''v__'' @ p) + f32 E (1 - ADAM_BETA2) * (V (''grad__'' @ p) * V (''grad__'' @ p)) \<and>
        V p' = V p - V ''lr'' * (V m' * V ''m_correction'') / (sqrt (V v' * V ''v_correction'') + f32 E ADAM_EPS))"

lemma update_new: "k \<notin> fst ` set al \<Longrightarrow> AList.update k v al = al @ [(k, v)]"
  by (induction al) auto

lemma map_of_new: "k \<notin> fst ` set al \<Longrightarrow> map_of (al @ bs) k = map_of bs k"
  by (induction al) auto

lemma yields_apply_param:
  assumes "distinct (concat (map apply_states (ds @ [p])))"
  shows "yields PW V (apply_param E shapes (state, ps) p) (\<lambda>(state', ps').
    map fst state = concat (map apply_states ds) \<and> (\<forall>q \<in> set ds. adam_entries E V state q) \<longrightarrow>
    map fst state' = concat (map apply_states (ds @ [p])) \<and> (\<forall>q \<in> set (ds @ [p]). adam_entries E V state' q))"
proof -
  let ?new = "\<lambda>a b c. [(p, a), (''m__'' @ p, b), (''v__'' @ p, c)]"
  have fresh: "distinct [p, ''m__'' @ p, ''v__'' @ p]" "set [p, ''m__'' @ p, ''v__'' @ p] \<inter> fst ` set state = {}"
    if "map fst state = concat (map apply_states ds)"
  proof -
    have "fst ` set state = set (concat (map apply_states ds))" by (metis that set_map)
    with assms show "distinct [p, ''m__'' @ p, ''v__'' @ p]" "set [p, ''m__'' @ p, ''v__'' @ p] \<inter> fst ` set state = {}"
      unfolding apply_states_def by (auto simp del: append_Cons)
  qed
  have upd: "AList.update (''v__'' @ p) c (AList.update (''m__'' @ p) b (AList.update p a state)) = state @ ?new a b c"
    if "map fst state = concat (map apply_states ds)" for a b c
    using fresh [OF that] by (simp add: update_new)
  have keep: "adam_entries E V (state @ ?new a b c) q" if "adam_entries E V state q" for a b c q
    using that unfolding adam_entries_def by (auto simp: map_of_append map_add_Some_iff)
  have mine: "map_of (state @ ?new a b c) p = Some a" "map_of (state @ ?new a b c) (''m__'' @ p) = Some b"
    "map_of (state @ ?new a b c) (''v__'' @ p) = Some c"
    if "map fst state = concat (map apply_states ds)" for a b c
    using fresh [OF that] by (simp_all add: map_of_new del: map_of_append)
  note steps = upd [simplified] keep [simplified] mine [simplified]
  show ?thesis
    unfolding apply_param_def prod.case
    by (rule yields_lift_bnd yields_bnd [OF yields_adam_update] yields_case_prod yields_ret)+
      (clarsimp simp: steps apply_states_def, simp add: adam_entries_def steps)
qed

section \<open>The step is Adam\<close>

lemma emit_apply_param:
  assumes "apply_reads p \<subseteq> S"
  shows "emit EP_FRIENDLY_OPS K S (apply_param E shapes acc p) (\<lambda>_. {})"
  unfolding apply_param_def
  by (rule emit_prod emit_lift_bnd emit_bnd emit_adam_update emit_ret | (use assms in \<open>auto simp: apply_reads_def\<close>; fail)[1])+

lemma make_step_graph_state: "sg_state (make_step_graph T b constants state scalars loss sh name per_step simp) =
    map (\<lambda>(n, _, out). (n, out)) state"
  by (simp add: make_step_graph_def Let_def)

lemma map_of_outputs: "map_of state n = Some (sh, out) \<Longrightarrow> map_of (map (\<lambda>(n, _, out). (n, out)) state) n = Some out"
  by (induction state) (auto split: if_splits)

text \<open>
  C4.  The shared optimizer step is one Adam step per parameter.  The model \<open>build_apply_step_graph\<close>
  returns has a state entry for every parameter and its two moments, and, run on the parameters, the
  averaged gradients, the moments, the learning rate and the corrections it is fed, yields for each
  of them what \<open>adam_update\<close> promises, whatever the other parameters are.
\<close>

theorem apply_step_is_adam:
  assumes tools: "keeps_meaning PW (inline_functions T)" "keeps_meaning PW (simplify_model T)"
    and names: "'''' \<notin> \<Union> (apply_reads ` set params)" "unminted (\<Union> (apply_reads ` set params)) (new_builder ''dpopt__'')"
      "distinct (concat (map apply_states params))"
    and run: "build_apply_step_graph E T shapes params = Inr step" and p: "p \<in> set params"
  shows "map fst (sg_state step) = concat (map apply_states params) \<and>
    (\<exists>p' m' v'. map_of (sg_state step) p = Some p' \<and> map_of (sg_state step) (''m__'' @ p) = Some m' \<and>
       map_of (sg_state step) (''v__'' @ p) = Some v' \<and>
       (let V = run_model PW (sg_model step) env in
        V m' = f32 E ADAM_BETA1 * env (''m__'' @ p) + f32 E (1 - ADAM_BETA1) * env (''grad__'' @ p) \<and>
        V v' = f32 E ADAM_BETA2 * env (''v__'' @ p) + f32 E (1 - ADAM_BETA2) * (env (''grad__'' @ p) * env (''grad__'' @ p)) \<and>
        V p' = env p - env ''lr'' * (V m' * env ''m_correction'') / (sqrt (V v' * env ''v_correction'') + f32 E ADAM_EPS)))"
proof -
  let ?K = "\<Union> (apply_reads ` set params)" and ?b = "new_builder ''dpopt__''"
  obtain state ps b where fold: "foldM (apply_param E shapes) ([], []) params ?b = (Inr (state, ps), b)"
      and step: "step = make_step_graph T b [] state [''lr'', ''m_correction'', ''v_correction''] None []
        ''onnxsim_dp_apply_step'' (Some ps) True"
    using run by (auto simp: build_apply_step_graph_def split: prod.splits sum.splits)
  have "emit EP_FRIENDLY_OPS ?K ?K (foldM (apply_param E shapes) ([], []) params) (\<lambda>_. {})"
    by (intro emit_foldM emit_apply_param) auto
  from emitD(1) [OF this builder_wf_new [OF names(2)] _ fold] have wf: "builder_wf ?K b" by (simp add: avail_def)
  let ?V = "run_builder PW b env"
  have ext: "?V x = env x" if "x \<in> apply_reads p" for x
    using that p by (intro run_builder_external [OF wf]) blast
  define Inv where "Inv = (\<lambda>ds (r :: step_state \<times> step_feed_info). map fst (fst r) = concat (map apply_states ds) \<and>
    (\<forall>q \<in> set ds. adam_entries E ?V (fst r) q))"
  have "yields PW ?V (apply_param E shapes acc q) (\<lambda>acc'. Inv ds acc \<longrightarrow> Inv (ds @ [q]) acc')"
    if "params = ds @ q # rest" for ds q rest acc
  proof -
    have "distinct (concat (map apply_states (ds @ [q])))" using names(3) that by (simp add: Int_Un_distrib)
    from yields_apply_param [OF this] show ?thesis
      by (cases acc) (simp add: Inv_def case_prod_beta')
  qed
  then have "yields PW ?V (foldM (apply_param E shapes) ([], []) params) (\<lambda>r. Inv [] ([], []) \<longrightarrow> Inv params r)"
    by (rule yields_foldM)
  from yieldsD(3) [OF this _ fold run_builder_sound [OF wf] refl]
  have keys: "map fst state = concat (map apply_states params)" and adam: "adam_entries E ?V state p"
    using p by (simp_all add: builder_ok_def new_builder_def Inv_def)
  from adam obtain sh p' m' v' where e: "map_of state p = Some (sh, p')" "map_of state (''m__'' @ p) = Some (sh, m')"
      "map_of state (''v__'' @ p) = Some (sh, v')"
      and eqs: "?V m' = f32 E ADAM_BETA1 * ?V (''m__'' @ p) + f32 E (1 - ADAM_BETA1) * ?V (''grad__'' @ p)"
        "?V v' = f32 E ADAM_BETA2 * ?V (''v__'' @ p) + f32 E (1 - ADAM_BETA2) * (?V (''grad__'' @ p) * ?V (''grad__'' @ p))"
        "?V p' = ?V p - ?V ''lr'' * (?V m' * ?V ''m_correction'') / (sqrt (?V v' * ?V ''v_correction'') + f32 E ADAM_EPS)"
    unfolding adam_entries_def by blast
  have out: "run_model PW (sg_model step) env out = ?V out" if "map_of state n = Some (sh, out)" for n out
    unfolding step by (rule make_step_graph_meaning [OF tools map_of_SomeD [OF that]])
  have sg: "sg_state step = map (\<lambda>(n, _, out). (n, out)) state"
    unfolding step by (rule make_step_graph_state)
  have "map fst (sg_state step) = concat (map apply_states params)"
    unfolding sg keys [symmetric] by (induction state) auto
  moreover note map_of_outputs [OF e(1), folded sg] map_of_outputs [OF e(2), folded sg] map_of_outputs [OF e(3), folded sg]
  moreover have "?V x = env x" if "x \<in> {p, ''grad__'' @ p, ''m__'' @ p, ''v__'' @ p, ''lr'', ''m_correction'', ''v_correction''}" for x
    using that by (intro ext) (simp add: apply_reads_def)
  then have "?V p = env p" "?V (''grad__'' @ p) = env (''grad__'' @ p)" "?V (''m__'' @ p) = env (''m__'' @ p)"
    "?V (''v__'' @ p) = env (''v__'' @ p)" "?V ''lr'' = env ''lr''" "?V ''m_correction'' = env ''m_correction''"
    "?V ''v_correction'' = env ''v_correction''"
    by blast+
  note eqs [unfolded this]
  ultimately show ?thesis
    unfolding Let_def using out [OF e(1)] out [OF e(2)] out [OF e(3)] by metis
qed

text \<open>One parameter, a gradient of ten: the first moment becomes one.\<close>

definition dp_apply :: "step_graph res" where
  "dp_apply = build_apply_step_graph exact_ext dp_tools (\<lambda>_. Some []) [''w'']"

lemma dp_apply_returns: "\<exists>step. dp_apply = Inr step"
proof -
  obtain p' m' v' b where "adam_update exact_ext ''w'' (''grad__'' @ ''w'') (''m__'' @ ''w'') (''v__'' @ ''w'') ''lr''
      ''m_correction'' ''v_correction'' ADAM_EPS (new_builder ''dpopt__'') = (Inr (p', m', v'), b)"
    using interningD [OF interning_adam] by (metis prod_cases3)
  then show ?thesis
    by (simp add: dp_apply_def build_apply_step_graph_def apply_param_def known_shape_def bnd_def ret_run)
qed

theorem apply_step_is_adam_witness:
  "\<exists>step m'. dp_apply = Inr step \<and> map_of (sg_state step) ''m__w'' = Some m' \<and>
     run_model PW (sg_model step) (\<lambda>x. if x = ''grad__w'' then 10 else 0) m' = 1"
proof -
  obtain step where run: "dp_apply = Inr step" using dp_apply_returns by blast
  have tools: "keeps_meaning PW (inline_functions dp_tools)" "keeps_meaning PW (simplify_model dp_tools)"
    by (simp_all add: keeps_meaning_def preserves_interface_def dp_tools_def)
  have "minted ''dpopt__'' h n \<notin> \<Union> (apply_reads ` set [''w''])" for h n
    by (simp add: minted_def apply_reads_def)
  then have names: "unminted (\<Union> (apply_reads ` set [''w''])) (new_builder ''dpopt__'')"
    by (simp add: unminted_def new_builder_def)
  have "'''' \<notin> \<Union> (apply_reads ` set [''w''])" "distinct (concat (map apply_states [''w'']))" "''w'' \<in> set [''w'']"
    by (simp_all add: apply_reads_def apply_states_def)
  from apply_step_is_adam [OF tools this(1) names this(2) run [unfolded dp_apply_def] this(3),
      where env = "\<lambda>x. if x = ''grad__w'' then 10 else 0"] run
  show ?thesis by (auto simp: Let_def exact_ext_def ADAM_BETA1_def)
qed

end
