(* ===== verification/Rule_Arity.thy ===== *)
theory Rule_Arity
  imports Backward_Pass
begin

text \<open>
  How many gradients a rule returns.  \<open>build_backward\<close> asserts one per node input; the lemmas show
  the assertion cannot fail for a node with a legal number of inputs, with one exception: a
  \<open>LayerNormalization\<close> whose optional bias is spelled as an empty name.
\<close>

section \<open>What a program can return\<close>

definition returns :: "('s, 'a) st \<Rightarrow> ('a \<Rightarrow> bool) \<Rightarrow> bool" where
  "returns m P \<longleftrightarrow> (\<forall>s x s'. m s = (Inr x, s') \<longrightarrow> P x)"

lemma returns_ret: "P x \<Longrightarrow> returns (ret x) P"
  by (simp add: returns_def ret_run)

lemma returns_lift: "(\<And>x. r = Inr x \<Longrightarrow> P x) \<Longrightarrow> returns (lift r) P"
  by (auto simp: returns_def lift_run)

lemma returns_bnd: "(\<And>x. returns (f x) P) \<Longrightarrow> returns (bnd m f) P"
  by (auto simp: returns_def bnd_def split: prod.splits sum.splits)

lemma returns_lift_bnd: "(\<And>x. r = Inr x \<Longrightarrow> returns (f x) P) \<Longrightarrow> returns (bnd (lift r) f) P"
  by (cases r) (auto intro: returns_lift)

lemma returns_mbnd: "returns m Q \<Longrightarrow> (\<And>x. Q x \<Longrightarrow> returns (f x) P) \<Longrightarrow> returns (bnd m f) P"
  unfolding returns_def bnd_def by (force split: prod.splits sum.splits)

lemma returns_if: "(c \<Longrightarrow> returns m P) \<Longrightarrow> (\<not> c \<Longrightarrow> returns m' P) \<Longrightarrow> returns (if c then m else m') P"
  by simp

lemma returns_option:
  "(x = None \<Longrightarrow> returns m P) \<Longrightarrow> (\<And>y. x = Some y \<Longrightarrow> returns (f y) P) \<Longrightarrow>
     returns (case x of None \<Rightarrow> m | Some y \<Rightarrow> f y) P"
  by (cases x) auto

lemma returns_list:
  "(xs = [] \<Longrightarrow> returns m P) \<Longrightarrow> (\<And>y ys. xs = y # ys \<Longrightarrow> returns (f y ys) P) \<Longrightarrow>
     returns (case xs of [] \<Rightarrow> m | y # ys \<Rightarrow> f y ys) P"
  by (cases xs) auto

lemma returns_prod: "(\<And>y z. x = (y, z) \<Longrightarrow> returns (f y z) P) \<Longrightarrow> returns (case x of (y, z) \<Rightarrow> f y z) P"
  by (cases x) auto

lemmas returns_intros = returns_lift_bnd returns_bnd returns_if returns_option returns_list returns_prod
  returns_lift returns_ret

section \<open>Legal numbers of inputs\<close>

text \<open>The number of inputs the ONNX operator specification allows, omitted optional ones included.\<close>

definition arity_ok :: "string \<Rightarrow> nat \<Rightarrow> bool" where
  "arity_ok ty n =
     (if ty \<in> {''Add'', ''Sub'', ''Mul'', ''Div'', ''MatMul'', ''Gather'', ''Reshape'', ''PRelu'', ''Expand''} then n = 2
      else if ty \<in> {''Where'', ''InstanceNormalization''} then n = 3
      else if ty \<in> {''Conv'', ''Gemm'', ''LayerNormalization''} then n = 2 \<or> n = 3
      else if ty = ''BatchNormalization'' then n = 5
      else if ty = ''Clip'' then 1 \<le> n \<and> n \<le> 3
      else if ty \<in> {''ReduceSum'', ''ReduceMean'', ''Squeeze'', ''Unsqueeze''} then n = 1 \<or> n = 2
      else if ty \<in> {''Slice'', ''Pad'', ''Concat'', ''QuantizeLinear'', ''DequantizeLinear''} then 1 \<le> n
      else n = 1)"

definition returns_all :: "node \<Rightarrow> string option list bst \<Rightarrow> bool" where
  "returns_all nd m \<longleftrightarrow> returns m (\<lambda>cs. length cs = length (inputs nd))"

lemma item_at_length: "item_at xs i = Inr x \<Longrightarrow> i < length xs"
  by (simp add: item_at_Inr_iff)

lemma returns_gemm_bias:
  "returns (gemm_bias C nd g beta) (\<lambda>rest. length rest = (if length (inputs nd) \<le> 2 then 0 else 1))"
  unfolding gemm_bias_def by (rule returns_intros | simp; fail)+

lemma returns_concat:
  "returns (foldM (concat_step C axis g) acc xs) (\<lambda>r. length (fst r) = length (fst acc) + length xs)"
proof (induction xs arbitrary: acc)
  case Nil
  then show ?case by (auto intro: returns_ret)
next
  case (Cons x xs)
  have "returns (concat_step C axis g acc x) (\<lambda>r. length (fst r) = Suc (length (fst acc)))"
    unfolding concat_step_def by (rule returns_intros | simp; fail)+
  then show ?case
    using Cons by (auto intro!: returns_mbnd elim: returns_mbnd simp: returns_def bnd_def split: prod.splits sum.splits)
qed

lemma returns_bn_channel_grads: "returns (bn_channel_grads E axes g dx i xhat) (\<lambda>rest. length rest = 4)"
  unfolding bn_channel_grads_def by (rule returns_intros | simp; fail)+

lemma arity_binary:
  assumes "length (inputs nd) = 2"
  shows "returns_all nd (grad_add_templated C nd g)"
    and "returns_all nd (grad_div_templated C nd g)"
    and "returns_all nd (grad_gather C nd g)"
    and "returns_all nd (grad_matmul C nd g)"
    and "returns_all nd (grad_mul_templated C nd g)"
    and "returns_all nd (grad_reshape C nd g)"
    and "returns_all nd (grad_sub C nd g)"
    and "returns_all nd (grad_expand C nd g)"
    and "returns_all nd (grad_prelu_scalar C nd g)"
  using assms unfolding returns_all_def Let_def
    grad_add_templated_def
    grad_div_templated_def
    grad_gather_def
    grad_matmul_def
    grad_mul_templated_def
    grad_reshape_def
    grad_sub_def
    grad_expand_def
    grad_prelu_scalar_def
  by - (rule returns_intros | (auto; fail)[1])+

lemma arity_unary:
  assumes "length (inputs nd) = 1"
  shows "returns_all nd (grad_averagepool C nd g)"
    and "returns_all nd (grad_erf_templated C nd g)"
    and "returns_all nd (grad_exp_templated C nd g)"
    and "returns_all nd (grad_identity C nd g)"
    and "returns_all nd (grad_log_templated C nd g)"
    and "returns_all nd (grad_maxpool C nd g)"
    and "returns_all nd (grad_neg_templated C nd g)"
    and "returns_all nd (grad_relu C nd g)"
    and "returns_all nd (grad_sigmoid_templated C nd g)"
    and "returns_all nd (grad_softmax C nd g)"
    and "returns_all nd (grad_sqrt_templated C nd g)"
    and "returns_all nd (grad_tanh_templated C nd g)"
    and "returns_all nd (grad_transpose C nd g)"
    and "returns_all nd (grad_depth_to_space C nd g)"
    and "returns_all nd (grad_elu C nd g)"
    and "returns_all nd (grad_global_averagepool C nd g)"
    and "returns_all nd (grad_is_nan C nd g)"
    and "returns_all nd (grad_leaky_relu C nd g)"
    and "returns_all nd (grad_softplus C nd g)"
  using assms unfolding returns_all_def Let_def
    grad_averagepool_def
    grad_erf_templated_def
    grad_exp_templated_def
    grad_identity_def
    grad_log_templated_def
    grad_maxpool_def
    grad_neg_templated_def
    grad_relu_def
    grad_sigmoid_templated_def
    grad_softmax_def
    grad_sqrt_templated_def
    grad_tanh_templated_def
    grad_transpose_def
    grad_depth_to_space_def
    grad_elu_def
    grad_global_averagepool_def
    grad_is_nan_def
    grad_leaky_relu_def
    grad_softplus_def
  by - (rule returns_intros | (auto; fail)[1])+

lemma arity_leading:
  assumes "1 \<le> length (inputs nd)"
  shows "returns_all nd (grad_clip C nd g)"
    and "returns_all nd (grad_reduce C nd g)"
    and "returns_all nd (grad_dequantize_linear C nd g)"
    and "returns_all nd (grad_pad C nd g)"
    and "returns_all nd (grad_quantize_linear C nd g)"
    and "returns_all nd (grad_slice C nd g)"
    and "returns_all nd (grad_squeeze_or_unsqueeze C nd g)"
  using assms unfolding returns_all_def Let_def
    grad_clip_def
    grad_reduce_def
    grad_dequantize_linear_def
    grad_pad_def
    grad_quantize_linear_def
    grad_slice_def
    grad_squeeze_or_unsqueeze_def
  by - (rule returns_intros | (auto; fail)[1])+

lemma arity_conv:
  assumes "2 \<le> length (inputs nd) \<and> length (inputs nd) \<le> 3"
  shows "returns_all nd (grad_conv C nd g)"
  using assms unfolding returns_all_def Let_def
    grad_conv_def
  by - (rule returns_intros | (auto; fail)[1])+

lemma arity_ternary:
  assumes "length (inputs nd) = 3"
  shows "returns_all nd (grad_instance_normalization C nd g)"
    and "returns_all nd (grad_where C nd g)"
  using assms unfolding returns_all_def Let_def
    grad_instance_normalization_def
    grad_where_def
  by - (rule returns_intros | (auto; fail)[1])+

lemma arity_batch_normalization_templated:
  assumes "length (inputs nd) = 5"
  shows "returns_all nd (grad_batch_normalization_templated C nd g)"
proof -
  have "returns (bnd m (\<lambda>outs. bnd (lift (unpack5 outs)) (\<lambda>(dx, dscale, dbias, dmean, dvar).
      ret [Some dx, Some dscale, Some dbias, Some dmean, Some dvar]))) (\<lambda>cs. length cs = length (inputs nd))" for m :: "string list bst"
    using assms by - (rule returns_intros | (auto; fail)[1])+
  then show ?thesis
    unfolding returns_all_def grad_batch_normalization_templated_def
    by (intro returns_bnd) (auto split: prod.splits)
qed

lemma arity_gemm: "2 \<le> length (inputs nd) \<Longrightarrow> length (inputs nd) \<le> 3 \<Longrightarrow> returns_all nd (grad_gemm C nd g)"
  unfolding returns_all_def grad_gemm_def Let_def
  by (rule returns_mbnd [OF returns_gemm_bias] returns_intros | (auto; fail)[1])+

lemma arity_concat: "returns_all nd (grad_concat C nd g)"
  unfolding returns_all_def grad_concat_def
  by (rule returns_mbnd [OF returns_concat] returns_intros | (auto; fail)[1])+

lemma arity_layer_normalization:
  "length (inputs nd) = (if real_input nd 2 then 3 else 2) \<Longrightarrow> returns_all nd (grad_layer_normalization C nd g)"
  unfolding returns_all_def grad_layer_normalization_def Let_def
  by (rule returns_intros | (auto; fail)[1])+

section \<open>The assertion of the pass\<close>

lemma table_cases:
  assumes "(map_of RULES ++ map_of PYTHON_ONLY_RULES) ty = Some rl"
  shows "(ty, rl) \<in> set (RULES @ PYTHON_ONLY_RULES)"
  using assms by (auto simp: map_add_Some_iff dest: map_of_SomeD)

text \<open>
  C12.  The assertion of \<open>build_backward\<close> is safe: for a node with a number of inputs its operator
  allows, every rule of the default tables returns exactly one entry per input, so the
  accumulation that follows never raises \<open>AssertionError\<close>.  The one exception is a
  \<open>LayerNormalization\<close> whose optional third input is present but spelled as the empty name.
\<close>

theorem gradients_per_input:
  assumes rl: "(map_of RULES ++ map_of PYTHON_ONLY_RULES) (op_type nd) = Some rl"
    and legal: "arity_ok (op_type nd) (length (inputs nd))"
    and bias: "op_type nd = ''LayerNormalization'' \<Longrightarrow> length (inputs nd) = 3 \<Longrightarrow> inputs nd ! 2 \<noteq> ''''"
    and run: "rl C nd g b = (Inr cs, b')"
  shows "length cs = length (inputs nd) \<and> (\<forall>gr. accumulate nd cs gr b' = foldM accumulate_one gr (zip (inputs nd) cs) b')"
proof -
  have "returns_all nd (rl C nd g)"
    using table_cases [OF rl] legal bias unfolding RULES_def PYTHON_ONLY_RULES_def
    by (auto simp: arity_ok_def real_input_def arity_unary arity_binary arity_ternary arity_leading arity_conv
        arity_gemm arity_concat arity_batch_normalization_templated intro!: arity_layer_normalization)
  with run have "length cs = length (inputs nd)"
    by (auto simp: returns_all_def returns_def)
  then show ?thesis by (simp add: accumulate_def bnd_def lift_run)
qed

text \<open>
  C13.  The exception is real: a \<open>LayerNormalization\<close> node with inputs \<open>[x, scale, ""]\<close> is legal ONNX
  (the bias is optional), its rule computes both gradients, and the pass then fails with
  \<open>AssertionError\<close> because the rule returns two entries where the other optional-bias rules append
  \<open>None\<close>.
\<close>

theorem layer_norm_empty_bias_asserts:
  assumes nd: "op_type nd = ''LayerNormalization''" "inputs nd = [x, scale, '''']" "outputs nd = [y]"
    and seed: "gr y = Some g"
    and run: "grad_layer_normalization C nd g b = (Inr cs, b')"
  shows "backward_step (map_of RULES ++ map_of PYTHON_ONLY_RULES) C gr nd b = (Inl AssertionError, b')"
proof -
  have "returns (grad_layer_normalization C nd g) (\<lambda>cs. length cs = 2)"
    unfolding grad_layer_normalization_def Let_def real_input_def using nd(2)
    by - (rule returns_intros | (auto; fail)[1])+
  with run have "length cs = 2" by (auto simp: returns_def)
  then have "accumulate nd cs gr b' = (Inl AssertionError, b')"
    by (simp add: accumulate_def bnd_def lift_run nd(2))
  then show ?thesis
    by (simp add: backward_step_def nd seed MULTI_OUTPUT_RULES_def RULES_def PYTHON_ONLY_RULES_def bnd_def run)
qed

definition ex_norm :: node where
  "ex_norm = make_node ''LayerNormalization'' [''x'', ''s'', ''''] [''y''] '''' []"

definition ex_norm_ctx :: ctx where
  "ex_norm_ctx = \<lparr>c_ext = \<lparr>f32 = (\<lambda>v. v), np_broadcast = (\<lambda>s t. Inr s)\<rparr>,
     c_shapes = [''x'' \<mapsto> [DInt 2, DInt 3], ''s'' \<mapsto> [DInt 3]], c_inits = Map.empty\<rparr>"

definition succeeds :: "(builder, 'a) st \<Rightarrow> bool" where
  "succeeds m \<longleftrightarrow> (\<forall>b. \<exists>x b'. m b = (Inr x, b'))"

lemma succeeds_bnd: "succeeds m \<Longrightarrow> (\<And>x. succeeds (f x)) \<Longrightarrow> succeeds (bnd m f)"
  unfolding succeeds_def bnd_def by (metis (no_types, lifting) old.prod.case old.sum.simps(6))

lemma succeeds_lift_bnd: "r = Inr x \<Longrightarrow> succeeds (f x) \<Longrightarrow> succeeds (bnd (lift r) f)"
  by simp

lemma succeeds_ret: "succeeds (ret x)"
  by (simp add: succeeds_def ret_run)

lemma succeeds_b_op_in: "succeeds (b_op_in ty ins h d as)"
  by (simp add: succeeds_def b_op_in_def bnd_def b_name_run add_node_def ret_run)

lemma succeeds_b_const: "succeeds (b_const E v h)"
  by (simp add: succeeds_def b_const_def f32_const_def bnd_def b_name_run add_initializer_def ret_run Let_def)

lemma succeeds_int64_const: "as_int64 ds = Inr arr \<Longrightarrow> succeeds (int64_const ds h)"
  by (simp add: succeeds_def int64_const_def bnd_def b_name_run add_initializer_def ret_run lift_run)

lemmas succeeds_intros = succeeds_ret succeeds_b_op_in succeeds_b_const succeeds_int64_const succeeds_bnd

lemma succeeds_norm_stats: "succeeds (norm_stats E eps axes x)"
  unfolding norm_stats_def reduce_mean_def b_sub_def b_mul_def b_add_def b_sqrt_def b_div_def
  by (intro succeeds_intros)

lemma succeeds_norm_dx: "succeeds (norm_dx axes gs inv_sd xhat)"
  unfolding norm_dx_def reduce_mean_def b_sub_def b_mul_def
  by (intro succeeds_intros)

lemma ex_norm_returns:
  "\<exists>cs b'. grad_layer_normalization ex_norm_ctx ex_norm ''gy'' (new_builder ''bw_'') = (Inr cs, b')"
proof -
  have "succeeds (grad_layer_normalization ex_norm_ctx ex_norm ''gy'')"
    unfolding grad_layer_normalization_def ex_norm_def ex_norm_ctx_def
    by (simp add: ctx_shape_def Let_def make_node_def attr_or_def attr_get_def default_epsilon_def
        mod_len_def real_input_def, rule succeeds_bnd [OF succeeds_norm_stats])
      (auto intro!: succeeds_intros succeeds_norm_dx simp: b_mul_def reduce_to_def in_int64_def
        as_int64_def refuse_if_def)
  then show ?thesis by (simp add: succeeds_def)
qed

theorem layer_norm_empty_bias_asserts_witness:
  "\<exists>b'. backward_step (map_of RULES ++ map_of PYTHON_ONLY_RULES) ex_norm_ctx [''y'' \<mapsto> ''gy''] ex_norm
     (new_builder ''bw_'') = (Inl AssertionError, b')"
proof -
  obtain cs b' where "grad_layer_normalization ex_norm_ctx ex_norm ''gy'' (new_builder ''bw_'') = (Inr cs, b')"
    using ex_norm_returns by blast
  from layer_norm_empty_bias_asserts [OF _ _ _ _ this, of _ _ "''y''"] show ?thesis
    by (auto simp: ex_norm_def)
qed

theorem gradients_per_input_witness:
  "\<exists>cs b'. grad_identity ex_norm_ctx (make_node ''Identity'' [''x''] [''y''] '''' []) ''gy'' (new_builder ''bw_'') = (Inr cs, b')
     \<and> length cs = 1"
proof -
  let ?nd = "make_node ''Identity'' [''x''] [''y''] '''' []"
  obtain cs b' where run: "grad_identity ex_norm_ctx ?nd ''gy'' (new_builder ''bw_'') = (Inr cs, b')"
    by (simp add: grad_identity_def ret_run)
  then show ?thesis
    using gradients_per_input [of ?nd grad_identity ex_norm_ctx "''gy''" "new_builder ''bw_''" cs b'] by (auto simp: RULES_def PYTHON_ONLY_RULES_def arity_ok_def)
qed

end
