(* ===== verification/Minibatch.thy ===== *)
theory Minibatch
  imports Prelude "HOL-Library.Multiset"
begin

text \<open>
  \<open>minibatch_indices\<close> of \<open>onnxsim/qat_graph.py\<close>: the rows each step of a minibatched loop trains on.
  The closure keeps a cache of epoch permutations; the lemmas show that the cache is invisible, that
  a batch always fills up, and that every row is visited equally often.  numpy's generator is outside
  the repository: \<open>draw seed epoch n\<close> stands for \<open>default_rng([seed, epoch]).permutation(n)\<close>.
\<close>

section \<open>The closure\<close>

type_synonym draw = "int \<Rightarrow> nat \<Rightarrow> nat \<Rightarrow> nat list"
type_synonym perm_cache = "nat \<rightharpoonup> nat list"

text \<open>The order of an epoch when it is drawn afresh: \<open>np.arange\<close> without shuffling.\<close>

definition epoch_order :: "draw \<Rightarrow> int \<Rightarrow> bool \<Rightarrow> nat \<Rightarrow> nat \<Rightarrow> nat list" where
  "epoch_order draw seed shuffle num_rows epoch =
     (if shuffle then draw seed epoch num_rows else [0..<num_rows])"

text \<open>\<open>permutation(epoch)\<close>: a cached order, or a fresh one after dropping the entries older than the last epoch.\<close>

definition permutation :: "(nat \<Rightarrow> nat list) \<Rightarrow> nat \<Rightarrow> perm_cache \<Rightarrow> nat list \<times> perm_cache" where
  "permutation order epoch cache =
     (case cache epoch of
        Some cached \<Rightarrow> (cached, cache)
      | None \<Rightarrow>
          let drawn = order epoch
          in (drawn, (cache |` {e. \<not> int e < int epoch - 1})(epoch \<mapsto> drawn)))"

text \<open>\<open>while filled < batch_size\<close>; None is a loop that never ends.\<close>

partial_function (option) fill_rows ::
  "(nat \<Rightarrow> nat list) \<Rightarrow> nat \<Rightarrow> nat \<Rightarrow> nat \<Rightarrow> nat list \<Rightarrow> nat \<Rightarrow> perm_cache \<Rightarrow> (nat list \<times> perm_cache) option" where
  "fill_rows order num_rows batch_size t indices filled cache =
     (if \<not> filled < batch_size then Some (indices, cache)
      else
        let position = t * batch_size + filled;
            epoch = position div num_rows; offset = position mod num_rows;
            n = min (num_rows - offset) (batch_size - filled);
            (perm, cache') = permutation order epoch cache
        in fill_rows order num_rows batch_size t
             (indices @ take n (drop offset perm)) (filled + n) cache')"

definition rows :: "(nat \<Rightarrow> nat list) \<Rightarrow> nat \<Rightarrow> nat \<Rightarrow> nat \<Rightarrow> perm_cache \<Rightarrow> (nat list \<times> perm_cache) option" where
  "rows order num_rows batch_size t cache = fill_rows order num_rows batch_size t [] 0 cache"

text \<open>The factory: both counts are checked, then the closure starts with an empty cache.\<close>

definition minibatch_indices ::
  "draw \<Rightarrow> int \<Rightarrow> int \<Rightarrow> int \<Rightarrow> bool
     \<Rightarrow> ((nat \<Rightarrow> perm_cache \<Rightarrow> (nat list \<times> perm_cache) option) \<times> perm_cache) res" where
  "minibatch_indices draw num_rows batch_size seed shuffle =
     bindE (refuse_if (num_rows < 1) ValueError) (\<lambda>_.
     bindE (refuse_if (batch_size < 1) ValueError) (\<lambda>_.
     Inr (rows (epoch_order draw seed shuffle (nat num_rows)) (nat num_rows) (nat batch_size), Map.empty)))"

text \<open>A sequence of calls of the closure, the cache threaded through.\<close>

fun calls :: "(nat \<Rightarrow> 'c \<Rightarrow> ('a \<times> 'c) option) \<Rightarrow> nat list \<Rightarrow> 'c \<Rightarrow> ('a list \<times> 'c) option" where
  "calls f [] c = Some ([], c)"
| "calls f (t # ts) c =
     (case f t c of None \<Rightarrow> None | Some (x, c') \<Rightarrow>
        (case calls f ts c' of None \<Rightarrow> None | Some (xs, c'') \<Rightarrow> Some (x # xs, c'')))"

section \<open>The stream of positions\<close>

text \<open>The specification of the documentation: position \<open>p\<close> is row \<open>perm[p // N][p % N]\<close>.\<close>

definition stream :: "(nat \<Rightarrow> nat list) \<Rightarrow> nat \<Rightarrow> nat \<Rightarrow> nat" where
  "stream order num_rows p = order (p div num_rows) ! (p mod num_rows)"

definition cache_ok :: "(nat \<Rightarrow> nat list) \<Rightarrow> perm_cache \<Rightarrow> bool" where
  "cache_ok order cache \<longleftrightarrow> (\<forall>e p. cache e = Some p \<longrightarrow> p = order e)"

lemma permutation_order: "cache_ok order cache \<Longrightarrow> fst (permutation order epoch cache) = order epoch"
  by (auto simp: permutation_def cache_ok_def Let_def split: option.split)

lemma permutation_cache_ok: "cache_ok order cache \<Longrightarrow> cache_ok order (snd (permutation order epoch cache))"
  by (auto simp: permutation_def cache_ok_def Let_def restrict_map_def split: option.split if_splits)

lemma upt_split: "i \<le> j \<Longrightarrow> j \<le> k \<Longrightarrow> [i..<j] @ [j..<k] = [i..<k]"
  using upt_add_eq_append [of i j "k - j"] by simp

lemma block_position: "a < n \<Longrightarrow> (a + n * q) div n = q \<and> (a + n * q) mod n = a" for a n q :: nat
  by simp

text \<open>Every cached epoch is \<open>e\<close> or the one before it.\<close>

definition cache_recent :: "nat \<Rightarrow> perm_cache \<Rightarrow> bool" where
  "cache_recent e cache \<longleftrightarrow> (\<forall>k p. cache k = Some p \<longrightarrow> k \<le> e \<and> e \<le> k + 1)"

lemma cache_recent_permutation:
  "cache_recent e cache \<Longrightarrow> e \<le> epoch \<Longrightarrow> cache_recent epoch (snd (permutation order epoch cache))"
proof (cases "cache epoch")
  case None
  assume "cache_recent e cache" "e \<le> epoch"
  moreover have "snd (permutation order epoch cache) k = Some q \<Longrightarrow>
      k = epoch \<or> epoch \<le> k + 1 \<and> (\<exists>q'. cache k = Some q')" for k q
    using None by (auto simp: permutation_def Let_def restrict_map_def split: if_splits)
  ultimately show ?thesis unfolding cache_recent_def by (metis le_add1 le_trans order_refl)
next
  case (Some p)
  assume a: "cache_recent e cache" "e \<le> epoch"
  with Some have "epoch = e" by (auto simp: cache_recent_def)
  with a Some show ?thesis by (simp add: permutation_def)
qed

text \<open>
  What the loop relies on: every epoch is an ordering of the rows, and there is a row.  The counting
  lemmas are the client's; the provider is \<open>epoch_order\<close>.
\<close>

locale row_order =
  fixes order :: "nat \<Rightarrow> nat list" and num_rows :: nat
  assumes order_rows: "mset (order e) = mset [0..<num_rows]" and some_row: "0 < num_rows"
begin

lemma order_length: "length (order e) = num_rows"
  using arg_cong [OF order_rows [of e], of size] by simp

lemma order_count: "count_list (order e) r = (if r < num_rows then 1 else 0)"
proof -
  have "count (mset [0..<num_rows]) r = (if r \<in> set [0..<num_rows] then 1 else 0)"
    using distinct_count_atmost_1 [of "[0..<num_rows]"] distinct_upt [of 0 num_rows] by blast
  then show ?thesis
    using order_rows [of e] by (metis atLeastLessThan_iff count_mset set_upt zero_le)
qed

lemma slice_stream:
  assumes "p mod num_rows + n \<le> num_rows"
  shows "take n (drop (p mod num_rows) (order (p div num_rows))) = map (stream order num_rows) [p..<p + n]"
proof (rule nth_equalityI)
  show "length (take n (drop (p mod num_rows) (order (p div num_rows)))) =
      length (map (stream order num_rows) [p..<p + n])"
    using assms by (simp add: order_length)
next
  fix i
  assume "i < length (take n (drop (p mod num_rows) (order (p div num_rows))))"
  then have i: "i < n" by simp
  then have le: "p mod num_rows + i < num_rows" using assms by simp
  then have "(p + i) div num_rows = p div num_rows" "(p + i) mod num_rows = p mod num_rows + i"
    using block_position [of "p mod num_rows + i" num_rows "p div num_rows"] by simp_all
  then show "take n (drop (p mod num_rows) (order (p div num_rows))) ! i =
      map (stream order num_rows) [p..<p + n] ! i"
    using i le by (simp add: stream_def order_length)
qed

text \<open>One pass of the loop fills at least one row, so it ends, whatever the cache holds.\<close>

lemma fill_rows_stream:
  assumes "cache_ok order cache" and "filled \<le> batch_size"
  shows "\<exists>cache'. fill_rows order num_rows batch_size t indices filled cache =
           Some (indices @ map (stream order num_rows) [t * batch_size + filled..<t * batch_size + batch_size], cache')
           \<and> cache_ok order cache'"
  using assms
proof (induction "batch_size - filled" arbitrary: filled indices cache rule: less_induct)
  case less
  show ?case
  proof (cases "filled < batch_size")
    case False
    with less.prems show ?thesis by (subst fill_rows.simps) simp
  next
    case True
    let ?p = "t * batch_size + filled"
    define n where "n = min (num_rows - ?p mod num_rows) (batch_size - filled)"
    obtain perm cache' where perm: "permutation order (?p div num_rows) cache = (perm, cache')" by force
    then have "perm = order (?p div num_rows)" and ok: "cache_ok order cache'"
      using permutation_order permutation_cache_ok less.prems(1) by (metis fst_conv, metis snd_conv)
    moreover have "?p mod num_rows < num_rows" using some_row by simp
    then have n: "0 < n" "n \<le> batch_size - filled" "?p mod num_rows + n \<le> num_rows"
      using True by (auto simp: n_def)
    ultimately have slice: "take n (drop (?p mod num_rows) perm) = map (stream order num_rows) [?p..<?p + n]"
      using slice_stream by blast
    from n True have "batch_size - (filled + n) < batch_size - filled" "filled + n \<le> batch_size" by auto
    from less.hyps [OF this(1) ok this(2), of "indices @ map (stream order num_rows) [?p..<?p + n]"]
    obtain cache'' where "fill_rows order num_rows batch_size t (indices @ map (stream order num_rows) [?p..<?p + n])
          (filled + n) cache' =
        Some ((indices @ map (stream order num_rows) [?p..<?p + n]) @
          map (stream order num_rows) [t * batch_size + (filled + n)..<t * batch_size + batch_size], cache'')"
        "cache_ok order cache''"
      by blast
    moreover have "[?p..<?p + n] @ [t * batch_size + (filled + n)..<t * batch_size + batch_size] =
        [?p..<t * batch_size + batch_size]"
      using n(2) True upt_split [of ?p "?p + n" "t * batch_size + batch_size"] by (simp add: add.assoc)
    ultimately show ?thesis
      using True perm slice by (subst fill_rows.simps) (simp add: Let_def n_def flip: map_append)
  qed
qed

lemma rows_stream:
  assumes "cache_ok order cache"
  shows "\<exists>cache'. rows order num_rows batch_size t cache =
           Some (map (stream order num_rows) [t * batch_size..<Suc t * batch_size], cache') \<and> cache_ok order cache'"
  using fill_rows_stream [OF assms, of 0 batch_size t "[]"] by (simp add: rows_def add.commute)

lemma calls_stream:
  assumes "cache_ok order cache"
  shows "\<exists>cache'. calls (rows order num_rows batch_size) ts cache =
           Some (map (\<lambda>t. map (stream order num_rows) [t * batch_size..<Suc t * batch_size]) ts, cache')
           \<and> cache_ok order cache'"
  using assms
proof (induction ts arbitrary: cache)
  case (Cons t ts)
  obtain c where c: "rows order num_rows batch_size t cache =
      Some (map (stream order num_rows) [t * batch_size..<Suc t * batch_size], c)" "cache_ok order c"
    using rows_stream [OF Cons.prems] by blast
  from Cons.IH [OF c(2)] c(1) show ?case by auto
qed simp

text \<open>Over whole epochs every row is read equally often; a partial epoch adds at most one visit.\<close>

lemma epoch_visits: "count_list (map (stream order num_rows) [e * num_rows..<e * num_rows + n]) r \<le> 1"
  if "n \<le> num_rows" for n
proof -
  have "map (stream order num_rows) [e * num_rows..<e * num_rows + n] = take n (order e)"
    using slice_stream [of "e * num_rows" n] that some_row by simp
  moreover have "count_list (take n (order e)) r \<le> count_list (order e) r"
    by (metis append_take_drop_id count_list_append le_add1)
  ultimately show ?thesis by (simp add: order_count split: if_splits)
qed

lemma epochs_visits: "r < num_rows \<Longrightarrow> count_list (map (stream order num_rows) [0..<e * num_rows]) r = e"
proof (induction e)
  case (Suc e)
  have "[0..<Suc e * num_rows] = [0..<e * num_rows] @ [e * num_rows..<e * num_rows + num_rows]"
    using upt_split [of 0 "e * num_rows" "Suc e * num_rows"] by (simp add: add.commute)
  moreover have "map (stream order num_rows) [e * num_rows..<e * num_rows + num_rows] = order e"
    using slice_stream [of "e * num_rows" num_rows] some_row by (simp add: order_length)
  ultimately show ?case using Suc by (simp add: order_count)
qed simp

lemma stream_visits:
  assumes "r < num_rows"
  shows "p div num_rows \<le> count_list (map (stream order num_rows) [0..<p]) r \<and>
         count_list (map (stream order num_rows) [0..<p]) r \<le> p div num_rows + 1"
proof -
  have "[0..<p] = [0..<p div num_rows * num_rows] @ [p div num_rows * num_rows..<p div num_rows * num_rows + p mod num_rows]"
    using upt_split [of 0 "p div num_rows * num_rows" p] by simp
  moreover have "p mod num_rows \<le> num_rows" using some_row by (simp add: less_imp_le)
  ultimately show ?thesis
    using epochs_visits [OF assms, of "p div num_rows"] epoch_visits [of "p mod num_rows" "p div num_rows" r]
    by simp
qed

text \<open>The cache of a forward sweep: it never holds an epoch older than the one before the last.\<close>

lemma fill_rows_recent:
  assumes "fill_rows order num_rows batch_size t indices filled cache = Some (xs, cache')"
    and "cache_recent e cache" "e \<le> (t * batch_size + filled) div num_rows" "filled \<le> batch_size"
  shows "\<exists>e'. cache_recent e' cache' \<and> e' \<le> (t * batch_size + batch_size) div num_rows"
  using assms
proof (induction "batch_size - filled" arbitrary: filled indices cache e rule: less_induct)
  case less
  show ?case
  proof (cases "filled < batch_size")
    case False
    with less.prems show ?thesis by (subst (asm) fill_rows.simps) auto
  next
    case True
    let ?p = "t * batch_size + filled"
    define n where "n = min (num_rows - ?p mod num_rows) (batch_size - filled)"
    obtain perm c where perm: "permutation order (?p div num_rows) cache = (perm, c)" by force
    with cache_recent_permutation [OF less.prems(2,3)] have recent: "cache_recent (?p div num_rows) c"
      by (metis snd_conv)
    have run: "fill_rows order num_rows batch_size t (indices @ take n (drop (?p mod num_rows) perm)) (filled + n) c
        = Some (xs, cache')"
      using less.prems(1) True perm by (subst (asm) fill_rows.simps) (simp add: Let_def n_def)
    have "?p mod num_rows < num_rows" using some_row by simp
    then have "batch_size - (filled + n) < batch_size - filled" "filled + n \<le> batch_size"
      using True by (auto simp: n_def)
    moreover have "?p div num_rows \<le> (t * batch_size + (filled + n)) div num_rows" by (intro div_le_mono) simp
    ultimately show ?thesis using less.hyps [OF _ run recent] by blast
  qed
qed

lemma calls_recent:
  assumes "calls (rows order num_rows batch_size) [t..<t'] cache = Some (xs, cache')"
    and "cache_recent e cache" "e \<le> (t * batch_size) div num_rows"
  shows "\<exists>e'. cache_recent e' cache'"
  using assms
proof (induction "t' - t" arbitrary: t cache xs e)
  case 0
  then show ?case by auto
next
  case (Suc k)
  then have "[t..<t'] = t # [Suc t..<t']" by (simp add: upt_conv_Cons)
  then obtain x c ys where x: "rows order num_rows batch_size t cache = Some (x, c)"
      and ys: "calls (rows order num_rows batch_size) [Suc t..<t'] c = Some (ys, cache')"
    using Suc.prems(1) by (auto split: option.splits prod.splits)
  obtain e' where "cache_recent e' c" "e' \<le> (t * batch_size + batch_size) div num_rows"
    using fill_rows_recent [OF x [unfolded rows_def] Suc.prems(2)] Suc.prems(3) by auto
  with Suc.hyps(1) [OF _ ys] Suc.hyps(2) show ?case by (simp add: add.commute)
qed

end

text \<open>Rows taken in order are such an ordering outright; drawn ones are if the generator permutes.\<close>

interpretation arange: row_order "epoch_order draw seed False (Suc n)" "Suc n" for draw seed n
  by unfold_locales (simp_all add: epoch_order_def)

definition permutes :: "draw \<Rightarrow> int \<Rightarrow> nat \<Rightarrow> bool" where
  "permutes draw seed n \<longleftrightarrow> (\<forall>e. mset (draw seed e n) = mset [0..<n])"

lemma row_order_minibatch:
  assumes "minibatch_indices draw num_rows batch_size seed shuffle = Inr (f, c)"
    and "shuffle \<longrightarrow> permutes draw seed (nat num_rows)"
  shows "row_order (epoch_order draw seed shuffle (nat num_rows)) (nat num_rows)"
    and "f = rows (epoch_order draw seed shuffle (nat num_rows)) (nat num_rows) (nat batch_size)"
    and "c = Map.empty" and "1 \<le> num_rows" and "1 \<le> batch_size"
proof -
  show f: "f = rows (epoch_order draw seed shuffle (nat num_rows)) (nat num_rows) (nat batch_size)"
    "c = Map.empty" "1 \<le> num_rows" "1 \<le> batch_size"
    using assms(1) by (auto simp: minibatch_indices_def refuse_if_def split: if_splits)
  show "row_order (epoch_order draw seed shuffle (nat num_rows)) (nat num_rows)"
  proof (cases shuffle)
    case True
    with assms(2) f(3) show ?thesis by unfold_locales (simp_all add: epoch_order_def permutes_def)
  next
    case False
    obtain n where "nat num_rows = Suc n" using f(3) by (cases "nat num_rows") auto
    with False arange.row_order_axioms show ?thesis by simp
  qed
qed

lemma cache_empty: "cache_ok order Map.empty" "cache_recent e Map.empty"
  by (simp_all add: cache_ok_def cache_recent_def)

section \<open>Properties\<close>

text \<open>
  C26.  The minibatch closure is a pure function of the step, whatever was asked of it before: any
  sequence of calls ends, and the call for step \<open>t\<close> returns positions \<open>t B\<close> to \<open>(t + 1) B\<close> of
  the endless concatenation of the epochs' orderings, always a full batch.
\<close>

theorem minibatch_refines_stream:
  assumes "minibatch_indices draw num_rows batch_size seed shuffle = Inr (f, c)"
    and "shuffle \<longrightarrow> permutes draw seed (nat num_rows)"
  shows "\<exists>c'. calls f ts c =
    Some (map (\<lambda>t. map (stream (epoch_order draw seed shuffle (nat num_rows)) (nat num_rows))
                     [t * nat batch_size..<Suc t * nat batch_size]) ts, c')"
  using row_order.calls_stream [OF row_order_minibatch(1) [OF assms], of Map.empty] cache_empty(1)
  unfolding row_order_minibatch(2,3) [OF assms] by blast

theorem minibatch_refines_stream_witness:
  "\<exists>c'. calls (rows (epoch_order (\<lambda>_ _ n. rev [0..<n]) 7 True 3) 3 2) [1, 0] Map.empty =
     Some ([[0, 2], [2, 1]], c')"
proof -
  have "minibatch_indices (\<lambda>_ _ n. rev [0..<n]) 3 2 7 True =
      Inr (rows (epoch_order (\<lambda>_ _ n. rev [0..<n]) 7 True 3) 3 2, Map.empty)"
    by (simp add: minibatch_indices_def)
  moreover have "map (\<lambda>t. map (stream (epoch_order (\<lambda>_ _ n. rev [0..<n]) 7 True (nat 3)) (nat 3))
      [t * nat 2..<Suc t * nat 2]) [1, 0] = [[0, 2], [2, 1]]"
    by code_simp
  ultimately show ?thesis
    using minibatch_refines_stream [of "\<lambda>_ _ n. rev [0..<n]" 3 2 7 True _ _ "[1, 0]"]
    by (simp only: permutes_def mset_rev simp_thms)
qed

text \<open>
  C27.  No row is favoured: in a run from step 0 through any number \<open>T\<close> of steps every row has been trained
  on \<open>floor(T B / N)\<close> times or once more, so whole epochs visit every row exactly once each even when the
  batch size does not divide the row count.
\<close>

theorem minibatch_visits_balanced:
  assumes "minibatch_indices draw num_rows batch_size seed shuffle = Inr (f, c)"
    and "shuffle \<longrightarrow> permutes draw seed (nat num_rows)"
    and "r < nat num_rows"
  shows "\<exists>batches c'. calls f [0..<steps] c = Some (batches, c') \<and>
           (let visits = count_list (concat batches) r; turns = steps * nat batch_size div nat num_rows
            in turns \<le> visits \<and> visits \<le> turns + 1)"
proof -
  let ?s = "stream (epoch_order draw seed shuffle (nat num_rows)) (nat num_rows)" and ?B = "nat batch_size"
  have concat: "concat (map (\<lambda>t. map ?s [t * ?B..<Suc t * ?B]) [0..<steps]) = map ?s [0..<steps * ?B]"
    for steps
  proof (induction steps)
    case (Suc n)
    have "[0..<Suc n * ?B] = [0..<n * ?B] @ [n * ?B..<Suc n * ?B]"
      using upt_split [of 0 "n * ?B" "Suc n * ?B"] by simp
    with Suc show ?case by simp
  qed simp
  obtain c' where "calls f [0..<steps] c =
      Some (map (\<lambda>t. map ?s [t * ?B..<Suc t * ?B]) [0..<steps], c')"
    using row_order.calls_stream [OF row_order_minibatch(1) [OF assms(1,2)], of Map.empty] cache_empty(1)
    unfolding row_order_minibatch(2,3) [OF assms(1,2)] by blast
  with row_order.stream_visits [OF row_order_minibatch(1) [OF assms(1,2)] assms(3), of "steps * ?B"]
  show ?thesis by (auto simp: Let_def concat simp del: mult_Suc)
qed

theorem minibatch_visits_balanced_witness:
  "\<exists>batches c'. calls (rows (epoch_order (\<lambda>_ _ n. []) 0 False 5) 5 3) [0..<4] Map.empty = Some (batches, c') \<and>
     2 \<le> count_list (concat batches) 1 \<and> count_list (concat batches) 1 \<le> 3"
proof -
  have "minibatch_indices (\<lambda>_ _ n. []) 5 3 0 False =
      Inr (rows (epoch_order (\<lambda>_ _ n. []) 0 False 5) 5 3, Map.empty)"
    by (simp add: minibatch_indices_def)
  from minibatch_visits_balanced [OF this, of 1 4] show ?thesis by (simp add: Let_def)
qed

text \<open>
  The cache stays small: after any number of consecutive steps it holds the orderings of at most
  two epochs, the last one used and the one before it.
\<close>

theorem minibatch_cache_bounded:
  assumes "minibatch_indices draw num_rows batch_size seed shuffle = Inr (f, c)"
    and "shuffle \<longrightarrow> permutes draw seed (nat num_rows)"
    and "calls f [0..<steps] c = Some (batches, c')"
  shows "\<exists>e. dom c' \<subseteq> {e - 1, e}"
proof -
  note f = row_order_minibatch(2,3) [OF assms(1,2)]
  obtain e where "cache_recent e c'"
    using row_order.calls_recent [OF row_order_minibatch(1) [OF assms(1,2)] assms(3) [unfolded f], of 0]
      cache_empty(2) by auto
  then have "k = e - 1 \<or> k = e" if "c' k = Some q" for k q
    using that by (fastforce simp: cache_recent_def)
  then have "dom c' \<subseteq> {e - 1, e}" by (auto simp: dom_def)
  then show ?thesis ..
qed

theorem minibatch_cache_bounded_witness:
  "\<exists>batches c'. calls (rows (epoch_order (\<lambda>_ _ n. []) 0 False 2) 2 3) [0..<3] Map.empty = Some (batches, c') \<and>
     (\<exists>e. dom c' \<subseteq> {e - 1, e})"
proof -
  have f: "minibatch_indices (\<lambda>_ _ n. []) 2 3 0 False =
      Inr (rows (epoch_order (\<lambda>_ _ n. []) 0 False 2) 2 3, Map.empty)"
    by (simp add: minibatch_indices_def)
  obtain batches c' where run: "calls (rows (epoch_order (\<lambda>_ _ n. []) 0 False 2) 2 3) [0..<3] Map.empty = Some (batches, c')"
    using arange.calls_stream [OF cache_empty(1), of "\<lambda>_ _ n. []" 0 1 3 "[0..<3]"] by (auto simp: numeral_2_eq_2)
  from minibatch_cache_bounded [OF f _ run] run show ?thesis by blast
qed

end
