(* ===== verification/Ep_Fragmentation.thy ===== *)
theory Ep_Fragmentation
  imports Onnx "HOL-Library.Char_ord" "HOL-Library.List_Lexorder"
begin

text \<open>
  The graph-connectivity estimate of \<open>onnxsim/_ep_fragmentation.py\<close>: given the nodes assumed to fall
  back off an execution provider, how many islands the others split into and how many edges cross
  the boundary.  The order in which Python iterates over a set is a parameter.
\<close>

section \<open>The scan\<close>

record set_order =
  name_order :: "string set \<Rightarrow> string list"
  node_order :: "nat set \<Rightarrow> nat list"

definition lists_sets :: "('a set \<Rightarrow> 'a list) \<Rightarrow> bool" where
  "lists_sets f \<longleftrightarrow> (\<forall>A. finite A \<longrightarrow> set (f A) = A \<and> distinct (f A))"

record island_report =
  island_count :: nat
  boundary_edge_count :: nat
  flagged_node_names :: "string list"

text \<open>\<open>producers\<close> and \<open>consumers\<close>: for each value name the indices of the nodes that list it, in order.\<close>

definition note_index :: "nat \<Rightarrow> (string \<Rightarrow> nat list) \<Rightarrow> string \<Rightarrow> (string \<Rightarrow> nat list)" where
  "note_index i m name = (if name = '''' then m else m(name := m name @ [i]))"

definition index_names :: "(node \<Rightarrow> string list) \<Rightarrow> node list \<Rightarrow> string \<Rightarrow> nat list" where
  "index_names sel nodes = foldl (\<lambda>m (i, nd). foldl (note_index i) m (sel nd)) (\<lambda>_. []) (enumerate 0 nodes)"

definition used_names :: "node list \<Rightarrow> string set" where
  "used_names nodes = (\<Union>nd \<in> set nodes. set (outputs nd) \<union> set (inputs nd)) - {''''}"

text \<open>One producer/consumer pair: an undirected edge, a boundary, or nothing.\<close>

definition scan_edge ::
  "nat set \<Rightarrow> (nat \<Rightarrow> nat set) \<times> nat \<Rightarrow> nat \<times> nat \<Rightarrow> (nat \<Rightarrow> nat set) \<times> nat" where
  "scan_edge flagged acc pc =
     (case acc of (adjacency, boundary) \<Rightarrow> case pc of (p, c) \<Rightarrow>
      if p = c then acc
      else if (p \<in> flagged) \<noteq> (c \<in> flagged) then (adjacency, boundary + 1)
      else if p \<notin> flagged then
        (let adjacency' = adjacency(p := insert c (adjacency p))
         in (adjacency'(c := insert p (adjacency' c)), boundary))
      else acc)"

definition scan_graph :: "set_order \<Rightarrow> node list \<Rightarrow> nat set \<Rightarrow> (nat \<Rightarrow> nat set) \<times> nat" where
  "scan_graph ord nodes flagged =
     (let producers = index_names outputs nodes; consumers = index_names inputs nodes in
      foldl (\<lambda>acc name. foldl (scan_edge flagged) acc (List.product (producers name) (consumers name)))
        (\<lambda>_. {}, 0) (name_order ord (used_names nodes)))"

section \<open>The search\<close>

text \<open>The stack's top is the head of the list; None is a search that never ends.\<close>

definition push :: "nat set \<times> nat list \<Rightarrow> nat \<Rightarrow> nat set \<times> nat list" where
  "push vs nxt =
     (case vs of (visited, stack) \<Rightarrow>
      if nxt \<in> visited then vs else (insert nxt visited, nxt # stack))"

partial_function (option) explore ::
  "(nat set \<Rightarrow> nat list) \<Rightarrow> (nat \<Rightarrow> nat set) \<Rightarrow> nat set \<Rightarrow> nat list \<Rightarrow> nat set option" where
  "explore order adjacency visited stack =
     (if stack = [] then Some visited
      else
        let (visited', stack') = foldl push (visited, tl stack) (order (adjacency (hd stack)))
        in explore order adjacency visited' stack')"

fun count_islands ::
  "(nat set \<Rightarrow> nat list) \<Rightarrow> (nat \<Rightarrow> nat set) \<Rightarrow> nat set \<Rightarrow> nat list \<Rightarrow> nat set \<times> nat \<Rightarrow> (nat set \<times> nat) option" where
  "count_islands order adjacency flagged [] acc = Some acc"
| "count_islands order adjacency flagged (i # is') (visited, count) =
     (if i \<in> flagged \<or> i \<in> visited then count_islands order adjacency flagged is' (visited, count)
      else Option.bind (explore order adjacency (insert i visited) [i]) (\<lambda>visited'.
           count_islands order adjacency flagged is' (visited', count + 1)))"

text \<open>\<open>nodes[i].name or (nodes[i].output[0] if nodes[i].output else f"<node {i}>")\<close>\<close>

definition node_label :: "node list \<Rightarrow> nat \<Rightarrow> string res" where
  "node_label nodes i =
     (if length nodes \<le> i then Inl IndexError
      else let nd = nodes ! i in
        Inr (if node_name nd \<noteq> '''' then node_name nd
             else case outputs nd of out # _ \<Rightarrow> out | [] \<Rightarrow> ''<node '' @ decimal i @ ''>''))"

definition estimate_fragmentation :: "set_order \<Rightarrow> node list \<Rightarrow> nat set \<Rightarrow> island_report res option" where
  "estimate_fragmentation ord nodes flagged =
     (case scan_graph ord nodes flagged of (adjacency, boundary) \<Rightarrow>
      Option.bind (count_islands (node_order ord) adjacency flagged [0..<length nodes] ({}, 0)) (\<lambda>(_, islands).
      Some (bindE (mapE (node_label nodes) (sorted_list_of_set flagged)) (\<lambda>names.
      Inr \<lparr>island_count = islands, boundary_edge_count = boundary, flagged_node_names = names\<rparr>))))"

section \<open>What the scan computes\<close>

text \<open>Two nodes outside the flagged set are linked when one reads a value the other writes.\<close>

definition feeds_into :: "node list \<Rightarrow> nat \<Rightarrow> nat \<Rightarrow> bool" where
  "feeds_into nodes p c \<longleftrightarrow> p < length nodes \<and> c < length nodes \<and>
     set (outputs (nodes ! p)) \<inter> set (inputs (nodes ! c)) - {''''} \<noteq> {}"

definition linked :: "node list \<Rightarrow> nat set \<Rightarrow> (nat \<times> nat) set" where
  "linked nodes flagged =
     {(p, c). p \<notin> flagged \<and> c \<notin> flagged \<and> p \<noteq> c \<and> (feeds_into nodes p c \<or> feeds_into nodes c p)}"

definition connections :: "node list \<Rightarrow> nat \<Rightarrow> nat \<Rightarrow> nat" where
  "connections nodes p c =
     (\<Sum>x \<in> set (outputs (nodes ! p)) \<inter> set (inputs (nodes ! c)) - {''''}.
        count_list (outputs (nodes ! p)) x * count_list (inputs (nodes ! c)) x)"

lemma note_names:
  "foldl (note_index i) m xs x = (if x = '''' then m x else m x @ replicate (count_list xs x) i)"
  by (induction xs arbitrary: m) (auto simp: note_index_def)

lemma index_names_snoc:
  "index_names sel (nodes @ [nd]) x =
     (if x = '''' then [] else index_names sel nodes x @ replicate (count_list (sel nd) x) (length nodes))"
proof -
  have "index_names sel ns '''' = []" for ns
    by (induction ns rule: rev_induct) (simp_all add: index_names_def enumerate_append_eq note_names)
  then show ?thesis by (simp add: index_names_def enumerate_append_eq note_names)
qed

lemma count_index_names:
  "count_list (index_names sel nodes x) i =
     (if x \<noteq> '''' \<and> i < length nodes then count_list (sel (nodes ! i)) x else 0)"
proof (induction nodes rule: rev_induct)
  case Nil
  then show ?case by (simp add: index_names_def)
next
  case (snoc nd nodes)
  have "count_list (replicate k a) b = (if a = b then k else 0)" for k and a b :: nat
    by (induction k) auto
  with snoc show ?case by (auto simp: index_names_snoc nth_append)
qed

lemma set_index_names:
  "i \<in> set (index_names sel nodes x) \<longleftrightarrow> x \<noteq> '''' \<and> i < length nodes \<and> x \<in> set (sel (nodes ! i))"
  using count_index_names [of sel nodes x i] count_list_0_iff [of "index_names sel nodes x" i]
    count_list_0_iff [of "sel (nodes ! i)" x]
  by (metis (full_types) not_gr_zero)

definition edges :: "set_order \<Rightarrow> node list \<Rightarrow> (nat \<times> nat) list" where
  "edges ord nodes =
     concat (map (\<lambda>name. List.product (index_names outputs nodes name) (index_names inputs nodes name))
       (name_order ord (used_names nodes)))"

lemma scan_graph_edges: "scan_graph ord nodes flagged = foldl (scan_edge flagged) (\<lambda>_. {}, 0) (edges ord nodes)"
proof -
  have "foldl (\<lambda>acc x. foldl f acc (g x)) a xs = foldl f a (concat (map g xs))"
    for f :: "(nat \<Rightarrow> nat set) \<times> nat \<Rightarrow> nat \<times> nat \<Rightarrow> (nat \<Rightarrow> nat set) \<times> nat" and g :: "string \<Rightarrow> (nat \<times> nat) list" and a xs
    by (induction xs arbitrary: a) simp_all
  then show ?thesis by (simp add: scan_graph_def edges_def Let_def)
qed

lemma finite_used_names: "finite (used_names nodes)"
  by (simp add: used_names_def)

lemma set_edges:
  assumes "lists_sets (name_order ord)"
  shows "(p, c) \<in> set (edges ord nodes) \<longleftrightarrow> feeds_into nodes p c"
proof -
  have names: "set (name_order ord (used_names nodes)) = used_names nodes"
    using assms finite_used_names by (simp add: lists_sets_def)
  have "x \<in> used_names nodes" if "x \<noteq> ''''" "p < length nodes" "x \<in> set (outputs (nodes ! p))" for x
    using that by (auto simp: used_names_def)
  then show ?thesis
    by (auto simp: edges_def names set_index_names feeds_into_def)
qed

definition crossing :: "nat set \<Rightarrow> nat \<times> nat \<Rightarrow> bool" where
  "crossing flagged pc \<longleftrightarrow> fst pc \<noteq> snd pc \<and> (fst pc \<in> flagged) \<noteq> (snd pc \<in> flagged)"

definition inner_edge :: "nat set \<Rightarrow> nat \<times> nat \<Rightarrow> bool" where
  "inner_edge flagged pc \<longleftrightarrow> fst pc \<noteq> snd pc \<and> fst pc \<notin> flagged \<and> snd pc \<notin> flagged"

lemma edge_kinds:
  "crossing flagged (p, c) \<longleftrightarrow> p \<noteq> c \<and> (p \<in> flagged) \<noteq> (c \<in> flagged)"
  "inner_edge flagged (p, c) \<longleftrightarrow> p \<noteq> c \<and> p \<notin> flagged \<and> c \<notin> flagged"
  by (simp_all add: crossing_def inner_edge_def)

lemma scan_edges:
  "foldl (scan_edge flagged) (\<lambda>_. {}, 0) es =
     (\<lambda>i. {j. (i, j) \<in> set (filter (inner_edge flagged) es) \<or> (j, i) \<in> set (filter (inner_edge flagged) es)},
      length (filter (crossing flagged) es))"
proof (induction es rule: rev_induct)
  case (snoc e es)
  obtain p c where e: "e = (p, c)" by fastforce
  consider "p = c" | "p \<noteq> c" "(p \<in> flagged) \<noteq> (c \<in> flagged)" | "p \<noteq> c" "p \<notin> flagged" "c \<notin> flagged"
    | "p \<noteq> c" "p \<in> flagged" "c \<in> flagged" by blast
  then show ?case
    unfolding foldl_append snoc.IH e
    by cases (auto simp: scan_edge_def edge_kinds fun_eq_iff)
qed simp

lemma scan_graph_adjacency:
  assumes "lists_sets (name_order ord)"
  shows "fst (scan_graph ord nodes flagged) i = {j. (i, j) \<in> linked nodes flagged}"
  using set_edges [OF assms, of _ _ nodes]
  by (auto simp: scan_graph_edges scan_edges edge_kinds linked_def)

lemma length_filter_product:
  fixes xs ys :: "nat list"
  assumes "set xs \<subseteq> {..<n}" and "set ys \<subseteq> {..<n}"
  shows "length (filter P (List.product xs ys)) =
    (\<Sum>p<n. \<Sum>c<n. if P (p, c) then count_list xs p * count_list ys c else 0)"
proof -
  have inner: "length (filter (P \<circ> Pair x) ys) = (\<Sum>c<n. if P (x, c) then count_list ys c else 0)" for x
    using assms(2)
  proof (induction ys)
    case (Cons y ys)
    have split: "(\<Sum>c<n. if P (x, c) then count_list (y # ys) c else 0) =
        (\<Sum>c<n. if P (x, c) then count_list ys c else 0) + (\<Sum>c<n. if c = y then if P (x, c) then 1 else 0 else 0)"
      unfolding sum.distrib [symmetric] by (rule sum.cong) auto
    show ?case using Cons by (subst split) (simp add: sum.delta comp_def)
  qed simp
  show ?thesis using assms(1)
  proof (induction xs)
    case (Cons x xs)
    have split: "(\<Sum>p<n. \<Sum>c<n. if P (p, c) then count_list (x # xs) p * count_list ys c else 0) =
        (\<Sum>p<n. \<Sum>c<n. if P (p, c) then count_list xs p * count_list ys c else 0) +
        (\<Sum>p<n. if p = x then \<Sum>c<n. if P (p, c) then count_list ys c else 0 else 0)"
      unfolding sum.distrib [symmetric]
      by (rule sum.cong) (auto simp: sum.distrib [symmetric] intro!: sum.cong)
    show ?case using Cons by (subst split) (simp add: inner sum.delta)
  qed simp
qed

lemma scan_graph_boundary:
  assumes "lists_sets (name_order ord)"
  shows "snd (scan_graph ord nodes flagged) =
    (\<Sum>p<length nodes. \<Sum>c<length nodes. if crossing flagged (p, c) then connections nodes p c else 0)"
proof -
  let ?n = "length nodes" and ?N = "used_names nodes"
  let ?prod = "index_names outputs nodes" and ?cons = "index_names inputs nodes"
  let ?f = "\<lambda>x p c. count_list (?prod x) p * count_list (?cons x) c"
  have names: "set (name_order ord ?N) = ?N" "distinct (name_order ord ?N)"
    using assms finite_used_names by (simp_all add: lists_sets_def)
  have "length (filter P (concat (map f xs))) = (\<Sum>x\<leftarrow>xs. length (filter P (f x)))"
    for P :: "nat \<times> nat \<Rightarrow> bool" and f :: "string \<Rightarrow> (nat \<times> nat) list" and xs
    by (induction xs) simp_all
  then have "snd (scan_graph ord nodes flagged) =
      (\<Sum>x\<leftarrow>name_order ord ?N. length (filter (crossing flagged) (List.product (?prod x) (?cons x))))"
    by (simp add: scan_graph_edges scan_edges edges_def)
  also have "\<dots> = (\<Sum>x\<in>?N. \<Sum>p<?n. \<Sum>c<?n. if crossing flagged (p, c) then ?f x p c else 0)"
    using names by (subst length_filter_product) (auto simp: set_index_names sum_list_distinct_conv_sum_set)
  also have "\<dots> = (\<Sum>p<?n. \<Sum>c<?n. \<Sum>x\<in>?N. if crossing flagged (p, c) then ?f x p c else 0)"
    by (subst sum.swap) (intro sum.cong refl, rule sum.swap)
  also have "\<dots> = (\<Sum>p<?n. \<Sum>c<?n. if crossing flagged (p, c) then connections nodes p c else 0)"
  proof (intro sum.cong refl)
    fix p c
    assume pc: "p \<in> {..<?n}" "c \<in> {..<?n}"
    then have "nodes ! p \<in> set nodes" by simp
    then have "set (outputs (nodes ! p)) - {''''} \<subseteq> ?N" unfolding used_names_def by blast
    then have "(\<Sum>x\<in>?N. ?f x p c) = connections nodes p c"
      unfolding connections_def using pc
      by (intro sum.mono_neutral_cong_right finite_used_names)
        (auto simp: count_index_names used_names_def count_list_0_iff)
    then show "(\<Sum>x\<in>?N. if crossing flagged (p, c) then ?f x p c else 0) =
        (if crossing flagged (p, c) then connections nodes p c else 0)"
      by simp
  qed
  finally show ?thesis .
qed

section \<open>What the search computes\<close>

lemma push_list:
  assumes "distinct xs"
  shows "foldl push (visited, stack) xs =
    (visited \<union> set xs, rev (filter (\<lambda>x. x \<notin> visited) xs) @ stack)"
  using assms by (induction xs arbitrary: visited stack) (auto simp: push_def intro!: filter_cong)

text \<open>
  The search from a stack of visited nodes returns, on a finite graph, and adds exactly what can be
  reached from the stack, when everything else visited was already closed.
\<close>

lemma explore_reaches:
  assumes order: "lists_sets order" and U: "finite U" "\<forall>u \<in> U. adj u \<subseteq> U"
    and "visited \<subseteq> U" "set stack \<subseteq> visited" "\<forall>v \<in> visited - set stack. adj v \<subseteq> visited"
  shows "\<exists>W. explore order adj visited stack = Some W \<and> visited \<subseteq> W \<and> W \<subseteq> U \<and>
    (\<forall>v \<in> W. adj v \<subseteq> W) \<and> W \<subseteq> visited \<union> {(i, j). j \<in> adj i}\<^sup>* `` set stack"
  using assms(4-)
proof (induction "(card (U - visited), length stack)" arbitrary: visited stack
    rule: wf_induct_rule [OF wf_lex_prod [OF wf_less wf_less]])
  case (1 visited stack)
  show ?case
  proof (cases stack)
    case Nil
    with 1(2-) show ?thesis by (subst explore.simps) auto
  next
    case (Cons cur rest)
    have cur: "cur \<in> visited" "adj cur \<subseteq> U" using 1(2-) Cons U(2) by auto
    have ord: "set (order (adj cur)) = adj cur" "distinct (order (adj cur))"
      using order finite_subset [OF cur(2) U(1)] by (simp_all add: lists_sets_def)
    let ?v = "visited \<union> adj cur" and ?s = "rev (filter (\<lambda>x. x \<notin> visited) (order (adj cur))) @ rest"
    have step: "explore order adj visited stack = explore order adj ?v ?s"
      by (subst explore.simps) (simp add: Cons push_list [OF ord(2)] ord(1))
    have "((card (U - ?v), length ?s), (card (U - visited), length stack)) \<in> {(x, y). x < y} <*lex*> {(x, y). x < y}"
    proof (cases "adj cur \<subseteq> visited")
      case True
      then have "filter (\<lambda>x. x \<notin> visited) (order (adj cur)) = []" using ord(1) by (auto simp: filter_empty_conv)
      moreover have "?v = visited" using True by blast
      ultimately show ?thesis by (simp add: Cons)
    next
      case False
      with cur(2) have "U - ?v \<subset> U - visited" by blast
      then have "card (U - ?v) < card (U - visited)" using U(1) by (intro psubset_card_mono) auto
      then show ?thesis by simp
    qed
    moreover have "?v \<subseteq> U" "set ?s \<subseteq> ?v" using 1(2,3) cur ord(1) Cons by auto
    moreover have "\<forall>v \<in> ?v - set ?s. adj v \<subseteq> ?v"
      using 1(4) ord(1) Cons by auto
    ultimately obtain W where W: "explore order adj ?v ?s = Some W" "?v \<subseteq> W" "W \<subseteq> U" "\<forall>v \<in> W. adj v \<subseteq> W"
        "W \<subseteq> ?v \<union> {(i, j). j \<in> adj i}\<^sup>* `` set ?s"
      using 1(1) [of ?v ?s] by blast
    have "adj cur \<subseteq> {(i, j). j \<in> adj i}\<^sup>* `` set stack" using Cons by auto
    moreover have "{(i, j). j \<in> adj i}\<^sup>* `` set ?s \<subseteq> {(i, j). j \<in> adj i}\<^sup>* `` set stack"
      using Cons ord(1) by (auto intro: converse_rtrancl_into_rtrancl)
    ultimately have "W \<subseteq> visited \<union> {(i, j). j \<in> adj i}\<^sup>* `` set stack" using W(5) by blast
    with W(1-4) step show ?thesis by auto
  qed
qed

section \<open>Islands\<close>

text \<open>The island of a node, and the islands a set of nodes splits into.\<close>

definition island :: "node list \<Rightarrow> nat set \<Rightarrow> nat \<Rightarrow> nat set" where
  "island nodes flagged i = (linked nodes flagged)\<^sup>* `` {i}"

definition islands :: "node list \<Rightarrow> nat set \<Rightarrow> nat set set" where
  "islands nodes flagged = island nodes flagged ` ({..<length nodes} - flagged)"

lemma linked_sym: "(i, j) \<in> linked nodes flagged \<Longrightarrow> (j, i) \<in> linked nodes flagged"
  by (auto simp: linked_def)

lemma linked_bounds: "(i, j) \<in> linked nodes flagged \<Longrightarrow> i < length nodes \<and> j < length nodes \<and> i \<notin> flagged \<and> j \<notin> flagged"
  by (auto simp: linked_def feeds_into_def)

lemma reach_sym: "(i, j) \<in> (linked nodes flagged)\<^sup>* \<Longrightarrow> (j, i) \<in> (linked nodes flagged)\<^sup>*"
  by (induction rule: rtrancl_induct) (auto intro: converse_rtrancl_into_rtrancl linked_sym)

lemma island_self: "i \<in> island nodes flagged i"
  by (simp add: island_def)

lemma island_eq: "j \<in> island nodes flagged i \<Longrightarrow> island nodes flagged j = island nodes flagged i"
  by (auto simp: island_def intro: rtrancl_trans dest: reach_sym)

lemma island_closed: "j \<in> island nodes flagged i \<Longrightarrow> (j, k) \<in> linked nodes flagged \<Longrightarrow> k \<in> island nodes flagged i"
  by (auto simp: island_def intro: rtrancl_into_rtrancl)

lemma count_islands_append:
  "count_islands order adj flagged (xs @ ys) acc =
     Option.bind (count_islands order adj flagged xs acc) (count_islands order adj flagged ys)"
  by (induction order adj flagged xs acc rule: count_islands.induct) (auto split: bind_split)

lemma explore_island:
  assumes order: "lists_sets order" and adj: "adj = (\<lambda>i. {j. (i, j) \<in> linked nodes flagged})"
    and V: "V \<subseteq> {..<length nodes} - flagged" "\<forall>v \<in> V. adj v \<subseteq> V"
    and i: "i < length nodes" "i \<notin> flagged"
  shows "explore order adj (insert i V) [i] = Some (V \<union> island nodes flagged i)"
proof -
  let ?U = "{..<length nodes} - flagged"
  have "\<forall>u \<in> ?U. adj u \<subseteq> ?U" using linked_bounds by (fastforce simp: adj)
  moreover have "insert i V \<subseteq> ?U" using V(1) i by auto
  moreover have "\<forall>v \<in> insert i V - set [i]. adj v \<subseteq> insert i V" using V(2) by auto
  ultimately obtain W where W: "explore order adj (insert i V) [i] = Some W" "insert i V \<subseteq> W" "\<forall>v \<in> W. adj v \<subseteq> W"
      "W \<subseteq> insert i V \<union> {(i, j). j \<in> adj i}\<^sup>* `` set [i]"
    using explore_reaches [OF order, of ?U adj "insert i V" "[i]"] by auto
  have rel: "{(i, j). j \<in> adj i} = linked nodes flagged" by (auto simp: adj)
  have "j \<in> W" if "(i, j) \<in> (linked nodes flagged)\<^sup>*" for j
    using that
  proof (induction rule: rtrancl_induct)
    case base
    show ?case using W(2) by simp
  next
    case (step y z)
    then show ?case using W(3) by (auto simp: adj)
  qed
  then have "W = V \<union> island nodes flagged i"
    using W(2,4) by (auto simp: rel island_def)
  with W(1) show ?thesis by simp
qed

lemma count_islands_upto:
  assumes order: "lists_sets order" and adj: "adj = (\<lambda>i. {j. (i, j) \<in> linked nodes flagged})" and "k \<le> length nodes"
  shows "count_islands order adj flagged [0..<k] ({}, 0) =
    Some (\<Union>i \<in> {..<k} - flagged. island nodes flagged i, card (island nodes flagged ` ({..<k} - flagged)))"
  using assms(3)
proof (induction k)
  case (Suc k)
  let ?I = "island nodes flagged" and ?K = "{..<k} - flagged"
  let ?V = "\<Union>i \<in> ?K. ?I i"
  have IH: "count_islands order adj flagged [0..<Suc k] ({}, 0) =
      count_islands order adj flagged [k] (?V, card (?I ` ?K))"
    using Suc by (simp add: count_islands_append)
  have K: "{..<Suc k} - flagged = (if k \<in> flagged then ?K else insert k ?K)" by (auto simp: lessThan_Suc)
  show ?case
  proof (cases "k \<in> flagged \<or> k \<in> ?V")
    case True
    have "?I k \<in> ?I ` ?K \<and> ?I k \<subseteq> ?V" if "k \<notin> flagged"
    proof -
      from True that obtain i where "i \<in> ?K" "k \<in> ?I i" by blast
      then show ?thesis using island_eq [of k nodes flagged i] by (metis UN_upper imageI)
    qed
    then have "insert (?I k) (?I ` ?K) = ?I ` ?K" "?I k \<union> ?V = ?V" if "k \<notin> flagged"
      using that by (auto simp: insert_absorb)
    then show ?thesis unfolding IH using True by (auto simp: K)
  next
    case False
    have V: "?V \<subseteq> {..<length nodes} - flagged"
    proof
      fix j
      assume "j \<in> ?V"
      then obtain i where i: "i < k" "i \<notin> flagged" "(i, j) \<in> (linked nodes flagged)\<^sup>*" by (auto simp: island_def)
      from i(3) i(1,2) Suc.prems show "j \<in> {..<length nodes} - flagged"
        by (induction rule: rtrancl_induct) (auto dest: linked_bounds)
    qed
    have "\<forall>v \<in> ?V. adj v \<subseteq> ?V" by (auto simp: adj intro: island_closed)
    from explore_island [OF order adj V this] False Suc.prems
    have "explore order adj (insert k ?V) [k] = Some (?V \<union> ?I k)" by simp
    moreover have "?I k \<notin> ?I ` ?K" using False island_self by blast
    ultimately show ?thesis unfolding IH using False by (simp add: K Un_commute card_insert_if)
  qed
qed simp

lemma estimate_value:
  assumes "lists_sets (name_order ord)" and "lists_sets (node_order ord)"
    and "flagged \<subseteq> {..<length nodes}"
  shows "\<exists>names. estimate_fragmentation ord nodes flagged = Some (Inr
    \<lparr>island_count = card (islands nodes flagged),
     boundary_edge_count = (\<Sum>p<length nodes. \<Sum>c<length nodes.
       if (p \<in> flagged) \<noteq> (c \<in> flagged) then connections nodes p c else 0),
     flagged_node_names = names\<rparr>) \<and> length names = card flagged"
proof -
  obtain adj boundary where scan: "scan_graph ord nodes flagged = (adj, boundary)" by fastforce
  have adj: "adj = (\<lambda>i. {j. (i, j) \<in> linked nodes flagged})"
    using scan_graph_adjacency [OF assms(1), of nodes flagged] scan by (simp add: fun_eq_iff)
  have "boundary = (\<Sum>p<length nodes. \<Sum>c<length nodes.
      if (p \<in> flagged) \<noteq> (c \<in> flagged) then connections nodes p c else 0)"
    using scan_graph_boundary [OF assms(1), of nodes flagged] scan
    by (simp add: edge_kinds) (intro sum.cong, auto)
  moreover have "node_label nodes i = Inr (case node_label nodes i of Inr s \<Rightarrow> s)"
    if "i \<in> set (sorted_list_of_set flagged)" for i
  proof -
    have "finite flagged" using assms(3) finite_subset by blast
    with that assms(3) have "i < length nodes" by auto
    then show ?thesis by (simp add: node_label_def Let_def)
  qed
  from mapE_total [where f = "node_label nodes" and xs = "sorted_list_of_set flagged", OF this] obtain names
    where names: "mapE (node_label nodes) (sorted_list_of_set flagged) = Inr names" by blast
  moreover have "length names = card flagged"
    using mapE_length [OF names] by simp
  ultimately show ?thesis
    using count_islands_upto [OF assms(2) adj order_refl] scan
    by (simp add: estimate_fragmentation_def islands_def)
qed

section \<open>Properties\<close>

text \<open>
  C33.  The estimate always returns, whatever order sets are iterated in, and what it returns is the
  graph's: the island count is the number of connected components of the nodes that are not
  flagged, joined whenever one reads what another writes, and the boundary count is the number of
  producer/consumer connections between a flagged node and another.
\<close>

theorem fragmentation_exact:
  assumes "lists_sets (name_order ord)" and "lists_sets (node_order ord)"
    and "flagged \<subseteq> {..<length nodes}"
  shows "\<exists>names. estimate_fragmentation ord nodes flagged = Some (Inr
    \<lparr>island_count = card (islands nodes flagged),
     boundary_edge_count = (\<Sum>p<length nodes. \<Sum>c<length nodes.
       if (p \<in> flagged) \<noteq> (c \<in> flagged) then connections nodes p c else 0),
     flagged_node_names = names\<rparr>) \<and> length names = card flagged"
  by (rule estimate_value [OF assms])

text \<open>
  The island count is no lower bound on the fragmentation of the session: on every graph, flagging
  only part of the nodes reports at least one island, while flagging all of them, a superset,
  reports no island and no boundary.
\<close>

theorem fragmentation_not_monotone:
  assumes "lists_sets (name_order ord)" and "lists_sets (node_order ord)"
    and "flagged \<subset> {..<length nodes}"
  shows "(\<exists>r. estimate_fragmentation ord nodes flagged = Some (Inr r) \<and> 1 \<le> island_count r) \<and>
    (\<exists>r. estimate_fragmentation ord nodes {..<length nodes} = Some (Inr r) \<and>
       island_count r = 0 \<and> boundary_edge_count r = 0)"
proof
  have "islands nodes flagged \<noteq> {}" "finite (islands nodes flagged)" using assms(3) by (auto simp: islands_def)
  then have "1 \<le> card (islands nodes flagged)" by (simp add: Suc_le_eq card_gt_0_iff)
  with estimate_value [OF assms(1,2), of flagged nodes] assms(3)
  show "\<exists>r. estimate_fragmentation ord nodes flagged = Some (Inr r) \<and> 1 \<le> island_count r" by auto
  have "islands nodes {..<length nodes} = {}" by (simp add: islands_def)
  with estimate_value [OF assms(1,2) order_refl, of nodes]
  show "\<exists>r. estimate_fragmentation ord nodes {..<length nodes} = Some (Inr r) \<and>
      island_count r = 0 \<and> boundary_edge_count r = 0"
    by auto
qed

definition ex_order :: set_order where
  "ex_order = \<lparr>name_order = sorted_list_of_set, node_order = sorted_list_of_set\<rparr>"

definition ex_chain :: "node list" where
  "ex_chain = [make_node ''Relu'' [''x''] [''a''] '''' [], make_node ''NonZero'' [''a''] [''b''] '''' [],
     make_node ''Relu'' [''b''] [''c''] '''' []]"

lemma ex_order_lists: "lists_sets (name_order ex_order)" "lists_sets (node_order ex_order)"
  by (simp_all add: ex_order_def lists_sets_def)

lemma ex_chain_islands: "islands ex_chain {Suc 0} = {{0}, {2}}"
proof -
  have "linked ex_chain {Suc 0} = {}"
    by (auto simp: linked_def feeds_into_def ex_chain_def less_Suc_eq numeral_3_eq_3)
  moreover have "{..<length ex_chain} - {Suc 0} = {0, 2}"
    by (auto simp: ex_chain_def)
  ultimately show ?thesis by (auto simp: islands_def island_def)
qed

theorem fragmentation_exact_witness:
  "\<exists>names. estimate_fragmentation ex_order ex_chain {1} = Some (Inr
     \<lparr>island_count = 2, boundary_edge_count = 2, flagged_node_names = names\<rparr>) \<and> length names = 1"
  using fragmentation_exact [OF ex_order_lists, of "{1}" ex_chain]
  by (simp add: ex_chain_islands)
    (simp add: ex_chain_def connections_def lessThan_Suc numeral_3_eq_3 numeral_2_eq_2)

theorem fragmentation_not_monotone_witness:
  "(\<exists>r. estimate_fragmentation ex_order ex_chain {1} = Some (Inr r) \<and> 1 \<le> island_count r) \<and>
   (\<exists>r. estimate_fragmentation ex_order ex_chain {..<length ex_chain} = Some (Inr r) \<and>
      island_count r = 0 \<and> boundary_edge_count r = 0)"
  by (rule fragmentation_not_monotone [OF ex_order_lists]) (auto simp: ex_chain_def)

end
