(* ===== verification/Rpc_Protocol.thy ===== *)
theory Rpc_Protocol
  imports Prelude
begin

text \<open>
  The wire format of the RPC server, client and tracker, \<open>onnxsim/rpc/_protocol.py\<close>: length-prefixed
  messages, the reads that reassemble them from whatever fragments a socket delivers, and the
  encoding of tensors.  Bytes are 8-bit words; a socket is what its peer has sent so far and the sizes
  in which it will arrive.  \<open>json.dumps\<close> and \<open>json.loads\<close> (with their UTF-8 coding) are parameters.
\<close>

type_synonym byte = "8 word"
type_synonym bytes = "byte list"

section \<open>Little-endian integers\<close>

fun le_bytes :: "nat \<Rightarrow> nat \<Rightarrow> bytes" where
  "le_bytes 0 n = []"
| "le_bytes (Suc k) n = word_of_nat n # le_bytes k (n div 256)"

fun le_nat :: "bytes \<Rightarrow> nat" where
  "le_nat [] = 0"
| "le_nat (b # bs) = unat b + 256 * le_nat bs"

text \<open>\<open>struct.pack\<close> of one unsigned field of \<open>k\<close> bytes: a value that does not fit is a \<open>struct.error\<close>.\<close>

definition pack_uint :: "nat \<Rightarrow> nat \<Rightarrow> bytes res" where
  "pack_uint k n = (if n < 256 ^ k then Inr (le_bytes k n) else Inl StructError)"

lemma length_le_bytes [simp]: "length (le_bytes k n) = k"
  by (induction k n rule: le_bytes.induct) simp_all

lemma le_bytes_numeral: "le_bytes (numeral k) n = word_of_nat n # le_bytes (pred_numeral k) (n div 256)"
  by (simp only: numeral_eq_Suc [of k] le_bytes.simps)

lemma le_nat_le_bytes: "le_nat (le_bytes k n) = n mod 256 ^ k"
proof (induction k n rule: le_bytes.induct)
  case (2 k n)
  have "n mod 256 ^ Suc k = n mod 256 + 256 * (n div 256 mod 256 ^ k)"
    by (simp add: mod_mult2_eq)
  with 2 show ?case by (simp add: unat_of_nat)
qed simp

lemma pack_uint_Inr:
  "pack_uint k n = Inr bs \<Longrightarrow> length bs = k \<and> le_nat bs = n"
  by (auto simp: pack_uint_def le_nat_le_bytes split: if_splits)

section \<open>Sockets\<close>

text \<open>
  \<open>recv(count)\<close> delivers at least one and at most \<open>count\<close> bytes of what the peer sent, in pieces of the
  sizes the network chooses, and an empty chunk once everything has been read and the peer closed.
\<close>

record sock =
  rx :: bytes
  sizes :: "nat list"

definition recv :: "nat \<Rightarrow> sock \<Rightarrow> bytes \<times> sock" where
  "recv count s =
     (let k = min count (case sizes s of [] \<Rightarrow> length (rx s) | n # _ \<Rightarrow> max 1 n)
      in (take k (rx s), s\<lparr>rx := drop k (rx s), sizes := tl (sizes s)\<rparr>))"

definition MAX_RECV :: nat where "MAX_RECV = 2 ^ 20"

function recv_loop :: "nat \<Rightarrow> bytes \<Rightarrow> (sock, bytes) st" where
  "recv_loop remaining chunks s =
     (if remaining = 0 then (Inr chunks, s)
      else
        case recv (min remaining MAX_RECV) s of
          (chunk, s') \<Rightarrow>
            if chunk = [] then (Inl ConnectionError, s')
            else recv_loop (remaining - length chunk) (chunks @ chunk) s')"
  by pat_completeness auto
termination by (relation "measure (\<lambda>(remaining, _, _). remaining)") auto

definition recv_exact :: "nat \<Rightarrow> (sock, bytes) st" where
  "recv_exact count = recv_loop count []"

section \<open>Messages\<close>

definition MAX_HEADER_BYTES :: nat where "MAX_HEADER_BYTES = 64 * 1024 * 1024"
definition DEFAULT_MAX_BLOB_BYTES :: nat where "DEFAULT_MAX_BLOB_BYTES = 4 * 1024 ^ 3"

record 'h codec =
  dumps :: "'h \<Rightarrow> bytes"
  loads :: "bytes \<Rightarrow> 'h res"

text \<open>What \<open>send_message\<close> hands to \<open>sendall\<close>.\<close>

definition send_message :: "'h codec \<Rightarrow> 'h \<Rightarrow> bytes list \<Rightarrow> bytes res" where
  "send_message J header blobs =
     (let payload = dumps J header in
      bindE (pack_uint 4 (length payload)) (\<lambda>header_len.
      bindE (pack_uint 4 (length blobs)) (\<lambda>blob_count.
      bindE (mapE (\<lambda>blob. bindE (pack_uint 8 (length blob)) (\<lambda>n. Inr (n @ blob))) blobs) (\<lambda>parts.
      Inr (header_len @ blob_count @ payload @ concat parts)))))"

fun recv_blobs :: "nat \<Rightarrow> nat \<Rightarrow> (sock, bytes list) st" where
  "recv_blobs 0 max_blob_bytes = ret []"
| "recv_blobs (Suc k) max_blob_bytes =
     bnd (recv_exact 8) (\<lambda>len.
     bnd (lift (refuse_if (max_blob_bytes < le_nat len) RPCError)) (\<lambda>_.
     bnd (recv_exact (le_nat len)) (\<lambda>blob.
     bnd (recv_blobs k max_blob_bytes) (\<lambda>rest. ret (blob # rest)))))"

definition recv_message :: "'h codec \<Rightarrow> nat \<Rightarrow> (sock, 'h \<times> bytes list) st" where
  "recv_message J max_blob_bytes =
     bnd (recv_exact 8) (\<lambda>prefix.
     let header_len = le_nat (take 4 prefix); blob_count = le_nat (drop 4 prefix) in
     bnd (lift (refuse_if (MAX_HEADER_BYTES < header_len \<or> 1000000 < blob_count) RPCError)) (\<lambda>_.
     bnd (recv_exact header_len) (\<lambda>payload.
     bnd (lift (loads J payload)) (\<lambda>header.
     bnd (recv_blobs blob_count max_blob_bytes) (\<lambda>blobs. ret (header, blobs))))))"

section \<open>Reading exactly\<close>

lemma recv_simps:
  "fst (recv count s) @ rx (snd (recv count s)) = rx s"
  "length (fst (recv count s)) \<le> count"
  "fst (recv count s) = [] \<longleftrightarrow> count = 0 \<or> rx s = []"
  by (auto simp: recv_def Let_def min_def split: list.splits if_splits)

declare recv_loop.simps [simp del]

lemma recv_loop_result:
  "\<exists>s'. recv_loop n acc s =
     (if n \<le> length (rx s) then Inr (acc @ take n (rx s)) else Inl ConnectionError, s') \<and>
     rx s' = drop n (rx s)"
proof (induction n acc s rule: recv_loop.induct)
  case (1 n acc s)
  obtain chunk s1 where r: "recv (min n MAX_RECV) s = (chunk, s1)" by fastforce
  have c: "chunk @ rx s1 = rx s" "length chunk \<le> n" "chunk = [] \<longleftrightarrow> n = 0 \<or> rx s = []"
    using recv_simps [of "min n MAX_RECV" s] r by (simp_all add: MAX_RECV_def min_def split: if_splits)
  show ?case
  proof (cases "n = 0 \<or> chunk = []")
    case True
    with r c show ?thesis by (subst recv_loop.simps) auto
  next
    case False
    have eq: "recv_loop n acc s = recv_loop (n - length chunk) (acc @ chunk) s1"
      using False r by (subst recv_loop.simps) simp
    have rx: "rx s = chunk @ rx s1" using c(1) by simp
    have "n - length chunk \<le> length (rx s1) \<longleftrightarrow> n \<le> length (rx s)" "take n (rx s) = chunk @ take (n - length chunk) (rx s1)"
        "drop n (rx s) = drop (n - length chunk) (rx s1)"
      using c(2) by (auto simp: rx)
    moreover from "1.IH" [OF _ r [symmetric]] False obtain s' where
      "recv_loop (n - length chunk) (acc @ chunk) s1 =
         (if n - length chunk \<le> length (rx s1) then Inr ((acc @ chunk) @ take (n - length chunk) (rx s1))
          else Inl ConnectionError, s')" "rx s' = drop (n - length chunk) (rx s1)"
      by auto
    ultimately show ?thesis using eq by simp
  qed
qed

text \<open>The two ways a read ends; what has been received after it depends on the bytes sent alone.\<close>

lemma recv_exact_enough:
  assumes "rx s = bs @ rest" and "length bs = n"
  obtains s' where "recv_exact n s = (Inr bs, s')" "rx s' = rest"
  using recv_loop_result [of n "[]" s] assms by (auto simp: recv_exact_def)

lemma recv_exact_short:
  assumes "length (rx s) < n"
  obtains s' where "recv_exact n s = (Inl ConnectionError, s')"
  using recv_loop_result [of n "[]" s] assms by (auto simp: recv_exact_def)

lemma recv_blobs_enough:
  assumes "mapE (\<lambda>blob. bindE (pack_uint 8 (length blob)) (\<lambda>n. Inr (n @ blob))) blobs = Inr parts"
    and "\<forall>blob \<in> set blobs. length blob \<le> limit" and "rx s = concat parts @ rest"
  shows "\<exists>s'. recv_blobs (length blobs) limit s = (Inr blobs, s') \<and> rx s' = rest"
  using assms
proof (induction blobs arbitrary: parts s)
  case Nil
  then show ?case by (simp add: ret_run)
next
  case (Cons blob blobs)
  from Cons.prems(1) obtain n ps where n: "pack_uint 8 (length blob) = Inr n"
      and ps: "mapE (\<lambda>blob. bindE (pack_uint 8 (length blob)) (\<lambda>n. Inr (n @ blob))) blobs = Inr ps"
      and parts: "parts = (n @ blob) # ps"
    by (auto simp: bindE_Inr_iff)
  have len: "length n = 8" "le_nat n = length blob" using pack_uint_Inr [OF n] by simp_all
  obtain s1 where 1: "recv_exact 8 s = (Inr n, s1)" "rx s1 = blob @ concat ps @ rest"
    using recv_exact_enough [of s n "blob @ concat ps @ rest"] len Cons.prems(3) parts by auto
  obtain s2 where 2: "recv_exact (length blob) s1 = (Inr blob, s2)" "rx s2 = concat ps @ rest"
    using recv_exact_enough [OF 1(2) refl] by blast
  obtain s' where "recv_blobs (length blobs) limit s2 = (Inr blobs, s')" "rx s' = rest"
    using Cons.IH [OF ps _ 2(2)] Cons.prems(2) by auto
  then show ?case
    using 1 2 len(2) Cons.prems(2) by (simp add: bnd_def lift_run ret_run)
qed

lemma recv_blobs_short:
  assumes "mapE (\<lambda>blob. bindE (pack_uint 8 (length blob)) (\<lambda>n. Inr (n @ blob))) blobs = Inr parts"
    and "\<forall>blob \<in> set blobs. length blob \<le> limit" and "rx s = take k (concat parts)" and "k < length (concat parts)"
  shows "\<exists>s'. recv_blobs (length blobs) limit s = (Inl ConnectionError, s')"
  using assms
proof (induction blobs arbitrary: parts s k)
  case (Cons blob blobs)
  from Cons.prems(1) obtain n ps where n: "pack_uint 8 (length blob) = Inr n"
      and ps: "mapE (\<lambda>blob. bindE (pack_uint 8 (length blob)) (\<lambda>n. Inr (n @ blob))) blobs = Inr ps"
      and parts: "parts = (n @ blob) # ps"
    by (auto simp: bindE_Inr_iff)
  have len: "length n = 8" "le_nat n = length blob" using pack_uint_Inr [OF n] by simp_all
  consider "k < 8" | "8 \<le> k" "k < 8 + length blob" | "8 + length blob \<le> k" by linarith
  then show ?case
  proof cases
    case 1
    then have "length (rx s) < 8" by (simp add: Cons.prems(3))
    then obtain s' where "recv_exact 8 s = (Inl ConnectionError, s')" by (rule recv_exact_short)
    then show ?thesis by (simp add: bnd_def)
  next
    case 2
    then have "rx s = n @ take (k - 8) blob" by (simp add: Cons.prems(3) parts len)
    then obtain s1 where s1: "recv_exact 8 s = (Inr n, s1)" "rx s1 = take (k - 8) blob"
      using len(1) by (rule recv_exact_enough)
    have "length (rx s1) < length blob" using 2 by (simp add: s1(2))
    then obtain s2 where "recv_exact (length blob) s1 = (Inl ConnectionError, s2)" by (rule recv_exact_short)
    then show ?thesis using s1(1) len(2) Cons.prems(2) by (simp add: bnd_def lift_run)
  next
    case 3
    then have rx: "rx s = n @ blob @ take (k - 8 - length blob) (concat ps)"
      by (simp add: Cons.prems(3) parts len take_append [of k n])
    obtain s1 where s1: "recv_exact 8 s = (Inr n, s1)" "rx s1 = blob @ take (k - 8 - length blob) (concat ps)"
      using recv_exact_enough [OF rx len(1)] by blast
    obtain s2 where s2: "recv_exact (length blob) s1 = (Inr blob, s2)" "rx s2 = take (k - 8 - length blob) (concat ps)"
      using recv_exact_enough [OF s1(2) refl] by blast
    have "k - 8 - length blob < length (concat ps)"
      using 3 Cons.prems(4) by (simp add: parts len)
    then obtain s' where "recv_blobs (length blobs) limit s2 = (Inl ConnectionError, s')"
      using Cons.IH [OF ps _ s2(2)] Cons.prems(2) by auto
    then show ?thesis using s1(1) s2(1) len(2) Cons.prems(2) by (simp add: bnd_def lift_run)
  qed
qed simp

lemma send_message_parts:
  assumes "send_message J header blobs = Inr bs"
  obtains pre parts where "bs = pre @ dumps J header @ concat parts" "length pre = 8"
    "mapE (\<lambda>blob. bindE (pack_uint 8 (length blob)) (\<lambda>n. Inr (n @ blob))) blobs = Inr parts"
    "le_nat (take 4 pre) = length (dumps J header)" "le_nat (drop 4 pre) = length blobs"
proof -
  from assms obtain hl bc parts where p: "pack_uint 4 (length (dumps J header)) = Inr hl" "pack_uint 4 (length blobs) = Inr bc"
      "mapE (\<lambda>blob. bindE (pack_uint 8 (length blob)) (\<lambda>n. Inr (n @ blob))) blobs = Inr parts"
      "bs = (hl @ bc) @ dumps J header @ concat parts"
    by (auto simp: send_message_def Let_def bindE_Inr_iff)
  with pack_uint_Inr [OF p(1)] pack_uint_Inr [OF p(2)] show ?thesis by (intro that [OF p(4) _ p(3)]) simp_all
qed

section \<open>Properties\<close>

text \<open>
  C34.  Messages survive the wire, however it fragments them: whatever pieces the network delivers, a
  receiver that finds a sent message at the front of its stream, within the protocol's limits, reads
  back exactly the header and the blobs that were sent and leaves the rest of the stream unread.
\<close>

theorem message_roundtrip:
  assumes "loads J (dumps J header) = Inr header" and "send_message J header blobs = Inr bs"
    and "length (dumps J header) \<le> MAX_HEADER_BYTES" and "length blobs \<le> 1000000"
    and "\<forall>blob \<in> set blobs. length blob \<le> limit" and "rx s = bs @ rest"
  shows "\<exists>s'. recv_message J limit s = (Inr (header, blobs), s') \<and> rx s' = rest"
proof -
  obtain pre parts where p: "bs = pre @ dumps J header @ concat parts" "length pre = 8"
      "mapE (\<lambda>blob. bindE (pack_uint 8 (length blob)) (\<lambda>n. Inr (n @ blob))) blobs = Inr parts"
      "le_nat (take 4 pre) = length (dumps J header)" "le_nat (drop 4 pre) = length blobs"
    using send_message_parts [OF assms(2)] by blast
  have "rx s = pre @ dumps J header @ concat parts @ rest" by (simp add: assms(6) p(1))
  then obtain s1 where s1: "recv_exact 8 s = (Inr pre, s1)" "rx s1 = dumps J header @ concat parts @ rest"
    using p(2) by (rule recv_exact_enough)
  obtain s2 where s2: "recv_exact (length (dumps J header)) s1 = (Inr (dumps J header), s2)" "rx s2 = concat parts @ rest"
    using recv_exact_enough [OF s1(2) refl] by blast
  obtain s' where "recv_blobs (length blobs) limit s2 = (Inr blobs, s')" "rx s' = rest"
    using recv_blobs_enough [OF p(3) assms(5) s2(2)] by blast
  then show ?thesis
    using s1(1) s2(1) assms(1,3,4) by (simp add: recv_message_def Let_def bnd_def lift_run ret_run p(4,5))
qed

text \<open>
  C35.  A message cut off anywhere is a \<open>ConnectionError\<close>, never a shorter message: when the peer closes
  after any strict prefix of a message's bytes, the receiver raises \<open>ConnectionError\<close>.
\<close>

theorem truncated_message:
  assumes "loads J (dumps J header) = Inr header" and "send_message J header blobs = Inr bs"
    and "length (dumps J header) \<le> MAX_HEADER_BYTES" and "length blobs \<le> 1000000"
    and "\<forall>blob \<in> set blobs. length blob \<le> limit" and "rx s = take k bs" and "k < length bs"
  shows "\<exists>s'. recv_message J limit s = (Inl ConnectionError, s')"
proof -
  let ?payload = "dumps J header"
  obtain pre parts where p: "bs = pre @ ?payload @ concat parts" "length pre = 8"
      "mapE (\<lambda>blob. bindE (pack_uint 8 (length blob)) (\<lambda>n. Inr (n @ blob))) blobs = Inr parts"
      "le_nat (take 4 pre) = length ?payload" "le_nat (drop 4 pre) = length blobs"
    using send_message_parts [OF assms(2)] by blast
  consider "k < 8" | "8 \<le> k" "k < 8 + length ?payload" | "8 + length ?payload \<le> k" by linarith
  then show ?thesis
  proof cases
    case 1
    then have "length (rx s) < 8" by (simp add: assms(6))
    then obtain s' where "recv_exact 8 s = (Inl ConnectionError, s')" by (rule recv_exact_short)
    then show ?thesis by (simp add: recv_message_def bnd_def)
  next
    case 2
    then have "rx s = pre @ take (k - 8) ?payload"
      using p(2) by (simp only: assms(6) p(1) take_append) simp
    then obtain s1 where s1: "recv_exact 8 s = (Inr pre, s1)" "rx s1 = take (k - 8) ?payload"
      using p(2) by (rule recv_exact_enough)
    have "length (rx s1) < length ?payload" using 2 by (simp add: s1(2))
    then obtain s2 where "recv_exact (length ?payload) s1 = (Inl ConnectionError, s2)" by (rule recv_exact_short)
    then show ?thesis
      using s1(1) assms(3,4) by (simp add: recv_message_def Let_def bnd_def lift_run p(4,5))
  next
    case 3
    let ?k = "k - 8 - length ?payload"
    have "rx s = pre @ ?payload @ take ?k (concat parts)"
      using p(2) 3 by (simp only: assms(6) p(1) take_append) simp
    then obtain s1 where s1: "recv_exact 8 s = (Inr pre, s1)" "rx s1 = ?payload @ take ?k (concat parts)"
      using p(2) by (rule recv_exact_enough)
    obtain s2 where s2: "recv_exact (length ?payload) s1 = (Inr ?payload, s2)" "rx s2 = take ?k (concat parts)"
      using recv_exact_enough [OF s1(2) refl] by blast
    have "?k < length (concat parts)" using 3 assms(7) p(1,2) by simp
    then obtain s3 where "recv_blobs (length blobs) limit s2 = (Inl ConnectionError, s3)"
      using recv_blobs_short [OF p(3) assms(5) s2(2)] by blast
    then show ?thesis
      using s1(1) s2(1) assms(1,3,4) by (simp add: recv_message_def Let_def bnd_def lift_run p(4,5))
  qed
qed

text \<open>A codec of one-byte headers, a message with two blobs, a network that delivers in ones and threes.\<close>

definition ex_codec :: "byte codec" where
  "ex_codec = \<lparr>dumps = (\<lambda>b. [b]), loads = (\<lambda>bs. case bs of [b] \<Rightarrow> Inr b | _ \<Rightarrow> Inl ValueError)\<rparr>"

definition ex_wire :: bytes where
  "ex_wire = [1, 0, 0, 0] @ [2, 0, 0, 0] @ [7] @ [2, 0, 0, 0, 0, 0, 0, 0, 5, 6] @ [0, 0, 0, 0, 0, 0, 0, 0]"

lemma ex_sent: "send_message ex_codec 7 [[5, 6], []] = Inr ex_wire"
  by (simp add: send_message_def ex_codec_def pack_uint_def ex_wire_def le_bytes_numeral)

theorem message_roundtrip_witness:
  "\<exists>s'. recv_message ex_codec 10 \<lparr>rx = ex_wire @ [9], sizes = [1, 3, 1, 3]\<rparr> = (Inr (7, [[5, 6], []]), s') \<and> rx s' = [9]"
  by (rule message_roundtrip [OF _ ex_sent]) (simp_all add: ex_codec_def MAX_HEADER_BYTES_def)

theorem truncated_message_witness:
  "\<exists>s'. recv_message ex_codec 10 \<lparr>rx = take 12 ex_wire, sizes = [1, 3, 1, 3]\<rparr> = (Inl ConnectionError, s')"
  by (rule truncated_message [OF _ ex_sent, where k = 12]) (simp_all add: ex_codec_def MAX_HEADER_BYTES_def ex_wire_def)

end
