(* ===== verification/Rpc_Tensors.thy ===== *)
theory Rpc_Tensors
  imports Rpc_Protocol
begin

text \<open>
  How tensors travel in a message, \<open>onnxsim/rpc/_protocol.py\<close>: a description of name, dtype and shape in
  the JSON header and one little-endian, C-contiguous blob each.  A numpy array is its dtype's name,
  its shape and the bit patterns of its elements in C order.  \<open>reshape\<close> is numpy's, a parameter.
\<close>

section \<open>Values\<close>

datatype json = JNull | JBool bool | JInt int | JFloat real | JStr string
  | JList "json list" | JObj "(string \<times> json) list"

record np_array =
  a_dtype :: string
  a_shape :: "nat list"
  a_elems :: "nat list"

definition ITEMSIZES :: "(string \<times> nat) list" where
  "ITEMSIZES =
     [(''float16'', 2), (''float32'', 4), (''float64'', 8), (''int8'', 1), (''int16'', 2), (''int32'', 4),
      (''int64'', 8), (''uint8'', 1), (''uint16'', 2), (''uint32'', 4), (''uint64'', 8), (''bool'', 1)]"

definition DTYPES :: "string list" where "DTYPES = map fst ITEMSIZES"

definition itemsize :: "string \<Rightarrow> nat" where
  "itemsize d = (case map_of ITEMSIZES d of Some n \<Rightarrow> n | None \<Rightarrow> 0)"

definition array_ok :: "np_array \<Rightarrow> bool" where
  "array_ok a \<longleftrightarrow> a_dtype a \<in> set DTYPES \<and> length (a_elems a) = prod_list (a_shape a) \<and>
     (\<forall>e \<in> set (a_elems a). e < 256 ^ itemsize (a_dtype a))"

section \<open>Encoding\<close>

definition tensor_spec :: "string \<Rightarrow> np_array \<Rightarrow> json" where
  "tensor_spec name a =
     JObj [(''name'', JStr name), (''dtype'', JStr (a_dtype a)), (''shape'', JList (map (JInt \<circ> int) (a_shape a)))]"

definition encode_tensor_specs :: "(string \<times> np_array) list \<Rightarrow> json list res" where
  "encode_tensor_specs tensors =
     mapE (\<lambda>(name, a). bindE (refuse_if (a_dtype a \<notin> set DTYPES) RPCError) (\<lambda>_. Inr (tensor_spec name a))) tensors"

definition tobytes :: "np_array \<Rightarrow> bytes" where
  "tobytes a = concat (map (le_bytes (itemsize (a_dtype a))) (a_elems a))"

definition encode_tensors :: "(string \<times> np_array) list \<Rightarrow> (json list \<times> bytes list) res" where
  "encode_tensors tensors =
     bindE (encode_tensor_specs tensors) (\<lambda>specs. Inr (specs, map (tobytes \<circ> snd) tensors))"

section \<open>Decoding\<close>

text \<open>\<open>x[key]\<close> for a string key, iteration, and \<open>int(x)\<close>, on values of a parsed header.\<close>

fun item :: "json \<Rightarrow> string \<Rightarrow> json res" where
  "item (JObj kvs) key = (case map_of kvs key of None \<Rightarrow> Inl KeyError | Some v \<Rightarrow> Inr v)"
| "item _ key = Inl TypeError"

fun elements :: "json \<Rightarrow> json list res" where
  "elements (JList xs) = Inr xs"
| "elements (JStr s) = Inr (map (\<lambda>c. JStr [c]) s)"
| "elements (JObj kvs) = Inr (map (JStr \<circ> fst) kvs)"
| "elements _ = Inl TypeError"

fun to_int :: "json \<Rightarrow> int res" where
  "to_int (JInt n) = Inr n"
| "to_int (JBool b) = Inr (if b then 1 else 0)"
| "to_int (JFloat r) = Inr (if r < 0 then \<lceil>r\<rceil> else \<lfloor>r\<rfloor>)"
| "to_int (JStr s) = int_of_string s"
| "to_int _ = Inl TypeError"

fun hashable :: "json \<Rightarrow> bool" where
  "hashable (JList _) = False"
| "hashable (JObj _) = False"
| "hashable _ = True"

fun chunks_of :: "nat \<Rightarrow> bytes \<Rightarrow> nat \<Rightarrow> nat list" where
  "chunks_of k bs 0 = []"
| "chunks_of k bs (Suc n) = le_nat (take k bs) # chunks_of k (drop k bs) n"

definition decode_tensor ::
  "(int list \<Rightarrow> nat \<Rightarrow> nat list res) \<Rightarrow> json \<Rightarrow> bytes \<Rightarrow> (json \<times> np_array) res" where
  "decode_tensor reshape spec blob =
     bindE (item spec ''dtype'') (\<lambda>dtype.
     bindE (case dtype of JStr d \<Rightarrow> bindE (refuse_if (d \<notin> set DTYPES) RPCError) (\<lambda>_. Inr d) | _ \<Rightarrow> Inl RPCError) (\<lambda>d.
     bindE (bindE (item spec ''shape'') elements) (\<lambda>dims.
     bindE (mapE to_int dims) (\<lambda>shape.
     bindE (np_prod shape) (\<lambda>count.
     bindE (if int (length blob) \<noteq> count * int (itemsize d)
            then bindE (item spec ''name'') (\<lambda>_. Inl RPCError) else Inr ()) (\<lambda>_.
     let n = length blob div itemsize d in
     bindE (reshape shape n) (\<lambda>sh.
     bindE (item spec ''name'') (\<lambda>name.
     bindE (refuse_if (\<not> hashable name) TypeError) (\<lambda>_.
     Inr (name, \<lparr>a_dtype = d, a_shape = sh, a_elems = chunks_of (itemsize d) blob n\<rparr>))))))))))"

definition decode_tensors ::
  "(int list \<Rightarrow> nat \<Rightarrow> nat list res) \<Rightarrow> json list \<Rightarrow> bytes list \<Rightarrow> (json \<rightharpoonup> np_array) res" where
  "decode_tensors reshape specs blobs =
     bindE (refuse_if (length blobs < length specs) RPCError) (\<lambda>_.
     foldE (\<lambda>tensors (spec, blob). bindE (decode_tensor reshape spec blob) (\<lambda>(name, a). Inr (tensors(name \<mapsto> a))))
       Map.empty (zip specs blobs))"

section \<open>Round trip\<close>

text \<open>What numpy documents of \<open>reshape\<close>: the element count is kept, and a shape that has it is taken as it is.\<close>

definition numpy_reshape :: "(int list \<Rightarrow> nat \<Rightarrow> nat list res) \<Rightarrow> bool" where
  "numpy_reshape reshape \<longleftrightarrow>
     (\<forall>shape n sh. reshape shape n = Inr sh \<longrightarrow> prod_list sh = n) \<and>
     (\<forall>sh. reshape (map int sh) (prod_list sh) = Inr sh)"

lemma itemsize_pos: "d \<in> set DTYPES \<Longrightarrow> 0 < itemsize d"
  by (auto simp: DTYPES_def ITEMSIZES_def itemsize_def)

lemma length_tobytes: "length (tobytes a) = itemsize (a_dtype a) * length (a_elems a)"
  by (simp add: tobytes_def length_concat comp_def sum_list_triv)

lemma chunks_of_le_bytes:
  "(\<forall>e \<in> set es. e < 256 ^ k) \<Longrightarrow> chunks_of k (concat (map (le_bytes k) es)) (length es) = es"
  by (induction es) (simp_all add: le_nat_le_bytes)

lemma chunks_of_bound: "k * n \<le> length bs \<Longrightarrow> e \<in> set (chunks_of k bs n) \<Longrightarrow> e < 256 ^ k"
proof (induction k bs n rule: chunks_of.induct)
  case (2 k bs n)
  have "le_nat xs < 256 ^ length xs" for xs
  proof (induction xs)
    case (Cons b xs)
    have "unat b < 256" using unsigned_less [of b] by simp
    with Cons show ?case by simp
  qed simp
  moreover have "length (take k bs) = k" using "2.prems"(1) by simp
  ultimately have "le_nat (take k bs) < 256 ^ k" by metis
  with 2 show ?case by auto
qed simp

lemma length_chunks_of [simp]: "length (chunks_of k bs n) = n"
  by (induction k bs n rule: chunks_of.induct) simp_all

lemma decode_tensor_spec:
  assumes "numpy_reshape reshape" and "array_ok a"
    and "\<forall>d \<in> set (a_shape a). d < 2 ^ 63" and "prod_list (a_shape a) < 2 ^ 63"
  shows "decode_tensor reshape (tensor_spec name a) (tobytes a) = Inr (JStr name, a)"
proof -
  let ?d = "a_dtype a"
  have d: "?d \<in> set DTYPES" "0 < itemsize ?d" using assms(2) itemsize_pos by (auto simp: array_ok_def)
  have len: "length (a_elems a) = prod_list (a_shape a)" using assms(2) by (simp add: array_ok_def)
  have n: "length (tobytes a) div itemsize ?d = prod_list (a_shape a)" using d(2) by (simp add: length_tobytes len)
  have elems: "chunks_of (itemsize ?d) (tobytes a) (prod_list (a_shape a)) = a_elems a"
    using assms(2) chunks_of_le_bytes [of "a_elems a" "itemsize ?d"] by (simp add: array_ok_def tobytes_def len)
  have ints: "mapE to_int (map (JInt \<circ> int) (a_shape a)) = Inr (map int (a_shape a))"
    by (simp add: mapE_Inr_iff)
  have count: "int (length (tobytes a)) = int (prod_list (a_shape a)) * int (itemsize ?d)"
    by (simp add: length_tobytes len)
  have "reshape (map int (a_shape a)) (prod_list (a_shape a)) = Inr (a_shape a)"
    using assms(1) by (simp add: numpy_reshape_def)
  then show ?thesis
    using d(1) ints count np_prod_exact [OF assms(3,4)]
    by (simp add: decode_tensor_def tensor_spec_def n elems)
qed

lemma foldE_updates:
  assumes "\<And>x. x \<in> set xs \<Longrightarrow> f x = Inr (key x, val x)" and "distinct (map key xs)"
  shows "foldE (\<lambda>m x. bindE (f x) (\<lambda>(k, v). Inr (m(k \<mapsto> v)))) m xs = Inr (m ++ map_of (map (\<lambda>x. (key x, val x)) xs))"
  using assms
proof (induction xs arbitrary: m)
  case (Cons x xs)
  have "map_of (map (\<lambda>x. (key x, val x)) xs) (key x) = None"
    using Cons.prems(2) by (force simp: map_of_eq_None_iff)
  then have "m(key x \<mapsto> val x) ++ map_of (map (\<lambda>x. (key x, val x)) xs) =
      m ++ (map_of (map (\<lambda>x. (key x, val x)) xs))(key x \<mapsto> val x)"
    by (auto simp: fun_eq_iff map_add_def split: option.splits)
  with Cons show ?case by (simp del: fun_upd_apply)
qed simp

lemma mapE_error:
  assumes "x \<in> set xs" and "f x = Inl e" and "\<And>x. f x = Inl e \<or> (\<exists>y. f x = Inr y)"
  shows "mapE f xs = Inl e"
  using assms(1)
proof (induction xs)
  case (Cons y ys)
  with assms(2) assms(3) [of y] show ?case by auto
qed simp

lemma string_dtype:
  "(case dtype of JStr d \<Rightarrow> bindE (refuse_if (d \<notin> set DTYPES) RPCError) (\<lambda>_. Inr d) | _ \<Rightarrow> Inl RPCError) = Inr x \<longleftrightarrow>
     dtype = JStr x \<and> x \<in> set DTYPES"
  by (cases dtype) (auto simp: res_iff)

text \<open>The number of bytes a description announces: its shape's product, wrapped to 64 bits, times the width.\<close>

definition declared_bytes :: "json \<Rightarrow> int res" where
  "declared_bytes spec =
     bindE (item spec ''dtype'') (\<lambda>dtype.
     bindE (case dtype of JStr d \<Rightarrow> bindE (refuse_if (d \<notin> set DTYPES) RPCError) (\<lambda>_. Inr d) | _ \<Rightarrow> Inl RPCError) (\<lambda>d.
     bindE (bindE (item spec ''shape'') elements) (\<lambda>dims.
     bindE (mapE to_int dims) (\<lambda>shape.
     bindE (np_prod shape) (\<lambda>count. Inr (count * int (itemsize d)))))))"

lemma le_bytes_le_nat: "le_bytes (length bs) (le_nat bs) = bs"
proof (induction bs)
  case (Cons b bs)
  have u: "unat b < 256" using unsigned_less [of b] by simp
  have zero: "(256 :: 8 word) = 0" by transfer (simp add: take_bit_eq_mod)
  have "(unat b + 256 * le_nat bs) div 256 = le_nat bs" using u by simp
  moreover have "(word_of_nat (unat b + 256 * le_nat bs) :: 8 word) = b"
    by (simp add: zero)
  ultimately show ?case using Cons by simp
qed simp

lemma chunks_of_bytes: "length bs = n * k \<Longrightarrow> concat (map (le_bytes k) (chunks_of k bs n)) = bs"
proof (induction k bs n rule: chunks_of.induct)
  case (2 k bs n)
  have "length (take k bs) = k" using "2.prems" by simp
  then have "le_bytes k (le_nat (take k bs)) = take k bs" using le_bytes_le_nat [of "take k bs"] by simp
  with 2 show ?case by simp
qed simp

lemma decode_tensor_Inr:
  assumes "numpy_reshape reshape" and "decode_tensor reshape spec blob = Inr (name, a)"
  shows "declared_bytes spec = Inr (int (length blob))" and "array_ok a" and "tobytes a = blob"
    and "item spec ''name'' = Inr name" and "item spec ''dtype'' = Inr (JStr (a_dtype a))"
proof -
  from assms(2) obtain d dims shape count sh where dtype: "item spec ''dtype'' = Inr (JStr d)" and d: "d \<in> set DTYPES"
      and shape: "bindE (item spec ''shape'') elements = Inr dims" "mapE to_int dims = Inr shape" "np_prod shape = Inr count"
      and len: "int (length blob) = count * int (itemsize d)"
      and sh: "reshape shape (length blob div itemsize d) = Inr sh" and name: "item spec ''name'' = Inr name"
      and a: "a = \<lparr>a_dtype = d, a_shape = sh, a_elems = chunks_of (itemsize d) blob (length blob div itemsize d)\<rparr>"
    unfolding decode_tensor_def bindE_Inr_iff string_dtype Let_def by (auto simp: res_iff split: if_splits)
  show "declared_bytes spec = Inr (int (length blob))"
    using d by (simp add: declared_bytes_def dtype shape len)
  have "int (itemsize d) dvd int (length blob)" by (simp add: len)
  then have "itemsize d dvd length blob" by simp
  then have bytes: "length blob div itemsize d * itemsize d = length blob" by simp
  show "tobytes a = blob" unfolding tobytes_def a by (simp add: chunks_of_bytes bytes)
  have "prod_list sh = length blob div itemsize d" using assms(1) sh by (auto simp: numpy_reshape_def)
  with bytes d chunks_of_bound [of "itemsize d" "length blob div itemsize d" blob] show "array_ok a"
    by (simp add: a array_ok_def mult.commute)
  show "item spec ''name'' = Inr name" "item spec ''dtype'' = Inr (JStr (a_dtype a))"
    by (simp_all add: name dtype a)
qed

lemma wrong_length_refused:
  assumes "declared_bytes spec = Inr n" and "int (length blob) \<noteq> n" and "item spec ''name'' = Inr name"
  shows "decode_tensor reshape spec blob = Inl RPCError"
proof -
  from assms(1) obtain d dims shape count where "item spec ''dtype'' = Inr (JStr d)" "d \<in> set DTYPES"
      "bindE (item spec ''shape'') elements = Inr dims" "mapE to_int dims = Inr shape" "np_prod shape = Inr count"
      "n = count * int (itemsize d)"
    unfolding declared_bytes_def bindE_Inr_iff string_dtype by auto
  with assms(2,3) show ?thesis by (simp add: decode_tensor_def)
qed

lemma foldE_updates_Inr:
  assumes "foldE (\<lambda>m x. bindE (f x) (\<lambda>(k, v). Inr (m(k \<mapsto> v)))) m xs = Inr r"
  shows "(\<forall>x \<in> set xs. \<exists>kv. f x = Inr kv) \<and>
    (\<forall>k v. r k = Some v \<longrightarrow> m k = Some v \<or> (\<exists>x \<in> set xs. f x = Inr (k, v)))"
  using assms
proof (induction xs arbitrary: m)
  case (Cons x xs)
  show ?case
  proof (cases "f x")
    case (Inl e)
    with Cons.prems show ?thesis by simp
  next
    case (Inr kv)
    obtain k v where kv: "kv = (k, v)" by (cases kv)
    have "foldE (\<lambda>m x. bindE (f x) (\<lambda>(k, v). Inr (m(k \<mapsto> v)))) (m(k \<mapsto> v)) xs = Inr r"
      using Cons.prems by (simp only: foldE.simps Inr kv bindE_simps prod.case)
    from Cons.IH [OF this] Inr kv show ?thesis by (auto split: if_splits)
  qed
qed simp

section \<open>Properties\<close>

text \<open>
  C36.  Tensors survive the wire: decoding what \<open>encode_tensors\<close> produced gives back every array under its
  name, with its dtype, its shape and every bit of every element; and a tensor of a dtype outside
  the protocol's is refused with \<open>RPCError\<close> before anything is sent.
\<close>

theorem tensors_roundtrip:
  assumes "numpy_reshape reshape" and "distinct (map fst tensors)"
    and "\<forall>(_, a) \<in> set tensors. a_dtype a \<in> set DTYPES \<longrightarrow> array_ok a \<and>
       (\<forall>d \<in> set (a_shape a). d < 2 ^ 63) \<and> prod_list (a_shape a) < 2 ^ 63"
  shows "if \<forall>(_, a) \<in> set tensors. a_dtype a \<in> set DTYPES
    then \<exists>specs blobs. encode_tensors tensors = Inr (specs, blobs) \<and>
      decode_tensors reshape specs blobs = Inr (map_of (map (\<lambda>(name, a). (JStr name, a)) tensors))
    else encode_tensors tensors = Inl RPCError"
proof (cases "\<forall>(_, a) \<in> set tensors. a_dtype a \<in> set DTYPES")
  case True
  then have "encode_tensor_specs tensors = Inr (map (\<lambda>(name, a). tensor_spec name a) tensors)"
    unfolding encode_tensor_specs_def by (intro mapE_total) auto
  then have enc: "encode_tensors tensors = Inr (map (\<lambda>(name, a). tensor_spec name a) tensors, map (tobytes \<circ> snd) tensors)"
    by (simp add: encode_tensors_def)
  let ?f = "\<lambda>(name, a). (tensor_spec name a, tobytes a)"
  have zip: "zip (map (\<lambda>(name, a). tensor_spec name a) tensors) (map (tobytes \<circ> snd) tensors) = map ?f tensors"
    by (induction tensors) auto
  have "foldE (\<lambda>m x. bindE ((\<lambda>(spec, blob). decode_tensor reshape spec blob) (?f x)) (\<lambda>(name, a). Inr (m(name \<mapsto> a)))) Map.empty tensors =
      Inr (Map.empty ++ map_of (map (\<lambda>x. (JStr (fst x), snd x)) tensors))"
  proof (rule foldE_updates)
    fix x
    assume "x \<in> set tensors"
    with True assms(3) show "(\<lambda>(spec, blob). decode_tensor reshape spec blob) (?f x) = Inr (JStr (fst x), snd x)"
      using decode_tensor_spec [OF assms(1)] by (fastforce split: prod.splits)
  qed (use assms(2) in \<open>simp add: distinct_map inj_on_def\<close>)
  moreover have "foldE g acc (map h xs) = foldE (\<lambda>m x. g m (h x)) acc xs"
    for g :: "(json \<rightharpoonup> np_array) \<Rightarrow> json \<times> bytes \<Rightarrow> (json \<rightharpoonup> np_array) res" and h :: "string \<times> np_array \<Rightarrow> json \<times> bytes" and acc xs
    by (induction xs arbitrary: acc) (simp_all add: bindE_def split: sum.split)
  ultimately have "decode_tensors reshape (map (\<lambda>(name, a). tensor_spec name a) tensors) (map (tobytes \<circ> snd) tensors) =
      Inr (map_of (map (\<lambda>(name, a). (JStr name, a)) tensors))"
    by (simp add: decode_tensors_def zip [unfolded case_prod_unfold] case_prod_unfold)
  with True enc show ?thesis by auto
next
  case False
  from False obtain name a where "(name, a) \<in> set tensors" "a_dtype a \<notin> set DTYPES" by blast
  then have "encode_tensor_specs tensors = Inl RPCError"
    unfolding encode_tensor_specs_def by (intro mapE_error [where x = "(name, a)"]) (auto simp: refuse_if_def)
  with False show ?thesis by (simp add: encode_tensors_def)
qed

text \<open>
  C37.  Nothing malformed gets in: whatever descriptions and blobs a peer sends, when \<open>decode_tensors\<close>
  returns there was a blob for every description, of exactly the number of bytes its shape and dtype
  announce, and every array returned has the name and the dtype of one description, a dtype of the
  protocol, exactly as many elements as its shape says, elements of the dtype's width, and as its bytes
  the whole of that description's blob; a blob of any other length is refused with \<open>RPCError\<close>.
\<close>

theorem decoded_tensors_ok:
  assumes "numpy_reshape reshape"
  shows "(\<forall>m. decode_tensors reshape specs blobs = Inr m \<longrightarrow>
      length specs \<le> length blobs \<and>
      (\<forall>(spec, blob) \<in> set (zip specs blobs). declared_bytes spec = Inr (int (length blob))) \<and>
      (\<forall>name a. m name = Some a \<longrightarrow> array_ok a \<and>
        (\<exists>(spec, blob) \<in> set (zip specs blobs). item spec ''name'' = Inr name \<and>
           item spec ''dtype'' = Inr (JStr (a_dtype a)) \<and> tobytes a = blob))) \<and>
    (\<forall>spec blob name n. declared_bytes spec = Inr n \<and> n \<noteq> int (length blob) \<and> item spec ''name'' = Inr name \<longrightarrow>
      decode_tensors reshape [spec] [blob] = Inl RPCError)"
proof (intro conjI allI impI)
  fix m
  assume "decode_tensors reshape specs blobs = Inr m"
  then have len: "length specs \<le> length blobs"
    and run: "foldE (\<lambda>m x. bindE (case x of (spec, blob) \<Rightarrow> decode_tensor reshape spec blob)
        (\<lambda>(name, a). Inr (m(name \<mapsto> a)))) Map.empty (zip specs blobs) = Inr m"
    by (auto simp: decode_tensors_def res_iff case_prod_unfold)
  note each = foldE_updates_Inr [OF run] and one = decode_tensor_Inr [OF assms]
  show "length specs \<le> length blobs" by (rule len)
  show "\<forall>(spec, blob) \<in> set (zip specs blobs). declared_bytes spec = Inr (int (length blob))"
    using each one(1) by fastforce
  fix name a
  assume "m name = Some a"
  with each obtain x where "x \<in> set (zip specs blobs)" "(case x of (spec, blob) \<Rightarrow> decode_tensor reshape spec blob) = Inr (name, a)"
    by fastforce
  then obtain spec blob where "(spec, blob) \<in> set (zip specs blobs)" "decode_tensor reshape spec blob = Inr (name, a)"
    by (metis (mono_tags) case_prod_conv surj_pair)
  with one(2-5) [OF this(2)] show "array_ok a" "\<exists>(spec, blob) \<in> set (zip specs blobs). item spec ''name'' = Inr name \<and>
      item spec ''dtype'' = Inr (JStr (a_dtype a)) \<and> tobytes a = blob"
    by auto
next
  fix spec name n and blob :: bytes
  assume "declared_bytes spec = Inr n \<and> n \<noteq> int (length blob) \<and> item spec ''name'' = Inr name"
  then show "decode_tensors reshape [spec] [blob] = Inl RPCError"
    using wrong_length_refused [of spec n blob name reshape] by (simp add: decode_tensors_def)
qed

definition ex_reshape :: "int list \<Rightarrow> nat \<Rightarrow> nat list res" where
  "ex_reshape shape n =
     (if (\<forall>d \<in> set shape. 0 \<le> d) \<and> prod_list (map nat shape) = n then Inr (map nat shape) else Inl ValueError)"

lemma ex_reshape_numpy: "numpy_reshape ex_reshape"
  by (auto simp: numpy_reshape_def ex_reshape_def comp_def split: if_splits)

definition ex_tensors :: "(string \<times> np_array) list" where
  "ex_tensors = [(''x'', \<lparr>a_dtype = ''int16'', a_shape = [2, 1], a_elems = [258, 65535]\<rparr>),
     (''y'', \<lparr>a_dtype = ''bool'', a_shape = [], a_elems = [1]\<rparr>)]"

theorem tensors_roundtrip_witness:
  "\<exists>specs blobs. encode_tensors ex_tensors = Inr (specs, blobs) \<and>
     decode_tensors ex_reshape specs blobs = Inr (map_of (map (\<lambda>(name, a). (JStr name, a)) ex_tensors))"
  using tensors_roundtrip [OF ex_reshape_numpy, of ex_tensors]
  by (simp add: ex_tensors_def array_ok_def DTYPES_def ITEMSIZES_def itemsize_def)

definition ex_spec :: json where
  "ex_spec = JObj [(''name'', JStr ''x''), (''dtype'', JStr ''uint16''), (''shape'', JList [JInt 1])]"

lemma ex_decoded:
  "decode_tensors ex_reshape [ex_spec] [[1, 2]] =
     Inr [JStr ''x'' \<mapsto> \<lparr>a_dtype = ''uint16'', a_shape = [1], a_elems = [513]\<rparr>]"
  by (simp add: decode_tensors_def decode_tensor_def ex_spec_def DTYPES_def ITEMSIZES_def itemsize_def np_prod_def
      ex_reshape_def Let_def)

theorem decoded_tensors_ok_witness:
  "array_ok \<lparr>a_dtype = ''uint16'', a_shape = [1], a_elems = [513]\<rparr> \<and>
   decode_tensors ex_reshape [ex_spec] [[1, 2, 3]] = Inl RPCError"
proof -
  have "declared_bytes ex_spec = Inr 2"
    by (simp add: declared_bytes_def ex_spec_def DTYPES_def ITEMSIZES_def itemsize_def np_prod_def)
  moreover have "item ex_spec ''name'' = Inr (JStr ''x'')" by (simp add: ex_spec_def)
  ultimately show ?thesis
    using decoded_tensors_ok [OF ex_reshape_numpy, of "[ex_spec]" "[[1, 2]]"] ex_decoded by simp
qed

end
