(* ===== verification/Rpc_Tracker.thy ===== *)
theory Rpc_Tracker
  imports Rpc_Tensors
begin

text \<open>
  The tracker of \<open>onnxsim/rpc/tracker.py\<close>: servers register under a key for as long as their connection
  stays open, clients ask for a server by key and get them round-robin.  Every method of the registry
  holds its lock, so it is one atomic step; the connections' handlers interleave as a step relation.
\<close>

section \<open>The registry\<close>

type_synonym address = "string \<times> int"

record tracker =
  servers :: "string \<rightharpoonup> address list"
  cursor :: "string \<rightharpoonup> nat"

definition new_tracker :: tracker where
  "new_tracker = \<lparr>servers = Map.empty, cursor = Map.empty\<rparr>"

definition listed :: "tracker \<Rightarrow> string \<Rightarrow> address list" where
  "listed t key = (case servers t key of None \<Rightarrow> [] | Some as \<Rightarrow> as)"

definition add :: "string \<Rightarrow> address \<Rightarrow> tracker \<Rightarrow> tracker" where
  "add key addr t =
     (let as = listed t key
      in t\<lparr>servers := (servers t)(key \<mapsto> (if addr \<in> set as then as else as @ [addr]))\<rparr>)"

definition remove :: "string \<Rightarrow> address \<Rightarrow> tracker \<Rightarrow> tracker" where
  "remove key addr t =
     (let as = remove1 addr (listed t key)
      in if as = [] then t\<lparr>servers := (servers t)(key := None)\<rparr>
         else t\<lparr>servers := (servers t)(key \<mapsto> as)\<rparr>)"

definition pick :: "string \<Rightarrow> tracker \<Rightarrow> address option \<times> tracker" where
  "pick key t =
     (case servers t key of
        None \<Rightarrow> (None, t)
      | Some [] \<Rightarrow> (None, t)
      | Some as \<Rightarrow>
          let index = (case cursor t key of None \<Rightarrow> 0 | Some n \<Rightarrow> n) mod length as
          in (Some (as ! index), t\<lparr>cursor := (cursor t)(key \<mapsto> index + 1)\<rparr>))"

definition summary :: "tracker \<Rightarrow> (string \<rightharpoonup> address list)" where
  "summary t = servers t"

section \<open>The handler\<close>

datatype reply = Ok | Ok_Addr address | Ok_Servers "string \<rightharpoonup> address list" | Refused

text \<open>\<open>x[i]\<close> for an integer index.\<close>

fun index :: "json \<Rightarrow> nat \<Rightarrow> json res" where
  "index (JList xs) i = (if i < length xs then Inr (xs ! i) else Inl IndexError)"
| "index (JStr s) i = (if i < length s then Inr (JStr [s ! i]) else Inl IndexError)"
| "index (JObj _) i = Inl KeyError"
| "index _ i = Inl TypeError"

text \<open>
  The handler up to the point where a registration waits for its connection to close: the reply and
  the entry to remove then.  \<open>str\<close> of a header value is a parameter; a header that is no object has no
  \<open>get\<close>.
\<close>

definition handle :: "(json \<Rightarrow> string) \<Rightarrow> json \<Rightarrow> (tracker, reply \<times> (string \<times> address) option) st" where
  "handle py_str header =
     (case header of
        JObj kvs \<Rightarrow>
          (if map_of kvs ''op'' = Some (JStr ''register'') then
             bnd (lift (item header ''key'')) (\<lambda>key.
             bnd (lift (bindE (item header ''addr'') (\<lambda>a. index a 0))) (\<lambda>host.
             bnd (lift (bindE (bindE (item header ''addr'') (\<lambda>a. index a 1)) to_int)) (\<lambda>port.
             let entry = (py_str key, (py_str host, port)) in
             (\<lambda>t. (Inr (Ok, Some entry), add (fst entry) (snd entry) t)))))
           else if map_of kvs ''op'' = Some (JStr ''request'') then
             bnd (lift (item header ''key'')) (\<lambda>key.
             (\<lambda>t. case pick (py_str key) t of
                (None, t') \<Rightarrow> (Inr (Refused, None), t')
              | (Some addr, t') \<Rightarrow> (Inr (Ok_Addr addr, None), t')))
           else if map_of kvs ''op'' = Some (JStr ''summary'') then (\<lambda>t. (Inr (Ok_Servers (summary t), None), t))
           else ret (Refused, None))
      | _ \<Rightarrow> raise AttributeError)"

text \<open>
  The tracker with its open registrations: a step is a connection being served, or a registered
  connection going away, after which its handler removes its entry (also when the reply cannot be
  sent).  A connection counts as open until that removal: the moment between the peer's close and the
  handler's \<open>finally\<close> clause belongs to the open connection.
\<close>

record tracker_system =
  registry :: tracker
  open_conns :: "nat \<rightharpoonup> string \<times> address"

definition start_system :: tracker_system where
  "start_system = \<lparr>registry = new_tracker, open_conns = Map.empty\<rparr>"

definition serve :: "(json \<Rightarrow> string) \<Rightarrow> nat \<Rightarrow> json \<Rightarrow> tracker_system \<Rightarrow> tracker_system" where
  "serve py_str c header s =
     (case handle py_str header (registry s) of
        (r, t) \<Rightarrow> s\<lparr>registry := t,
          open_conns := (case r of Inr (_, Some e) \<Rightarrow> (open_conns s)(c \<mapsto> e) | _ \<Rightarrow> open_conns s)\<rparr>)"

definition disconnect :: "nat \<Rightarrow> string \<times> address \<Rightarrow> tracker_system \<Rightarrow> tracker_system" where
  "disconnect c e s =
     s\<lparr>registry := remove (fst e) (snd e) (registry s), open_conns := (open_conns s)(c := None)\<rparr>"

inductive tracker_step :: "(json \<Rightarrow> string) \<Rightarrow> tracker_system \<Rightarrow> tracker_system \<Rightarrow> bool" for py_str where
  serve: "open_conns s c = None \<Longrightarrow> tracker_step py_str s (serve py_str c header s)"
| disconnect: "open_conns s c = Some e \<Longrightarrow> tracker_step py_str s (disconnect c e s)"

text \<open>
  Reachable states; the flag says that on the way no two open connections had registered the same
  server under the same key.
\<close>

definition no_duplicates :: "tracker_system \<Rightarrow> bool" where
  "no_duplicates s \<longleftrightarrow> inj_on (open_conns s) (dom (open_conns s))"

inductive tracker_reach :: "(json \<Rightarrow> string) \<Rightarrow> bool \<Rightarrow> tracker_system \<Rightarrow> bool" for py_str where
  start: "tracker_reach py_str True start_system"
| step: "tracker_reach py_str u s \<Longrightarrow> tracker_step py_str s s' \<Longrightarrow> tracker_reach py_str (u \<and> no_duplicates s') s'"


section \<open>Invariants\<close>

definition tracker_ok :: "tracker \<Rightarrow> bool" where
  "tracker_ok t \<longleftrightarrow> (\<forall>key as. servers t key = Some as \<longrightarrow> as \<noteq> [] \<and> distinct as)"

lemma listed_simps [simp]:
  "listed new_tracker key = []"
  "listed (add key addr t) key' =
     (if key' = key \<and> addr \<notin> set (listed t key) then listed t key @ [addr] else listed t key')"
  "listed (remove key addr t) key' = (if key' = key then remove1 addr (listed t key) else listed t key')"
  by (auto simp: listed_def new_tracker_def add_def remove_def Let_def)

lemma cursor_ops [simp]: "cursor (add key addr t) = cursor t" "cursor (remove key addr t) = cursor t"
  by (simp_all add: add_def remove_def Let_def)

lemma servers_pick [simp]: "servers (snd (pick key t)) = servers t"
  by (auto simp: pick_def Let_def split: option.split list.split)

lemma listed_pick [simp]: "listed (snd (pick key t)) key' = listed t key'"
  by (simp add: listed_def)

lemma tracker_ok_ops:
  "tracker_ok new_tracker"
  "tracker_ok t \<Longrightarrow> tracker_ok (add key addr t)"
  "tracker_ok t \<Longrightarrow> tracker_ok (remove key addr t)"
  "tracker_ok t \<Longrightarrow> tracker_ok (snd (pick key t))"
  by (auto simp: tracker_ok_def new_tracker_def add_def remove_def listed_def Let_def split: if_splits option.splits)

text \<open>What serving a connection does to the registry: one operation, or nothing.\<close>

lemma handle_effect:
  assumes "handle py_str header t = (r, t')"
  shows "(\<exists>e. r = Inr (Ok, Some e) \<and> t' = add (fst e) (snd e) t) \<or>
    ((t' = t \<or> (\<exists>key. t' = snd (pick key t))) \<and> (\<forall>reply e. r \<noteq> Inr (reply, Some e)))"
proof (cases header)
  case (JObj kvs)
  have pick: "\<exists>key. t'' = snd (pick key t)" if "pick key t = (a, t'')" for key a t''
    using that by (metis snd_conv)
  show ?thesis
    using assms by (auto simp: JObj handle_def bnd_def lift_run ret_run Let_def
        split: if_splits sum.splits prod.splits option.splits dest: pick)
qed (use assms in \<open>auto simp: handle_def lift_run\<close>)

lemma serve_effect:
  obtains e where "registry (serve py_str c header s) = add (fst e) (snd e) (registry s)"
    "open_conns (serve py_str c header s) = (open_conns s)(c \<mapsto> e)"
  | key where "registry (serve py_str c header s) = registry s \<or>
      registry (serve py_str c header s) = snd (pick key (registry s))"
    "open_conns (serve py_str c header s) = open_conns s"
proof -
  obtain r t' where h: "handle py_str header (registry s) = (r, t')" by fastforce
  from handle_effect [OF this] show ?thesis
  proof (elim disjE exE conjE)
    fix e
    assume "r = Inr (Ok, Some e)" "t' = add (fst e) (snd e) (registry s)"
    with h show ?thesis by (intro that(1)) (simp_all add: serve_def)
  next
    assume "t' = registry s" "\<forall>reply e. r \<noteq> Inr (reply, Some e)"
    with h show ?thesis by (intro that(2)) (auto simp: serve_def split: sum.split option.split)
  next
    fix key
    assume "t' = snd (pick key (registry s))" "\<forall>reply e. r \<noteq> Inr (reply, Some e)"
    with h show ?thesis by (intro that(2)) (auto simp: serve_def split: sum.split option.split)
  qed
qed

text \<open>
  The registry is exact as long as no two open connections registered the same server under the same
  key: what is listed is what is registered.
\<close>

definition exact :: "tracker_system \<Rightarrow> bool" where
  "exact s \<longleftrightarrow> (\<forall>key addr. addr \<in> set (listed (registry s) key) \<longleftrightarrow> (key, addr) \<in> ran (open_conns s))"

definition sound_listing :: "tracker_system \<Rightarrow> bool" where
  "sound_listing s \<longleftrightarrow> tracker_ok (registry s) \<and>
     (\<forall>key addr. addr \<in> set (listed (registry s) key) \<longrightarrow> (key, addr) \<in> ran (open_conns s))"

lemma distinct_listed: "tracker_ok t \<Longrightarrow> distinct (listed t key)"
  by (auto simp: tracker_ok_def listed_def split: option.split)


lemma ran_delete:
  assumes "m c = Some e"
  shows "ran m - {e} \<subseteq> ran (m(c := None))" and "inj_on m (dom m) \<Longrightarrow> ran (m(c := None)) = ran m - {e}"
proof -
  show "ran m - {e} \<subseteq> ran (m(c := None))"
    using assms by (auto simp: ran_def) (metis option.inject)
  moreover have "e \<notin> ran (m(c := None))" if "inj_on m (dom m)"
    using that assms by (auto simp: ran_def inj_on_def dom_def)
  moreover have "ran (m(c := None)) \<subseteq> ran m" by (auto simp: ran_def)
  ultimately show "inj_on m (dom m) \<Longrightarrow> ran (m(c := None)) = ran m - {e}" by blast
qed

lemma sound_listing_step:
  assumes "sound_listing s" and "tracker_step py_str s s'"
  shows "sound_listing s'"
  using assms(2)
proof (cases rule: tracker_step.cases)
  case (serve c header)
  show ?thesis
    unfolding serve(1)
  proof (cases rule: serve_effect [of py_str c header s])
    case (1 e)
    with assms(1) show "sound_listing (serve py_str c header s)"
      by (cases e) (auto simp: sound_listing_def tracker_ok_ops ran_map_upd [of "open_conns s" c, OF serve(2)] split: if_splits)
  next
    case (2 key)
    with assms(1) show "sound_listing (serve py_str c header s)"
      by (auto simp: sound_listing_def tracker_ok_ops)
  qed
next
  case (disconnect c e)
  have "distinct (listed (registry s) (fst e))"
    using assms(1) by (intro distinct_listed) (simp add: sound_listing_def)
  then show ?thesis
    using assms(1) ran_delete(1) [of "open_conns s" c e, OF disconnect(2)] unfolding disconnect(1)
    by (cases e) (auto simp: sound_listing_def disconnect_def tracker_ok_ops dest: notin_set_remove1)
qed

lemma sound_listing_reach: "tracker_reach py_str u s \<Longrightarrow> sound_listing s"
proof (induction rule: tracker_reach.induct)
  case start
  show ?case by (simp add: sound_listing_def start_system_def tracker_ok_ops)
qed (rule sound_listing_step)

lemma exact_step:
  assumes "exact s" and "sound_listing s" and "no_duplicates s" and "tracker_step py_str s s'"
  shows "exact s'"
  using assms(4)
proof (cases rule: tracker_step.cases)
  case (serve c header)
  show ?thesis
    unfolding serve(1)
  proof (cases rule: serve_effect [of py_str c header s])
    case (1 e)
    with assms(1) show "exact (serve py_str c header s)"
      by (cases e) (auto simp: exact_def ran_map_upd [of "open_conns s" c, OF serve(2)] split: if_splits)
  next
    case (2 key)
    with assms(1) show "exact (serve py_str c header s)" by (auto simp: exact_def)
  qed
next
  case (disconnect c e)
  have "distinct (listed (registry s) (fst e))"
    using assms(2) by (intro distinct_listed) (simp add: sound_listing_def)
  then show ?thesis
    using assms(1,3) ran_delete(2) [of "open_conns s" c e, OF disconnect(2)] unfolding disconnect(1)
    by (cases e) (auto simp: exact_def no_duplicates_def disconnect_def)
qed

lemma exact_reach: "tracker_reach py_str u s \<Longrightarrow> u \<longrightarrow> exact s \<and> no_duplicates s"
proof (induction rule: tracker_reach.induct)
  case start
  show ?case by (simp add: exact_def no_duplicates_def start_system_def)
next
  case (step u s s')
  then show ?case using exact_step sound_listing_reach by blast
qed

section \<open>Round-robin\<close>

text \<open>A sequence of requests, whatever their keys, and the answers those for one key get.\<close>

fun picks :: "string list \<Rightarrow> tracker \<Rightarrow> (string \<times> address option) list" where
  "picks [] t = []"
| "picks (key # keys) t = (case pick key t of (a, t') \<Rightarrow> (key, a) # picks keys t')"

definition answers :: "string \<Rightarrow> (string \<times> address option) list \<Rightarrow> address option list" where
  "answers key rs = map snd (filter (\<lambda>(k, _). k = key) rs)"

definition position :: "tracker \<Rightarrow> string \<Rightarrow> nat" where
  "position t key = (case cursor t key of None \<Rightarrow> 0 | Some n \<Rightarrow> n)"

lemma pick_listed:
  assumes "listed t key \<noteq> []"
  shows "fst (pick key t) = Some (listed t key ! (position t key mod length (listed t key)))"
    and "position (snd (pick key t)) key = position t key mod length (listed t key) + 1"
  using assms by (auto simp: pick_def listed_def position_def Let_def split: option.splits list.split)

lemma position_pick_other: "key' \<noteq> key \<Longrightarrow> position (snd (pick key t)) key' = position t key'"
  by (auto simp: pick_def position_def Let_def split: option.split list.split)

lemma mod_shift: "Suc (p mod n + i) mod n = Suc (p + i) mod n"
  by (metis mod_Suc_eq mod_add_left_eq)

lemma picks_round_robin:
  assumes "listed t key = as" and "as \<noteq> []"
  shows "answers key (picks keys t) =
    map (\<lambda>i. Some (as ! ((position t key + i) mod length as))) [0..<count_list keys key]"
  using assms(1)
proof (induction keys arbitrary: t)
  case (Cons k keys)
  obtain a t' where p: "pick k t = (a, t')" by fastforce
  then have t': "listed t' key = as" using Cons.prems by (metis listed_pick snd_conv)
  show ?case
  proof (cases "k = key")
    case True
    have "a = Some (as ! (position t key mod length as))" "position t' key = position t key mod length as + 1"
      using pick_listed [of t key] Cons.prems assms(2) p True by simp_all
    then have "answers key (picks (k # keys) t) = Some (as ! (position t key mod length as)) #
        map (\<lambda>i. Some (as ! ((position t key + Suc i) mod length as))) [0..<count_list keys key]"
      using Cons.IH [OF t'] True p by (simp add: answers_def mod_shift)
    then show ?thesis using True by (simp add: upt_conv_Cons map_Suc_upt [symmetric] comp_def del: upt_Suc)
  next
    case False
    then have "position t' key = position t key" using position_pick_other [of key k t] p by simp
    with False p Cons.IH [OF t'] show ?thesis by (simp add: answers_def)
  qed
qed (simp add: answers_def)

section \<open>Properties\<close>

text \<open>
  C38.  The tracker never hands out a server that is gone, and lists no server twice: in every reachable
  state, after any interleaving of registrations, requests, malformed headers and disconnections,
  each list is nonempty and without repetition, and every server in it is registered under that
  key by a connection that is still open; and as long as no two open connections registered the same
  server under the same key, every open registration is listed.
\<close>

theorem tracker_lists_live:
  assumes "tracker_reach py_str unique s"
  shows "tracker_ok (registry s) \<and>
    (\<forall>key addr. addr \<in> set (listed (registry s) key) \<longrightarrow> (\<exists>c. open_conns s c = Some (key, addr))) \<and>
    (unique \<longrightarrow> (\<forall>c key addr. open_conns s c = Some (key, addr) \<longrightarrow> addr \<in> set (listed (registry s) key)))"
  using sound_listing_reach [OF assms] exact_reach [OF assms]
  by (fastforce simp: sound_listing_def exact_def ran_def)

text \<open>
  C39.  The tracker loses a live server: from any reachable state in which two open connections
  registered the same server under the same key, closing one of them makes the tracker deny that
  server although the other connection is still open.
\<close>

theorem duplicate_registration_lost:
  assumes "tracker_reach py_str unique s" and "open_conns s c = Some (key, addr)" and "open_conns s d = Some (key, addr)"
    and "c \<noteq> d"
  shows "\<exists>s'. tracker_step py_str s s' \<and> open_conns s' d = Some (key, addr) \<and>
    addr \<notin> set (listed (registry s') key)"
proof (intro exI conjI)
  show "tracker_step py_str s (disconnect c (key, addr) s)" using assms(2) by (rule tracker_step.disconnect)
  show "open_conns (disconnect c (key, addr) s) d = Some (key, addr)" using assms(3,4) by (simp add: disconnect_def)
  have "distinct (listed (registry s) key)"
    using sound_listing_reach [OF assms(1)] by (intro distinct_listed) (simp add: sound_listing_def)
  then show "addr \<notin> set (listed (registry (disconnect c (key, addr) s)) key)" by (simp add: disconnect_def)
qed

text \<open>
  C40.  Requests are answered round-robin: while the servers of a key do not change, as many requests for
  it as it has servers, interleaved with requests for any other keys, are answered with each of its
  servers exactly once, in their order from wherever the cursor stands, so none is starved.
\<close>

theorem round_robin_fair:
  assumes "listed t key = as" and "as \<noteq> []" and "count_list keys key = length as"
  shows "answers key (picks keys t) = map Some (rotate (position t key) as)"
  unfolding picks_round_robin [OF assms(1,2)] assms(3)
  by (intro nth_equalityI) (simp_all add: nth_rotate)

definition ex_header :: json where
  "ex_header = JObj [(''op'', JStr ''register''), (''key'', JStr ''k''), (''addr'', JList [JStr ''h'', JInt 9])]"

definition ex_str :: "json \<Rightarrow> string" where
  "ex_str j = (case j of JStr s \<Rightarrow> s | _ \<Rightarrow> '''')"

definition ex_system :: tracker_system where
  "ex_system = serve ex_str 1 ex_header (serve ex_str 0 ex_header start_system)"

lemma ex_serve:
  "serve ex_str c ex_header s =
     s\<lparr>registry := add ''k'' (''h'', 9) (registry s), open_conns := (open_conns s)(c \<mapsto> (''k'', ''h'', 9))\<rparr>"
  by (simp add: serve_def ex_header_def handle_def ex_str_def bnd_def lift_run Let_def)

lemma ex_system_reach: "tracker_reach ex_str ((True \<and> no_duplicates (serve ex_str 0 ex_header start_system)) \<and> no_duplicates ex_system) ex_system"
  unfolding ex_system_def
proof (rule tracker_reach.step [OF tracker_reach.step [OF tracker_reach.start]])
  show "tracker_step ex_str start_system (serve ex_str 0 ex_header start_system)"
    by (rule tracker_step.serve) (simp add: start_system_def)
  show "tracker_step ex_str (serve ex_str 0 ex_header start_system)
      (serve ex_str 1 ex_header (serve ex_str 0 ex_header start_system))"
    by (rule tracker_step.serve) (simp add: ex_serve start_system_def)
qed

lemma ex_system_conns: "open_conns ex_system 0 = Some (''k'', ''h'', 9)" "open_conns ex_system 1 = Some (''k'', ''h'', 9)"
  by (simp_all add: ex_system_def ex_serve)

definition ex_first :: tracker_system where
  "ex_first = serve ex_str 0 ex_header start_system"

lemma ex_first_reach: "tracker_reach ex_str (True \<and> no_duplicates ex_first) ex_first"
  unfolding ex_first_def
  by (rule tracker_reach.step [OF tracker_reach.start], rule tracker_step.serve) (simp add: start_system_def)

theorem tracker_lists_live_witness:
  "tracker_ok (registry ex_first) \<and> (''h'', 9) \<in> set (listed (registry ex_first) ''k'')"
proof -
  have "no_duplicates ex_first" by (simp add: no_duplicates_def ex_first_def ex_serve start_system_def)
  moreover have "open_conns ex_first 0 = Some (''k'', ''h'', 9)" by (simp add: ex_first_def ex_serve)
  ultimately show ?thesis using tracker_lists_live [OF ex_first_reach] by blast
qed

theorem duplicate_registration_lost_witness:
  "\<exists>s'. tracker_step ex_str ex_system s' \<and> open_conns s' 1 = Some (''k'', ''h'', 9) \<and>
     (''h'', 9) \<notin> set (listed (registry s') ''k'')"
  by (rule duplicate_registration_lost [OF ex_system_reach ex_system_conns]) simp

definition ex_tracker :: tracker where
  "ex_tracker = add ''k'' (''a'', 1) (add ''k'' (''b'', 2) (add ''z'' (''c'', 3) new_tracker))"

theorem round_robin_fair_witness:
  "answers ''k'' (picks [''k'', ''z'', ''k''] (snd (pick ''k'' ex_tracker))) = [Some (''a'', 1), Some (''b'', 2)]"
proof -
  have l: "listed ex_tracker ''k'' = [(''b'', 2), (''a'', 1)]" by (simp add: ex_tracker_def)
  moreover have "position ex_tracker ''k'' = 0" by (simp add: ex_tracker_def position_def) (simp add: new_tracker_def)
  then have "position (snd (pick ''k'' ex_tracker)) ''k'' = 1"
    using pick_listed(2) [of ex_tracker "''k''"] l by simp
  ultimately show ?thesis
    using round_robin_fair [of "snd (pick ''k'' ex_tracker)" "''k''" _ "[''k'', ''z'', ''k'']"] by simp
qed

end
