(* ===== verification/Spec2Isabelle.thy ===== *)
theory Spec2Isabelle
  imports Apply_Step Rule_Arity Minibatch Ep_Fragmentation Rpc_Tracker
begin

text \<open>
  A verification development for the training core of onnx-simplifier: the modules under
  \<open>src/onnxsim/\<close> that build gradient graphs for ONNX models (\<open>graph_grad.py\<close>,
  \<open>graph_grad_templates_gen.py\<close>), turn them into training steps and run them (\<open>qat_graph.py\<close>,
  \<open>backend.py\<close>), train on several workers (\<open>distributed.py\<close>), estimate how they split across
  execution providers (\<open>_ep_fragmentation.py\<close>), and ship tensors to remote devices
  (\<open>rpc/_protocol.py\<close>, \<open>rpc/tracker.py\<close>).

  How the parts interact. A caller hands \<open>build_backward\<close> a slice of forward nodes, their shapes and
  a gradient for some of their outputs. It walks the slice in reverse and asks one rule per operator
  for the contributions to the node's inputs; a rule appends nodes, constants and calls of
  model-local functions to a \<open>GraphBuilder\<close> and returns tensor names, which the walk adds up. The
  optimizer updates append the parameter step to the same builder, \<open>make_step_graph\<close> wraps it into a
  model, and \<open>run_step_graph\<close> drives that model, through the device-resident loop when it can be
  bound and feed by feed otherwise, with minibatches drawn by \<open>minibatch_indices\<close>.

  Theories, in the order they build on each other.
  \<^item> \<open>Prelude\<close>: Python's exceptions as \<open>exn\<close>, the exception monad \<open>'a res\<close> and the
    state-and-exception monad \<open>('s, 'a) st\<close> (the state survives an exception, as a mutated object
    does), the collections \<open>monad_simps\<close>, \<open>emit_intros\<close> and \<open>res_iff\<close>. \<open>Onnx\<close>: nodes, attributes,
    tensors, functions, shapes with dynamic dimensions.
  \<^item> \<open>Graph_Builder\<close>: class \<open>GraphBuilder\<close>, its state a record, each method a state-passing function;
    what numpy computes (rounding to float32, \<open>broadcast_shapes\<close>) is the parameter \<open>ext\<close>.
    \<open>Grad_Templates\<close>: the checked-in function bodies. \<open>Backward_Context\<close>: class \<open>_Backward\<close>.
  \<^item> \<open>Rules_Pointwise\<close>, \<open>Rules_Templated\<close>, \<open>Rules_Shape\<close>, \<open>Rules_Linear\<close>, \<open>Rules_Norm\<close>, \<open>Rules_Conv\<close>:
    one function \<open>grad_<op>\<close> per \<open>_grad_<op>\<close> of \<open>graph_grad.py\<close>, its refusals included.
    \<open>Index_Geometry\<close> and \<open>Conv_Geometry\<close>: the index tables and the geometry checks of convolution
    and pooling. \<open>Rule_Table\<close>: the tables and the registry of custom rules, an explicit state.
    \<open>Backward_Pass\<close>: \<open>build_backward\<close>.
  \<^item> \<open>Emission\<close> states what every program over a builder promises (fresh names, single assignment,
    inputs defined before use, only allowed operators), \<open>Semantics\<close> gives a builder a meaning under
    any interpretation of the operators, \<open>Adjoint\<close> proves the reverse walk correct for any rules
    that are adjoint to their operators, \<open>Pointwise_Gradient\<close> proves that the elementwise rules are
    at one position, \<open>Tensor_Gradient\<close> that they and \<open>MatMul\<close>'s are on whole tensors with
    broadcasting (over the arrays of \<open>Ndarray\<close>), \<open>Tensor_Derivative\<close> that the tangents are
    derivatives, and \<open>Rule_Arity\<close> that every rule returns one entry per input.
  \<^item> \<open>Optimizers\<close> (\<open>adam_update\<close>, \<open>sgd_momentum_update\<close>), \<open>Minibatch\<close> (\<open>minibatch_indices\<close> with its
    cache as state), \<open>Reference_Evaluator\<close> and \<open>Bound_Loop\<close> (\<open>backend.py\<close>: \<open>_run_with_reference\<close>,
    \<open>Runner.bind_loop\<close>, \<open>BoundStepLoop\<close>, with buffers in an explicit store so that aliasing can be
    stated), \<open>Step_Graph\<close> (\<open>make_step_graph\<close>, \<open>run_step_graph\<close>).
  \<^item> \<open>Gradient_Step\<close> and \<open>Apply_Step\<close> (\<open>distributed.py\<close>: \<open>build_gradient_step_graph\<close>, which composes
    the forward slice, the loss and \<open>build_backward\<close>, and \<open>build_apply_step_graph\<close>, one
    \<open>adam_update\<close> per parameter).
  \<^item> \<open>Ep_Fragmentation\<close> (\<open>estimate_fragmentation\<close>), \<open>Rpc_Protocol\<close> and \<open>Rpc_Tensors\<close> (the wire
    format), \<open>Rpc_Tracker\<close> (the registry and the interleaving of its connections, a step relation).

  What is shown. Of the backward pass: on slices of broadcasting elementwise operators and matrix
  products the graph it builds computes derivatives, because \<open>reduce_to\<close> is the adjoint of
  broadcasting; it is well formed on every slice and failure path; unsupported operators are
  refused, \<open>supported_ops\<close> is exact, and what registering custom rules does and does not achieve. Of
  convolution and pooling: the two index tables are inverse and adjoint and in range, an accepted
  geometry reproduces the declared output and reads only inside the padding. Of the training loop:
  the interface a step graph declares; a bound loop that runs to its end did what the plain one
  does, with no aliasing, and turning it on changes no result, whether or not its runs fail; pruned
  evaluation is exact and frees what it claims; minibatches are windows of a balanced stream; the
  optimizer graphs compute Adam and momentum SGD. Of the rest: axis recovery never guesses, the
  fragmentation estimate is exact but no lower bound, messages and tensors survive any fragmentation
  and truncation is detected, the tracker lists live servers round-robin but loses one registered
  twice.

  Interfaces. Locale \<open>rule_table\<close> is what the walk relies on in a table of rules, interpreted for
  the built-in tables (\<open>builtin\<close>); \<open>adjoint_rules\<close> is what makes a table correct, interpreted for
  the elementwise rules (\<open>pw\<close>) and, as a sublocale of \<open>real_runtime\<close>, for whole tensors on any
  runtime that computes the documented operators, interpreted by \<open>REALS\<close> (\<open>exact\<close>); \<open>row_order\<close> is
  what a minibatch order must satisfy, interpreted for \<open>np.arange\<close>; \<open>io_binding\<close> is what the device
  loop relies on in onnxruntime, a bound run being free to fail where the plain one does not,
  interpreted for a provider that refuses some of its bindings (\<open>refusing\<close>); its extension
  \<open>steady_io_binding\<close> is a provider that runs every binding whose plain run returns, interpreted for
  one that executes a step as one function of its bound inputs (\<open>sequential\<close>); \<open>plain_evaluator\<close> is what the fallback relies on in \<open>onnx.reference\<close>, its
  exceptions left open, interpreted for one that keeps every value (\<open>kept\<close>).

  Bounds and loops. The loops of \<open>fill_rows\<close> (minibatches) and \<open>explore\<close> (islands) are partial
  functions whose theorems state that they return; \<open>recv_loop\<close> terminates because a received chunk
  is never empty. No definition uses fuel. Shapes and Python integers are \<open>int\<close>; the product of a
  received shape is a 64-bit word that wraps around, as numpy's does; bytes are 8-bit words.

  Not modelled. Tensor values are exact reals, so the gradient and optimizer theorems are about the
  graphs' mathematics, not about float32 rounding. onnxruntime, \<open>onnx.reference\<close>, \<open>onnx.inliner\<close>,
  the C++ simplifier, json and numpy's \<open>reshape\<close> and random permutations are parameters; what is
  assumed of them is a locale or a named hypothesis. Exception messages are not modelled. The rest
  of the package (the simplifier's driver, pruning, the quantization algorithms, exporters,
  reconstructions, training drivers, scripts) is numerical search over numpy arrays or glue around
  libraries and generated code, and is listed in the manifest.
\<close>

section \<open>The backward pass\<close>

text \<open>
  C5.  Gradients are derivatives.  For a slice of elementwise nodes over one shape, the tensors
  \<open>build_backward\<close> returns for the targets, evaluated on the graph it leaves behind, are the
  derivative of the seed-weighted sum of the slice's tensors along every differentiable motion of
  the targets: \<open>d/ds (sum of seed * forward tensor) = sum of returned gradient * d target / ds\<close>.
\<close>

theorem gradient_correct:
  fixes \<theta> :: "real \<Rightarrow> string \<Rightarrow> real"
  assumes exact: "exact_consts E"
    and builder: "builder_wf K b" "builder_ok b" "'''' \<notin> K"
    and slice: "ssa L nodes" "\<forall>nd \<in> set nodes. set (inputs nd) \<union> set (outputs nd) \<subseteq> K"
      "\<forall>nd \<in> set nodes. domain nd = '''' \<and> uniform shapes S nd \<and> (\<exists>out. outputs nd = [out]) \<and>
         pw_defined (op_type nd) (map (forward nodes (\<theta> 0)) (inputs nd))"
    and seeds: "finite (dom seeds)" "ran seeds \<subseteq> K"
    and targets: "set targets \<inter> defs nodes = {}"
    and motion: "\<And>x. ((\<lambda>s. \<theta> s x) has_real_derivative d x) (at 0)" "\<And>x. x \<notin> set targets \<Longrightarrow> d x = 0"
    and run: "build_backward E Map.empty nodes shapes seeds targets None b = (Inr res, b')"
  defines "V \<equiv> run_builder PW b' (forward nodes (\<theta> 0))"
  shows "((\<lambda>s. \<Sum>n\<in>dom seeds. V (the (seeds n)) * forward nodes (\<theta> s) n)
           has_real_derivative (\<Sum>t\<in>set targets. V (the (res t)) * d t)) (at 0)"
proof -
  have rules: "default_rules Map.empty = Inr builtin_rules" by (simp add: default_rules_def)
  have run': "build_backward_with E builtin_rules nodes shapes seeds targets b = (Inr res, b')"
    using run by (simp add: build_backward_def rules)
  have "emits K K (build_backward_with E builtin_rules nodes shapes seeds targets) ran"
    using slice(2) seeds(2) builder(3) by (intro builtin.emit_build_backward_with) auto
  from emitD(1) [OF this builder(1) _ run'] have wf: "builder_wf K b'"
    by (simp add: avail_def)
  have V: "V x = forward nodes (\<theta> 0) x" if "x \<in> K" for x
    using run_builder_external [OF wf that] by (simp add: V_def)
  have nonempty: "'''' \<notin> defs nodes"
    using slice(3) by (fastforce simp: defs_def uniform_def)
  obtain T where T: "\<And>x. ((\<lambda>s. forward nodes (\<theta> s) x) has_real_derivative T x) (at 0)"
    using forward_derivatives [OF slice(1) nonempty, of \<theta>] slice(3) motion(1) by metis
  have "set nodes \<subseteq> pw_slice E shapes S V T"
  proof
    fix nd
    assume nd: "nd \<in> set nodes"
    then obtain out where out: "outputs nd = [out]" using slice(3) by blast
    have vals: "map V (inputs nd) = map (forward nodes (\<theta> 0)) (inputs nd)" "V out = forward nodes (\<theta> 0) out"
      using V slice(2) nd out by auto
    have eq: "forward nodes env out = pw_op (op_type nd) (map (forward nodes env) (inputs nd))" for env
      using forward_holds [OF slice(1) nonempty _ nd out] slice(3) by blast
    let ?fs = "map (\<lambda>z s. forward nodes (\<theta> s) z) (inputs nd)"
    have "((\<lambda>s. pw_op (op_type nd) (map (\<lambda>f. f s) ?fs)) has_real_derivative
        jvp (op_type nd) (map (\<lambda>f. f 0) ?fs) (map T (inputs nd))) (at 0)"
      using slice(3) nd T by (intro jvp_is_derivative_aux) (auto simp: comp_def list_all2_conv_all_nth)
    then have "T out = jvp (op_type nd) (map V (inputs nd)) (map T (inputs nd))"
      using DERIV_unique [OF T [of out]] eq by (simp add: comp_def vals)
    moreover have "pw_defined (op_type nd) (map V (inputs nd))"
      unfolding vals(1) using slice(3) nd by blast
    moreover have "V out = pw_op (op_type nd) (map V (inputs nd))"
      unfolding vals using eq .
    ultimately show "nd \<in> pw_slice E shapes S V T"
      using exact slice(3) nd out by (simp add: pw_slice_def pw_node_def)
  qed
  moreover have leaf: "T x = d x" if "x \<notin> defs nodes" for x
    using DERIV_unique [OF T [of x]] motion(1) that by (simp add: forward_other)
  ultimately have "yields PW V (build_backward_with E builtin_rules nodes shapes seeds targets)
      (\<lambda>res. dom res = set targets \<and>
         (\<Sum>t\<in>set targets. V (the (res t)) * T t) = pairing (*) V T seeds {})"
    using slice(1) seeds(1) targets motion(2)
    by (intro yields_weaken [OF pw.pass_pairs]) auto
  from yieldsD(3) [OF this builder(2) run' _ refl]
  have sums: "(\<Sum>t\<in>set targets. V (the (res t)) * T t) = pairing (*) V T seeds {}"
    unfolding V_def using run_builder_sound [OF wf] by blast
  have "(\<Sum>t\<in>set targets. V (the (res t)) * d t) = (\<Sum>t\<in>set targets. V (the (res t)) * T t)"
    using targets leaf by (intro sum.cong refl) (simp add: disjoint_iff)
  also have "\<dots> = (\<Sum>n\<in>dom seeds. V (the (seeds n)) * T n)"
    by (simp add: sums pairing_def)
  finally show ?thesis
    using T by (auto intro!: derivative_eq_intros simp: mult.commute)
qed

text \<open>
  C1.  Gradients of whole tensors.  On any runtime that computes the documented operators over the
  reals, for any slice of elementwise nodes (whose operands broadcast) and matrix products with
  known shapes, the tensors \<open>build_backward\<close> returns for the targets have the targets' shapes, and
  their pairings with the targets' directions are the derivative of the seed-weighted sum of the
  slice's tensors when the targets move and the other leaves stand still.
\<close>

theorem tensor_gradient_correct:
  fixes \<theta> :: "real \<Rightarrow> string \<Rightarrow> real_array"
  assumes runtime: "onnx_reals I" and arith: "exact_consts E" "numpy_broadcast E"
    and builder: "builder_wf K b" "builder_ok b" "'''' \<notin> K"
    and slice: "ssa L nodes" "\<forall>nd \<in> set nodes. set (inputs nd) \<union> set (outputs nd) \<subseteq> K"
      "\<forall>nd \<in> set nodes. domain nd = '''' \<and> well_shaped shapes nd \<and>
         differentiable_at shapes (eval_body I nodes (\<theta> 0)) nd"
    and seeds: "finite (dom seeds)" "dom seeds \<subseteq> L \<union> defs nodes" "ran seeds \<subseteq> K"
      "\<forall>n g. seeds n = Some g \<longrightarrow> typed shapes n (eval_body I nodes (\<theta> 0) g)"
    and motion: "leaves_move shapes L (set targets) \<theta> d" "set targets \<inter> defs nodes = {}"
    and run: "build_backward E Map.empty nodes shapes seeds targets None b = (Inr res, b')"
  defines "V \<equiv> run_builder I b' (eval_body I nodes (\<theta> 0))"
  shows "(\<forall>t \<in> set targets. typed shapes t (V (the (res t)))) \<and>
    ((\<lambda>s. \<Sum>n\<in>dom seeds. dot (V (the (seeds n))) (eval_body I nodes (\<theta> s) n))
      has_real_derivative (\<Sum>t\<in>set targets. dot (V (the (res t))) (d t))) (at 0)"
proof -
  have run': "build_backward_with E builtin_rules nodes shapes seeds targets b = (Inr res, b')"
    using run by (simp add: build_backward_def default_rules_def)
  have "emits K K (build_backward_with E builtin_rules nodes shapes seeds targets) ran"
    using slice(2) seeds(3) builder(3) by (intro builtin.emit_build_backward_with) auto
  from emitD(1) [OF this builder(1) _ run'] have wf: "builder_wf K b'" by (simp add: avail_def)
  have V: "V x = eval_body I nodes (\<theta> 0) x" if "x \<in> K" for x
    using run_builder_external [OF wf that] by (simp add: V_def)
  have nonempty: "'''' \<notin> defs nodes"
    using slice(2) builder(3) by (auto simp: defs_def)
  have vals: "\<forall>nd \<in> set nodes. \<forall>x \<in> set (inputs nd) \<union> set (outputs nd). V x = eval_body I nodes (\<theta> 0) x"
    using V slice(2) by blast
  have seed: "typed shapes n (V g)" if "seeds n = Some g" for n g
    using V [of g] seeds(3,4) that by (metis ranI subsetD)
  have "sound I V b'" unfolding V_def by (rule run_builder_sound [OF wf])
  with pass_derivative [OF runtime arith slice(1) nonempty slice(3) vals seeds(1,2) seed motion run builder(2)]
  show ?thesis by blast
qed

text \<open>
  C31.  Every backward pass leaves a runnable graph: whatever the slice, the shapes, the seeds and the
  targets, and with any registered rules that keep the rule contract, \<open>build_backward\<close> only appends to
  the builder, appends only \<open>BACKWARD_OPS\<close> operators and calls of registered functions whose bodies stay
  inside them, keeps it well formed (fresh names, single assignment, inputs defined before they are
  read), and leaves it so even when it fails; when it returns, it returns exactly the requested
  targets, each as a tensor the graph defines or was given.
\<close>

theorem backward_pass_well_formed:
  assumes "builder_wf K b" and "'''' \<notin> K"
    and "\<forall>nd \<in> set nodes. set (inputs nd) \<union> set (outputs nd) - {''''} \<subseteq> K"
    and "ran seeds \<subseteq> K" and "\<forall>rl \<in> ran reg. rule_contract rl"
    and "build_backward E reg nodes shapes seeds targets None b = (r, b')"
  shows "builder_wf K b' \<and> grows BACKWARD_OPS b b' \<and>
    (case r of Inl _ \<Rightarrow> True | Inr res \<Rightarrow> dom res = set targets \<and> ran res \<subseteq> avail K b')"
proof (cases "default_rules reg")
  case (Inl e)
  with assms(1,6) show ?thesis by (auto simp: build_backward_def bnd_def lift_run)
next
  case (Inr rules)
  then have table: "rule_table rules"
    using assms(5) by (intro rule_table_default) (auto simp: ran_def)
  have run: "build_backward_with E rules nodes shapes seeds targets b = (r, b')"
    using assms(6) by (simp add: build_backward_def Inr)
  have "emits K K (build_backward_with E rules nodes shapes seeds targets) ran"
    by (rule rule_table.emit_build_backward_with [OF table assms(2-4)])
  note e = emitD [OF this assms(1) _ run]
  have "dom res = set targets" if "r = Inr res" for res
    using run that by (auto simp: build_backward_with_def Let_def bnd_def lift_run collect_targets_Inr
        split: prod.splits sum.splits)
  then show ?thesis using e by (auto simp: avail_def split: sum.split)
qed

text \<open>The slice \<open>y = x * w\<close> with \<open>w\<close> trained: a product node, a seed for \<open>y\<close>, a float32 that rounds nothing.\<close>

definition ex_ext :: ext where
  "ex_ext = \<lparr>f32 = (\<lambda>v. v), np_broadcast = (\<lambda>s t. if s = t then Inr s else Inl ValueError)\<rparr>"

definition ex_names :: "string set" where
  "ex_names = {''x'', ''w'', ''y'', ''gy''}"

definition ex_nodes :: "node list" where
  "ex_nodes = [make_node ''Mul'' [''x'', ''w''] [''y''] '''' []]"

definition ex_shapes :: "string \<rightharpoonup> shape" where
  "ex_shapes = (\<lambda>x. if x \<in> ex_names then Some [DInt 4] else None)"

definition ex_point :: "real \<Rightarrow> string \<Rightarrow> real" where
  "ex_point s = (\<lambda>x. if x = ''x'' then 3 else if x = ''w'' then 2 + s else if x = ''gy'' then 1 else 0)"

definition ex_run :: "grads res \<times> builder" where
  "ex_run = build_backward ex_ext Map.empty ex_nodes ex_shapes [''y'' \<mapsto> ''gy''] [''w''] None (new_builder ''bw_'')"

lemma ex_builder: "builder_wf ex_names (new_builder ''bw_'')" "builder_ok (new_builder ''bw_'')"
proof -
  have "minted ''bw_'' h n \<notin> ex_names" for h n
    by (simp add: minted_def ex_names_def)
  then show "builder_wf ex_names (new_builder ''bw_'')"
    by (intro builder_wf_new) (simp add: unminted_def new_builder_def)
  show "builder_ok (new_builder ''bw_'')" by (simp add: builder_ok_def new_builder_def)
qed

lemma ex_run_returns: "\<exists>res b'. ex_run = (Inr res, b')"
  unfolding ex_run_def build_backward_def default_rules_def build_backward_with_def ex_nodes_def
  by (simp add: backward_step_def MULTI_OUTPUT_RULES_def builtin_lookup grad_mul_templated_def ctx_shape_def
      new_ctx_def ex_shapes_def ex_names_def accumulate_def accumulate_one_def b_call_def GRAD_MUL_def
      register_function_def new_builder_def b_name_run add_node_def bnd_def ret_run lift_run
      collect_targets_def Let_def)

theorem gradient_correct_witness:
  "\<exists>res b'. ex_run = (Inr res, b') \<and>
     ((\<lambda>s. \<Sum>n\<in>{''y''}. run_builder PW b' (forward ex_nodes (ex_point 0)) ''gy'' * forward ex_nodes (ex_point s) n)
       has_real_derivative
       (\<Sum>t\<in>{''w''}. run_builder PW b' (forward ex_nodes (ex_point 0)) (the (res t)) * 1)) (at 0)"
proof -
  obtain res b' where run: "ex_run = (Inr res, b')" using ex_run_returns by blast
  define d :: "string \<Rightarrow> real" where "d = (\<lambda>x. if x = ''w'' then 1 else 0)"
  have motion: "((\<lambda>s. ex_point s x) has_real_derivative d x) (at 0)" for x
    by (cases "x = ''x''"; cases "x = ''w''") (auto simp: ex_point_def d_def intro!: derivative_eq_intros)
  have "pw_defined ''Mul'' [ex_point 0 ''x'', ex_point 0 ''w'']" by (rule pw_Mul)
  then have slice: "\<forall>nd \<in> set ex_nodes. domain nd = '''' \<and> uniform ex_shapes [DInt 4] nd \<and>
      (\<exists>out. outputs nd = [out]) \<and> pw_defined (op_type nd) (map (forward ex_nodes (ex_point 0)) (inputs nd))"
    by (simp add: ex_nodes_def uniform_def ex_shapes_def ex_names_def eval_primitive_def)
  from gradient_correct [OF _ ex_builder _ _ _ slice _ _ _ motion _ run [unfolded ex_run_def],
      where L = "{''x'', ''w''}"]
  show ?thesis
    using run by (intro exI conjI) (auto simp: exact_consts_def ex_ext_def ex_nodes_def ex_names_def
      reads_def d_def)
qed

theorem backward_pass_well_formed_witness:
  "builder_wf ex_names (snd ex_run) \<and> grows BACKWARD_OPS (new_builder ''bw_'') (snd ex_run)"
  using backward_pass_well_formed [OF ex_builder(1) _ _ _ _ surjective_pairing, of ex_nodes "[''y'' \<mapsto> ''gy'']" Map.empty
      ex_ext ex_shapes "[''w'']"]
  by (simp add: ex_run_def ex_nodes_def ex_names_def)

text \<open>A linear layer \<open>y = x @ w + b\<close> on a batch of two, whose bias broadcasts over the batch.\<close>

definition lin_nodes :: "node list" where
  "lin_nodes = [make_node ''MatMul'' [''x'', ''w''] [''h''] '''' [], make_node ''Add'' [''h'', ''b''] [''y''] '''' []]"

definition lin_dims :: "(string \<times> nat list) list" where
  "lin_dims = [(''x'', [2, 1]), (''w'', [1, 2]), (''b'', [2]), (''h'', [2, 2]), (''y'', [2, 2])]"

definition lin_shapes :: "string \<rightharpoonup> shape" where
  "lin_shapes x = map_option nats (map_of lin_dims x)"

definition lin_names :: "string set" where
  "lin_names = {''x'', ''w'', ''b'', ''h'', ''y'', ''gy''}"

definition lin_point :: "real \<Rightarrow> string \<Rightarrow> real_array" where
  "lin_point s = (\<lambda>x. if x = ''x'' then ([2, 1], [3, 4]) else if x = ''w'' then ([1, 2], [2 + s, 5])
     else if x = ''b'' then ([2], [1, s]) else if x = ''gy'' then ([2, 2], [1, 1, 1, 1]) else ([], []))"

definition lin_direction :: "string \<Rightarrow> real_array" where
  "lin_direction = (\<lambda>x. if x = ''w'' then ([1, 2], [1, 0]) else ([2], [0, 1]))"

definition lin_run :: "grads res \<times> builder" where
  "lin_run = build_backward exact_ext Map.empty lin_nodes lin_shapes [''y'' \<mapsto> ''gy''] [''w'', ''b''] None
     (new_builder ''bw_'')"

lemma lin_builder: "builder_wf lin_names (new_builder ''bw_'')" "builder_ok (new_builder ''bw_'')"
proof -
  have "minted ''bw_'' h n \<notin> lin_names" for h n
    by (simp add: minted_def lin_names_def)
  then show "builder_wf lin_names (new_builder ''bw_'')"
    by (intro builder_wf_new) (simp add: unminted_def new_builder_def)
  show "builder_ok (new_builder ''bw_'')" by (simp add: builder_ok_def new_builder_def)
qed

lemma lin_dims_of [simp]:
  "dims_of lin_shapes ''x'' = [2, 1]" "dims_of lin_shapes ''w'' = [1, 2]" "dims_of lin_shapes ''b'' = [2]"
  "dims_of lin_shapes ''h'' = [2, 2]" "dims_of lin_shapes ''y'' = [2, 2]"
  by (simp_all add: dims_of_def lin_shapes_def lin_dims_def)

lemma lin_static: "x \<in> {''x'', ''w'', ''b'', ''h'', ''y''} \<Longrightarrow> static lin_shapes x"
  by (auto simp: static_def lin_shapes_def lin_dims_def)

lemma lin_run_returns: "\<exists>res b'. lin_run = (Inr res, b')"
  unfolding lin_run_def build_backward_def default_rules_def build_backward_with_def lin_nodes_def
  by (simp add: backward_step_def MULTI_OUTPUT_RULES_def builtin_lookup RULES_def PYTHON_ONLY_RULES_def
      grad_add_templated_def grad_matmul_def ctx_shape_def
      new_ctx_def lin_shapes_def lin_dims_def accumulate_def accumulate_one_def b_call_def GRAD_ADD_def
      register_function_def new_builder_def b_name_run add_node_def bnd_def ret_run lift_run
      reduce_to_def exact_ext_def b_op_in_def int64_const_def as_int64_def in_int64_def add_initializer_def
      summed_shape_def transpose_last_two_def b_transpose_def b_matmul_def bshape_def refuse_if_def
      collect_targets_def Let_def)

lemma lin_moves:
  "leaves_move lin_shapes {''x'', ''w'', ''b''} (set [''w'', ''b'']) lin_point lin_direction"
proof -
  have "moves [1, 2] (\<lambda>s. ([1, 2], [2 + s, 5])) ([1, 2], [1, 0])"
    "moves [2] (\<lambda>s. ([2], [1, s])) ([2], [0, 1])"
    by (auto simp: moves_def shaped_def cells.simps entry_def upt_rec intro!: derivative_eq_intros)
  moreover have "typed lin_shapes ''x'' ([2, 1], [3, 4])"
    by (simp_all add: typed_def shaped_def)
  ultimately show ?thesis
    by (auto simp: leaves_move_def lin_point_def lin_direction_def)
qed

lemma lin_slice:
  "\<forall>nd \<in> set lin_nodes. domain nd = '''' \<and> well_shaped lin_shapes nd \<and> differentiable_at lin_shapes env nd"
proof -
  have "bshape [2, 2] [2] = [2, 2]" "bcasts [2] [2, 2]" by (simp_all add: bshape_def bcasts_def)
  moreover have "[2, 1] = [] @ [2, Suc 0]" "[1, 2] = [] @ [Suc 0, 2]" "[2, 2] = bshape [] [] @ [2, 2]" by simp_all
  ultimately show ?thesis
    using lin_static
    by (auto simp: lin_nodes_def well_shaped_def differentiable_at_def intro: pw_Add)
qed

theorem tensor_gradient_correct_witness:
  "\<exists>res b'. lin_run = (Inr res, b') \<and>
     ((\<lambda>s. \<Sum>n\<in>{''y''}. dot (run_builder REALS b' (eval_body REALS lin_nodes (lin_point 0)) ''gy'')
          (eval_body REALS lin_nodes (lin_point s) n))
       has_real_derivative
       (\<Sum>t\<in>set [''w'', ''b'']. dot (run_builder REALS b' (eval_body REALS lin_nodes (lin_point 0)) (the (res t)))
          (lin_direction t))) (at 0)"
proof -
  obtain res b' where run: "lin_run = (Inr res, b')" using lin_run_returns by blast
  let ?seeds = "[''y'' \<mapsto> ''gy'']"
  have ssa: "ssa {''x'', ''w'', ''b''} lin_nodes" and defs: "defs lin_nodes = {''h'', ''y''}"
    by (auto simp: lin_nodes_def reads_def)
  have names: "\<forall>nd \<in> set lin_nodes. set (inputs nd) \<union> set (outputs nd) \<subseteq> lin_names" "'''' \<notin> lin_names"
    by (simp_all add: lin_nodes_def lin_names_def)
  have "typed lin_shapes ''y'' (eval_body REALS lin_nodes (lin_point 0) ''gy'')"
    by (subst eval_body_other) (simp_all add: defs lin_point_def typed_def shaped_def)
  then have seed: "\<forall>n g. ?seeds n = Some g \<longrightarrow> typed lin_shapes n (eval_body REALS lin_nodes (lin_point 0) g)"
    by (simp split: if_splits)
  have dom: "finite (dom ?seeds)" "dom ?seeds \<subseteq> {''x'', ''w'', ''b''} \<union> defs lin_nodes" "ran ?seeds \<subseteq> lin_names"
    "set [''w'', ''b''] \<inter> defs lin_nodes = {}"
    by (simp_all add: defs lin_names_def)
  have "dom ?seeds = {''y''}" by simp
  note correct = tensor_gradient_correct [OF REALS_runtime exact_ext_arith lin_builder names(2) ssa names(1) lin_slice dom(1-3) seed
      lin_moves dom(4) run [unfolded lin_run_def], unfolded this]
  show ?thesis
    using run conjunct2 [OF correct] by (intro exI conjI) simp_all
qed

end
